(* ===== verification/Prelude.thy ===== *)
theory Prelude
  imports Main "HOL-Library.AList"
begin

text \<open>
  The shared base of the development: Python exceptions as values, results, Python
  dictionaries as association lists in insertion order, and the generic facts on lists and
  options that the component theories use.

  A \<open>dict\<close> keeps the order in which its keys were first inserted, as Python's dictionaries
  do: assigning an existing key updates it in place, assigning a new key appends it.  Messages
  of exceptions are not modelled, only their class.
\<close>

section \<open>Collections of facts\<close>

named_theorems dict_facts \<open>lookups and key sets of dictionaries\<close>
named_theorems res_splits \<open>case distinctions on results\<close>

section \<open>Exceptions and results\<close>

datatype pyexn =
    KeyError | IndexError | TypeError | ValueError | AttributeError | OverflowError
  | UnicodeDecodeError | FileNotFoundError | OSError | RuntimeError | SystemExit
  | BadlyFormattedFieldError | SnmpActionError | SmiError | NoSuchObjectError
  | DiscoveryError | RequestException | ConnectionFailure | Retry | ValidationError
  | OtherError

type_synonym 'a result = "pyexn + 'a"

definition is_ok :: "'a result \<Rightarrow> bool" where
  "is_ok r = (case r of Inl _ \<Rightarrow> False | Inr _ \<Rightarrow> True)"

definition res_map :: "('a \<Rightarrow> 'b) \<Rightarrow> 'a result \<Rightarrow> 'b result" where
  "res_map f r = (case r of Inl e \<Rightarrow> Inl e | Inr x \<Rightarrow> Inr (f x))"

definition res_bind :: "'a result \<Rightarrow> ('a \<Rightarrow> 'b result) \<Rightarrow> 'b result" where
  "res_bind r f = (case r of Inl e \<Rightarrow> Inl e | Inr x \<Rightarrow> f x)"

lemma is_ok_simps [simp]: "is_ok (Inr x) = True" "is_ok (Inl e) = False"
  by (simp_all add: is_ok_def)

lemma res_bind_simps [simp]: "res_bind (Inl e) f = Inl e" "res_bind (Inr x) f = f x"
  by (simp_all add: res_bind_def)

lemma res_map_simps [simp]: "res_map f (Inl e) = Inl e" "res_map f (Inr x) = Inr (f x)"
  by (simp_all add: res_map_def)

lemma res_bind_Inr [res_splits]:
  "res_bind r f = Inr y \<longleftrightarrow> (\<exists>x. r = Inr x \<and> f x = Inr y)"
  by (cases r) auto

lemma res_map_Inr [res_splits]: "res_map f r = Inr y \<longleftrightarrow> (\<exists>x. r = Inr x \<and> y = f x)"
  by (cases r) auto

lemma is_ok_iff [res_splits]: "is_ok r \<longleftrightarrow> (\<exists>x. r = Inr x)"
  by (cases r) auto

text \<open>A list comprehension whose element expression may raise: the first exception wins.\<close>

fun res_list :: "('a \<Rightarrow> 'b result) \<Rightarrow> 'a list \<Rightarrow> 'b list result" where
  "res_list f [] = Inr []"
| "res_list f (x # xs) =
     res_bind (f x) (\<lambda>y. res_bind (res_list f xs) (\<lambda>ys. Inr (y # ys)))"

lemma res_list_length: "res_list f xs = Inr ys \<Longrightarrow> length ys = length xs"
  by (induction xs arbitrary: ys) (auto simp: res_splits)

lemma res_list_Inr: "(\<And>x. x \<in> set xs \<Longrightarrow> f x = Inr (g x)) \<Longrightarrow> res_list f xs = Inr (map g xs)"
  by (induction xs) auto

lemma res_list_mem: "res_list f xs = Inr ys \<Longrightarrow> y \<in> set ys \<Longrightarrow> \<exists>x \<in> set xs. f x = Inr y"
  by (induction xs arbitrary: ys) (auto simp: res_splits)

lemma res_list_image: "res_list f xs = Inr ys \<Longrightarrow> x \<in> set xs \<Longrightarrow> \<exists>y \<in> set ys. f x = Inr y"
  by (induction xs arbitrary: ys) (auto simp: res_splits)

lemma res_list_ok: "(\<And>x. x \<in> set xs \<Longrightarrow> \<exists>y. f x = Inr y) \<Longrightarrow> \<exists>ys. res_list f xs = Inr ys"
proof (induction xs)
  case (Cons x xs)
  obtain y where "f x = Inr y" using Cons.prems by auto
  moreover obtain ys where "res_list f xs = Inr ys" using Cons by auto
  ultimately show ?case by simp
qed simp

fun res_fold :: "('a \<Rightarrow> 's \<Rightarrow> 's result) \<Rightarrow> 'a list \<Rightarrow> 's \<Rightarrow> 's result" where
  \<comment> \<open>a loop whose body may raise\<close>
  "res_fold f [] s = Inr s"
| "res_fold f (x # xs) s = res_bind (f x s) (res_fold f xs)"

lemma res_fold_append: "res_fold f (xs @ ys) s = res_bind (res_fold f xs s) (res_fold f ys)"
  by (induction xs arbitrary: s) (auto simp: res_bind_def split: sum.splits)

text \<open>A relation between the states before and after a step, for every loop that completes.\<close>

lemma res_fold_induct [consumes 1, case_names Nil Cons]:
  assumes "res_fold f xs s = Inr s'"
    and "\<And>s. P [] s s"
    and "\<And>x xs s t u. f x s = Inr t \<Longrightarrow> res_fold f xs t = Inr u \<Longrightarrow> P xs t u \<Longrightarrow> P (x # xs) s u"
  shows "P xs s s'"
  using assms(1) by (induction xs arbitrary: s) (auto simp: res_splits intro: assms(2,3))

section \<open>Lists\<close>

lemma sorted_filter_split:
  "sorted (map f xs) \<Longrightarrow> filter (\<lambda>x. f x < n) xs @ filter (\<lambda>x. \<not> f x < n) xs = xs"
  for f :: "'a \<Rightarrow> nat"
proof (induction xs)
  case (Cons x xs)
  show ?case
  proof (cases "f x < n")
    case False
    then have "filter (\<lambda>x. f x < n) xs = []" "filter (\<lambda>x. \<not> f x < n) xs = xs"
      using Cons.prems by (fastforce simp: filter_empty_conv filter_id_conv)+
    with False show ?thesis by simp
  qed (use Cons in simp)
qed simp

fun somes :: "'a option list \<Rightarrow> 'a list" where
  "somes [] = []"
| "somes (None # xs) = somes xs"
| "somes (Some x # xs) = x # somes xs"

lemma map_add_upto: "map (\<lambda>x. x + 1) [i..j - 1] = [i + 1..j]" for i j :: int
proof (induction i "j - 1" rule: upto.induct)
  case (1 i)
  then show ?case
    by (cases "i \<le> j - 1") (simp_all add: upto.simps [of i] upto.simps [of "i + 1"])
qed

text \<open>The slices \<open>xs[i:i + n]\<close> for the \<open>i\<close> of \<open>range(0, len(xs), n)\<close>.\<close>

fun chunks :: "nat \<Rightarrow> 'a list \<Rightarrow> 'a list list" where
  "chunks n xs = (if xs = [] \<or> n = 0 then [] else take n xs # chunks n (drop n xs))"

declare chunks.simps [simp del]

definition py_slices :: "'a list \<Rightarrow> int \<Rightarrow> 'a list list result" where
  \<comment> \<open>a step of zero raises, a negative one gives no slice\<close>
  "py_slices xs n = (if n = 0 then Inl ValueError else Inr (chunks (nat n) xs))"

lemma chunks_props:
  "0 < n \<Longrightarrow> concat (chunks n xs) = xs \<and> (\<forall>c \<in> set (chunks n xs). c \<noteq> [] \<and> length c \<le> n)"
proof (induction n xs rule: chunks.induct)
  case (1 n xs)
  then show ?case by (cases "xs = []") (simp_all add: chunks.simps [of n xs] chunks.simps [of n "[]"])
qed

lemma py_slices_pos:
  "0 < n \<Longrightarrow> \<exists>cs. py_slices xs n = Inr cs \<and> concat cs = xs \<and>
     (\<forall>c \<in> set cs. c \<noteq> [] \<and> int (length c) \<le> n)"
  using chunks_props [of "nat n" xs] by (auto simp: py_slices_def)

section \<open>Dictionaries\<close>

type_synonym ('k, 'v) dict = "('k \<times> 'v) list"

definition dict_get :: "('k, 'v) dict \<Rightarrow> 'k \<Rightarrow> 'v option" where
  "dict_get d k = map_of d k"

definition dict_get_or :: "('k, 'v) dict \<Rightarrow> 'k \<Rightarrow> 'v \<Rightarrow> 'v" where
  \<comment> \<open>\<open>d.get(k, default)\<close>\<close>
  "dict_get_or d k v = (case dict_get d k of None \<Rightarrow> v | Some w \<Rightarrow> w)"

definition dict_item :: "('k, 'v) dict \<Rightarrow> 'k \<Rightarrow> 'v result" where
  \<comment> \<open>\<open>d[k]\<close>, which raises \<open>KeyError\<close>\<close>
  "dict_item d k = (case dict_get d k of None \<Rightarrow> Inl KeyError | Some v \<Rightarrow> Inr v)"

definition dict_has :: "('k, 'v) dict \<Rightarrow> 'k \<Rightarrow> bool" where
  \<comment> \<open>\<open>k in d\<close>\<close>
  "dict_has d k = (dict_get d k \<noteq> None)"

definition dict_set :: "'k \<Rightarrow> 'v \<Rightarrow> ('k, 'v) dict \<Rightarrow> ('k, 'v) dict" where
  \<comment> \<open>\<open>d[k] = v\<close>\<close>
  "dict_set k v d = AList.update k v d"

definition dict_del :: "'k \<Rightarrow> ('k, 'v) dict \<Rightarrow> ('k, 'v) dict" where
  \<comment> \<open>\<open>d.pop(k, None)\<close>\<close>
  "dict_del k d = AList.delete k d"

definition dict_keys :: "('k, 'v) dict \<Rightarrow> 'k list" where
  "dict_keys d = map fst d"

definition dict_wf :: "('k, 'v) dict \<Rightarrow> bool" where
  "dict_wf d = distinct (map fst d)"

fun dict_update :: "('k, 'v) dict \<Rightarrow> ('k, 'v) dict \<Rightarrow> ('k, 'v) dict" where
  \<comment> \<open>\<open>d.update(e)\<close>: the items of \<open>e\<close>, in order\<close>
  "dict_update d [] = d"
| "dict_update d ((k, v) # e) = dict_update (dict_set k v d) e"

lemma dict_get_empty [simp, dict_facts]: "dict_get [] k = None"
  by (simp add: dict_get_def)

lemma dict_get_Cons [dict_facts]:
  "dict_get ((k, v) # d) j = (if j = k then Some v else dict_get d j)"
  by (simp add: dict_get_def)

lemma dict_get_set [simp, dict_facts]:
  "dict_get (dict_set k v d) j = (if j = k then Some v else dict_get d j)"
  by (simp add: dict_get_def dict_set_def update_conv')

lemma dict_get_del [simp, dict_facts]:
  "dict_get (dict_del k d) j = (if j = k then None else dict_get d j)"
  by (simp add: dict_get_def dict_del_def delete_conv')

lemma dict_wf_empty [simp]: "dict_wf []"
  by (simp add: dict_wf_def)

lemma dict_wf_set [simp, intro]: "dict_wf d \<Longrightarrow> dict_wf (dict_set k v d)"
  by (simp add: dict_wf_def dict_set_def distinct_update)

lemma dict_wf_del [simp, intro]: "dict_wf d \<Longrightarrow> dict_wf (dict_del k d)"
  by (simp add: dict_wf_def dict_del_def distinct_delete)

lemma dict_wf_update [simp, intro]: "dict_wf d \<Longrightarrow> dict_wf (dict_update d e)"
  by (induction d e rule: dict_update.induct) auto

lemma dict_get_update [dict_facts]:
  "dict_get (dict_update d e) k =
     (case dict_get (rev e) k of None \<Rightarrow> dict_get d k | Some v \<Rightarrow> Some v)"
  by (induction d e rule: dict_update.induct)
     (auto simp: dict_get_def map_of_append dict_set_def update_conv' map_add_def
           split: option.splits)

lemma dict_keys_set [dict_facts]: "set (dict_keys (dict_set k v d)) = insert k (set (dict_keys d))"
  by (simp add: dict_keys_def dict_set_def dom_update)

lemma dict_keys_del [dict_facts]: "set (dict_keys (dict_del k d)) = set (dict_keys d) - {k}"
  by (auto simp: dict_keys_def dict_del_def AList.delete_eq)

lemma dict_set_append: "dict_get d k = None \<Longrightarrow> dict_set k v d = d @ [(k, v)]"
  unfolding dict_get_def dict_set_def by (induction d) (auto split: if_splits)

lemma dict_has_iff [dict_facts]: "dict_has d k \<longleftrightarrow> k \<in> set (dict_keys d)"
  by (auto simp: dict_has_def dict_get_def dict_keys_def map_of_eq_None_iff)

lemma dict_get_None_iff: "dict_get d k = None \<longleftrightarrow> k \<notin> set (dict_keys d)"
  by (simp add: dict_get_def dict_keys_def map_of_eq_None_iff)

lemma dict_get_key: "dict_get d k = Some v \<Longrightarrow> k \<in> set (dict_keys d)"
  using dict_get_None_iff [of d k] by auto

lemma dict_keys_set_eq:
  "dict_keys (dict_set k v d) = (if k \<in> set (dict_keys d) then dict_keys d else dict_keys d @ [k])"
  unfolding dict_keys_def dict_set_def by (induction d) auto

lemma dict_get_Some_iff: "dict_wf d \<Longrightarrow> dict_get d k = Some v \<longleftrightarrow> (k, v) \<in> set d"
  by (simp add: dict_get_def dict_wf_def)

lemma dict_get_in: "dict_wf d \<Longrightarrow> x \<in> set d \<Longrightarrow> dict_get d (fst x) = Some (snd x)"
  by (simp add: dict_get_Some_iff)

lemma dict_get_SomeD: "dict_get d k = Some v \<Longrightarrow> (k, v) \<in> set d"
  by (simp add: dict_get_def map_of_SomeD)

lemma dict_get_rev: "dict_wf d \<Longrightarrow> dict_get (rev d) k = dict_get d k"
  using map_of_inject_set [of "rev d" d] by (simp add: dict_get_def dict_wf_def rev_map [symmetric])

lemma dict_update_append: "dict_wf (d @ e) \<Longrightarrow> dict_update d e = d @ e"
proof (induction d e rule: dict_update.induct)
  case (2 d k v e)
  then have "dict_get d k = None" by (force simp: dict_wf_def dict_get_def map_of_eq_None_iff)
  with 2 show ?case by (simp add: dict_set_append)
qed simp

lemma dict_update_fresh [simp]: "dict_wf d \<Longrightarrow> dict_update [] d = d"
  using dict_update_append [of "[]" d] by simp

section \<open>The dictionary interface\<close>

text \<open>
  What the components rely on when they use a dictionary: a lookup after an assignment or a
  removal, the key list, and the well-formedness (no duplicate key) that every operation
  keeps.
\<close>

locale py_dict =
  fixes get :: "'d \<Rightarrow> 'k \<Rightarrow> 'v option"
    and put :: "'k \<Rightarrow> 'v \<Rightarrow> 'd \<Rightarrow> 'd"
    and del :: "'k \<Rightarrow> 'd \<Rightarrow> 'd"
    and keys :: "'d \<Rightarrow> 'k list"
    and wf :: "'d \<Rightarrow> bool"
  assumes get_put: "get (put k v d) j = (if j = k then Some v else get d j)"
    and get_del: "get (del k d) j = (if j = k then None else get d j)"
    and keys_get: "k \<in> set (keys d) \<longleftrightarrow> get d k \<noteq> None"
    and wf_put: "wf d \<Longrightarrow> wf (put k v d)"
    and wf_del: "wf d \<Longrightarrow> wf (del k d)"
    and wf_keys: "wf d \<Longrightarrow> distinct (keys d)"
begin

lemma keys_put: "set (keys (put k v d)) = insert k (set (keys d))"
  by (auto simp: keys_get get_put split: if_splits)

lemma keys_del: "set (keys (del k d)) = set (keys d) - {k}"
  by (auto simp: keys_get get_del split: if_splits)

lemma get_fold_put:
  "get (fold (\<lambda>x. put (f x) (g x)) xs d) j =
     (case find (\<lambda>x. f x = j) (rev xs) of None \<Rightarrow> get d j | Some x \<Rightarrow> Some (g x))"
proof (induction xs rule: rev_induct)
  case Nil
  show ?case by simp
next
  case (snoc x xs)
  then show ?case by (auto simp: get_put)
qed

lemma get_fold_const:
  "get (fold (\<lambda>k. put k v) ks d) j = (if j \<in> set ks then Some v else get d j)"
  by (induction ks arbitrary: d) (auto simp: get_put)

lemma get_fold_del:
  "get (fold del ks d) j = (if j \<in> set ks then None else get d j)"
  by (induction ks arbitrary: d) (auto simp: get_del)

lemma wf_fold_put: "wf d \<Longrightarrow> wf (fold (\<lambda>x. put (f x) (g x)) xs d)"
  by (induction xs arbitrary: d) (auto intro: wf_put)

lemma wf_fold_del: "wf d \<Longrightarrow> wf (fold del ks d)"
  by (induction ks arbitrary: d) (auto intro: wf_del)

end

interpretation pd: py_dict dict_get dict_set dict_del dict_keys dict_wf
  by unfold_locales (auto simp: dict_get_None_iff dict_wf_def dict_keys_def
      dict_set_def dict_del_def distinct_update distinct_delete simp flip: dict_get_set dict_get_del)

section \<open>Commands and exceptions\<close>

text \<open>Commands sent so far, and the value or the exception the computation ended with.\<close>

type_synonym ('c, 'a) effect = "'c list \<times> 'a result"

definition eff_bind :: "('c, 'a) effect \<Rightarrow> ('a \<Rightarrow> ('c, 'b) effect) \<Rightarrow> ('c, 'b) effect" where
  "eff_bind m f =
     (case m of
        (cs, Inl e) \<Rightarrow> (cs, Inl e)
      | (cs, Inr x) \<Rightarrow> (case f x of (ds, r) \<Rightarrow> (cs @ ds, r)))"

lemma eff_bind_simps [simp]:
  "eff_bind (cs, Inl e) f = (cs, Inl e)"
  "eff_bind (cs, Inr x) f = (cs @ fst (f x), snd (f x))"
  by (simp_all add: eff_bind_def split: prod.split)

lemma eff_bind_pure: "eff_bind ([], r) f = (case r of Inl e \<Rightarrow> ([], Inl e) | Inr x \<Rightarrow> f x)"
  by (cases r) simp_all

definition eff_of :: "('d \<Rightarrow> 'c) \<Rightarrow> 'd list \<times> pyexn option \<Rightarrow> ('c, 'd list) effect" where
  "eff_of f m = (map f (fst m), case snd m of None \<Rightarrow> Inr (fst m) | Some e \<Rightarrow> Inl e)"

section \<open>Histories\<close>

text \<open>
  A relation between an earlier and a later state of a component: it need only be proved for one
  operation to hold over every sequence of them.
\<close>

locale progress =
  fixes rel :: "'s \<Rightarrow> 's \<Rightarrow> bool"
  assumes rel_refl: "rel s s"
    and rel_trans: "rel s t \<Longrightarrow> rel t u \<Longrightarrow> rel s u"
begin

lemma rel_fold: "(\<And>x s. x \<in> set xs \<Longrightarrow> rel s (f x s)) \<Longrightarrow> rel s (fold f xs s)"
  by (induction xs arbitrary: s) (auto simp: rel_refl intro: rel_trans)

lemma rel_fold_snd: "(\<And>x s. x \<in> set xs \<Longrightarrow> rel s (snd (f x s))) \<Longrightarrow> rel s (fold (\<lambda>x s. snd (f x s)) xs s)"
  by (rule rel_fold)

end

section \<open>Step relations\<close>

text \<open>
  An invariant of a step relation holds in every state that can be reached; if each step also
  uses up one of finitely many, the length of every run is known.
\<close>

locale stepping =
  fixes step :: "'s \<Rightarrow> 's \<Rightarrow> bool"
    and inv :: "'s \<Rightarrow> bool"
  assumes inv_step: "step s t \<Longrightarrow> inv s \<Longrightarrow> inv t"
begin

lemma inv_reach: "step\<^sup>*\<^sup>* s t \<Longrightarrow> inv s \<Longrightarrow> inv t"
  by (induction rule: rtranclp_induct) (auto intro: inv_step)

lemma inv_run: "(step ^^ k) s t \<Longrightarrow> inv s \<Longrightarrow> inv t"
  by (rule inv_reach) (auto simp: rtranclp_power)

end

locale countdown = stepping +
  fixes left :: "'a \<Rightarrow> nat"
  assumes left_step: "step s t \<Longrightarrow> inv s \<Longrightarrow> left s = Suc (left t)"
begin

lemma left_run: "(step ^^ k) s t \<Longrightarrow> inv s \<Longrightarrow> left t + k = left s"
proof (induction k arbitrary: t)
  case (Suc k)
  then obtain u where u: "(step ^^ k) s u" "step u t" by auto
  then show ?case using Suc.IH [OF u(1)] Suc.prems(2) left_step [OF u(2)] inv_run [OF u(1)] by simp
qed simp

lemma run_bounded: "(step ^^ k) s t \<Longrightarrow> inv s \<Longrightarrow> k \<le> left s"
  using left_run [of k s t] by simp

end

end
