(* ===== verification/PyString.thy ===== *)
theory PyString
  imports Prelude "HOL-Library.Sublist"
begin

text \<open>
  The operations on \<open>str\<close> that the sources use: \<open>strip\<close>, \<open>lower\<close>, \<open>startswith\<close>, \<open>in\<close>,
  \<open>partition\<close>, \<open>split\<close>, \<open>rsplit(\<dots>, 1)\<close>, \<open>replace\<close>, \<open>join\<close>, \<open>isdigit\<close>, the conversions
  \<open>str(int)\<close> and \<open>int(str)\<close>, and the regular expressions the sources compile.

  A Python string is a list of characters of the range 0 to 255; case, digits and white space
  are those of ASCII.
\<close>

section \<open>Characters\<close>

definition is_space :: "char \<Rightarrow> bool" where
  "is_space c = (let n = (of_char c :: nat) in 9 \<le> n \<and> n \<le> 13 \<or> 28 \<le> n \<and> n \<le> 32)"

definition is_digit :: "char \<Rightarrow> bool" where
  "is_digit c = (let n = (of_char c :: nat) in 48 \<le> n \<and> n \<le> 57)"

definition digit_val :: "char \<Rightarrow> nat" where
  "digit_val c = of_char c - 48"

definition digit_char :: "nat \<Rightarrow> char" where
  "digit_char n = char_of (48 + n)"

definition lower_char :: "char \<Rightarrow> char" where
  "lower_char c = (let n = (of_char c :: nat) in if 65 \<le> n \<and> n \<le> 90 then char_of (n + 32) else c)"

definition upper_char :: "char \<Rightarrow> char" where
  "upper_char c = (let n = (of_char c :: nat) in if 97 \<le> n \<and> n \<le> 122 then char_of (n - 32) else c)"

lemma is_digit_digit_char [simp]: "n < 10 \<Longrightarrow> is_digit (digit_char n)"
  by (simp add: is_digit_def digit_char_def)

lemma digit_val_digit_char [simp]: "n < 10 \<Longrightarrow> digit_val (digit_char n) = n"
  by (simp add: digit_val_def digit_char_def)

section \<open>Strings\<close>

definition str_lstrip :: "string \<Rightarrow> string" where
  "str_lstrip s = dropWhile is_space s"

definition str_rstrip :: "string \<Rightarrow> string" where
  "str_rstrip s = rev (dropWhile is_space (rev s))"

definition str_strip :: "string \<Rightarrow> string" where
  "str_strip s = str_rstrip (str_lstrip s)"

definition str_lower :: "string \<Rightarrow> string" where
  "str_lower s = map lower_char s"

definition str_upper :: "string \<Rightarrow> string" where
  "str_upper s = map upper_char s"

definition str_startswith :: "string \<Rightarrow> string \<Rightarrow> bool" where
  \<comment> \<open>\<open>s.startswith(p)\<close>\<close>
  "str_startswith s p = prefix p s"

definition str_isdigit :: "string \<Rightarrow> bool" where
  "str_isdigit s = (s \<noteq> [] \<and> list_all is_digit s)"

text \<open>\<open>s.partition(sep)\<close>: the parts before and after the first occurrence of a separator.\<close>

fun str_cut :: "string \<Rightarrow> string \<Rightarrow> (string \<times> string) option" where
  "str_cut sep [] = (if sep = [] then Some ([], []) else None)"
| "str_cut sep (c # s) =
     (if prefix sep (c # s) then Some ([], drop (length sep) (c # s))
      else map_option (\<lambda>(a, b). (c # a, b)) (str_cut sep s))"

definition str_contains :: "string \<Rightarrow> string \<Rightarrow> bool" where
  \<comment> \<open>\<open>sub in s\<close>\<close>
  "str_contains s sub = (str_cut sub s \<noteq> None)"

lemma str_cut_SomeD: "str_cut sep s = Some (a, b) \<Longrightarrow> s = a @ sep @ b"
proof (induction s arbitrary: a)
  case Nil
  then show ?case by (simp split: if_splits)
next
  case (Cons c s)
  then show ?case by (auto split: if_splits simp: prefix_def)
qed

lemma str_cut_length: "str_cut sep s = Some (a, b) \<Longrightarrow> sep \<noteq> [] \<Longrightarrow> length b < length s"
  by (drule str_cut_SomeD) simp

text \<open>\<open>s.split(sep)\<close>; the sources never pass an empty separator.\<close>

function str_split :: "string \<Rightarrow> string \<Rightarrow> string list" where
  "str_split sep s =
     (if sep = [] then [s]
      else (case str_cut sep s of None \<Rightarrow> [s] | Some (a, b) \<Rightarrow> a # str_split sep b))"
  by pat_completeness auto
termination
  by (relation "measure (\<lambda>(sep, s). length s)") (auto dest: str_cut_length)

declare str_split.simps [simp del]

fun str_join :: "string \<Rightarrow> string list \<Rightarrow> string" where
  "str_join sep [] = []"
| "str_join sep [x] = x"
| "str_join sep (x # y # ys) = x @ sep @ str_join sep (y # ys)"

definition str_replace :: "string \<Rightarrow> string \<Rightarrow> string \<Rightarrow> string" where
  \<comment> \<open>\<open>s.replace(old, new)\<close> for a non-empty \<open>old\<close>\<close>
  "str_replace old new s = str_join new (str_split old s)"

definition str_rcut :: "char \<Rightarrow> string \<Rightarrow> (string \<times> string) option" where
  \<comment> \<open>\<open>s.rsplit(c, 1)\<close>: the parts around the last occurrence of \<open>c\<close>, \<open>None\<close> when there is none\<close>
  "str_rcut c s =
     (if c \<in> set s
      then Some (rev (tl (dropWhile (\<lambda>x. x \<noteq> c) (rev s))), rev (takeWhile (\<lambda>x. x \<noteq> c) (rev s)))
      else None)"

lemma str_split_not_Nil [simp]: "str_split sep s \<noteq> []"
  by (subst str_split.simps) (simp split: option.splits prod.splits)

lemma str_join_split: "str_join sep (str_split sep s) = s"
proof (induction sep s rule: str_split.induct)
  case (1 sep s)
  show ?case
  proof (cases "str_cut sep s")
    case None
    then have "str_split sep s = [s]" by (simp add: str_split.simps [of sep s])
    then show ?thesis by simp
  next
    case (Some p)
    obtain a b where ab: "p = (a, b)" by (cases p)
    show ?thesis
    proof (cases "sep = []")
      case True
      then have "str_split sep s = [s]" by (simp add: str_split.simps [of "[]" s])
      then show ?thesis by simp
    next
      case False
      with Some ab have "str_join sep (str_split sep s) = a @ sep @ str_join sep (str_split sep b)"
        by (cases "str_split sep b") (simp_all add: str_split.simps [of sep s])
      also have "\<dots> = a @ sep @ b" using False Some ab "1.IH" by simp
      finally show ?thesis using Some ab str_cut_SomeD by simp
    qed
  qed
qed

lemma str_replace_same: "str_replace old old s = s"
  by (simp add: str_replace_def str_join_split)

lemma append_sep_inject:
  "c \<notin> set a \<Longrightarrow> c \<notin> set b \<Longrightarrow> a @ c # s = b @ c # t \<longleftrightarrow> a = b \<and> s = t"
proof (induction a arbitrary: b)
  case Nil
  then show ?case by (cases b) auto
next
  case (Cons x a)
  then show ?case by (cases b) auto
qed

lemma sep_not_in: "c \<notin> set a \<Longrightarrow> a \<noteq> b @ c # s"  "c \<notin> set a \<Longrightarrow> b @ c # s \<noteq> a"
  by auto

lemma str_cut_char_None: "str_cut [c] s = None \<longleftrightarrow> c \<notin> set s"
  by (induction s) (auto simp: prefix_Cons)

lemma str_cut_char_app: "c \<notin> set a \<Longrightarrow> str_cut [c] (a @ c # b) = Some (a, b)"
  by (induction a) auto

lemma str_split_char_none: "c \<notin> set s \<Longrightarrow> str_split [c] s = [s]"
  by (simp add: str_split.simps [of "[c]" s] str_cut_char_None [THEN iffD2])

lemma str_split_char_app: "c \<notin> set a \<Longrightarrow> str_split [c] (a @ c # b) = a # str_split [c] b"
  by (simp add: str_split.simps [of "[c]" "a @ c # b"] str_cut_char_app)

lemma str_split_char_parts: "x \<in> set (str_split [c] s) \<Longrightarrow> c \<notin> set x"
proof (induction "[c]" s rule: str_split.induct)
  case (1 s)
  show ?case
  proof (cases "str_cut [c] s")
    case None
    then have "c \<notin> set s" "str_split [c] s = [s]"
      by (simp_all add: str_cut_char_None str_split_char_none)
    with "1.prems" show ?thesis by simp
  next
    case (Some p)
    obtain a b where ab: "p = (a, b)" by (cases p)
    have "c \<notin> set a"
      using Some ab
    proof (induction s arbitrary: a p)
      case Nil
      then show ?case by simp
    next
      case (Cons d s)
      then show ?case by (auto split: if_splits simp: prefix_Cons)
    qed
    moreover have "str_split [c] s = a # str_split [c] b"
      using Some ab by (simp add: str_split.simps [of "[c]" s])
    ultimately show ?thesis using "1.hyps" [OF _ Some ab [symmetric]] "1.prems" by auto
  qed
qed

lemma str_split_join:
  assumes "\<And>x. x \<in> set xs \<Longrightarrow> c \<notin> set x" and "xs \<noteq> []"
  shows "str_split [c] (str_join [c] xs) = xs"
  using assms
proof (induction xs rule: induct_list012)
  case 1
  then show ?case by simp
next
  case (2 x)
  then show ?case by (simp add: str_split_char_none)
next
  case (3 x y zs)
  then show ?case by (simp add: str_split_char_app)
qed

lemma str_cut_first:
  "hd sep \<notin> set a \<Longrightarrow> sep \<noteq> [] \<Longrightarrow> str_cut sep (a @ sep @ b) = Some (a, b)"
proof (induction a)
  case Nil
  then show ?case by (cases sep) auto
next
  case (Cons c a)
  then show ?case by (cases sep) auto
qed

lemma str_cut_absent: "hd sep \<notin> set s \<Longrightarrow> sep \<noteq> [] \<Longrightarrow> str_cut sep s = None"
proof (induction s)
  case (Cons c s)
  then show ?case by (cases sep) auto
qed simp

lemma str_split_two:
  assumes "hd sep \<notin> set a" "hd sep \<notin> set b" "sep \<noteq> []"
  shows "str_split sep (a @ sep @ b) = [a, b]"
  using assms str_cut_first [of sep a b] str_cut_absent [of sep b]
  by (simp add: str_split.simps [of sep "a @ sep @ b"] str_split.simps [of sep b])

lemma str_rcut_app: "c \<notin> set b \<Longrightarrow> str_rcut c (a @ c # b) = Some (a, b)"
  by (simp add: str_rcut_def dropWhile_append takeWhile_append)

lemma str_rcut_SomeD: "str_rcut c s = Some (a, b) \<Longrightarrow> s = a @ c # b \<and> c \<notin> set b"
proof -
  assume h: "str_rcut c s = Some (a, b)"
  then have "c \<in> set s" by (simp add: str_rcut_def split: if_splits)
  then obtain xs ys where "s = xs @ c # ys" "c \<notin> set ys"
    by (auto dest: split_list_last)
  then show ?thesis using h str_rcut_app by fastforce
qed

section \<open>Integers and their decimal text\<close>

fun digits_nat :: "nat \<Rightarrow> string" where
  "digits_nat n =
     (if n < 10 then [digit_char n] else digits_nat (n div 10) @ [digit_char (n mod 10)])"

declare digits_nat.simps [simp del]

definition str_of_int :: "int \<Rightarrow> string" where
  \<comment> \<open>\<open>str(i)\<close>\<close>
  "str_of_int i = (if i < 0 then CHR ''-'' # digits_nat (nat (- i)) else digits_nat (nat i))"

fun nat_of_digits :: "nat \<Rightarrow> string \<Rightarrow> nat" where
  "nat_of_digits acc [] = acc"
| "nat_of_digits acc (c # s) = nat_of_digits (10 * acc + digit_val c) s"

text \<open>
  A run of decimal digits as \<open>int\<close> and \<open>float\<close> accept it: digits, with single
  underscores between digits.  The result is the text without the underscores.
\<close>

fun digit_run :: "string \<Rightarrow> string option" where
  "digit_run [] = None"
| "digit_run [c] = (if is_digit c then Some [c] else None)"
| "digit_run (c # d # s) =
     (if \<not> is_digit c then None
      else map_option ((#) c) (digit_run (if d = CHR ''_'' then s else d # s)))"

definition split_sign :: "string \<Rightarrow> bool \<times> string" where
  \<comment> \<open>an optional sign: whether it is a minus, and the rest\<close>
  "split_sign s =
     (case s of [] \<Rightarrow> (False, [])
      | c # t \<Rightarrow> if c = CHR ''-'' then (True, t) else if c = CHR ''+'' then (False, t) else (False, s))"

definition parse_int :: "string \<Rightarrow> int result" where
  \<comment> \<open>\<open>int(s)\<close> on a string\<close>
  "parse_int s =
     (case split_sign (str_strip s) of (neg, t) \<Rightarrow>
        (case digit_run t of
           None \<Rightarrow> Inl ValueError
         | Some ds \<Rightarrow> Inr (if neg then - int (nat_of_digits 0 ds) else int (nat_of_digits 0 ds))))"

lemma nat_of_digits_append:
  "nat_of_digits acc (s @ t) = nat_of_digits (nat_of_digits acc s) t"
  by (induction s arbitrary: acc) auto

lemma digits_nat_digits: "c \<in> set (digits_nat n) \<Longrightarrow> is_digit c"
proof (induction n rule: digits_nat.induct)
  case (1 n)
  then show ?case by (cases "n < 10") (auto simp: digits_nat.simps [of n])
qed

lemma digits_nat_not_Nil [simp]: "digits_nat n \<noteq> []"
  by (subst digits_nat.simps) simp

lemma nat_of_digits_digits_nat: "nat_of_digits 0 (digits_nat n) = n"
proof (induction n rule: digits_nat.induct)
  case (1 n)
  then show ?case
    by (cases "n < 10") (simp_all add: digits_nat.simps [of n] nat_of_digits_append)
qed

lemma digit_run_digits:
  "s \<noteq> [] \<Longrightarrow> (\<And>c. c \<in> set s \<Longrightarrow> is_digit c) \<Longrightarrow> digit_run s = Some s"
proof (induction s rule: digit_run.induct)
  case (3 c d s)
  have "d \<noteq> CHR ''_''" using 3(3) [of d] by (auto simp: is_digit_def)
  with 3 show ?case by simp
qed auto

lemma digit_not_space: "is_digit c \<Longrightarrow> \<not> is_space c"
  by (auto simp: is_digit_def is_space_def Let_def)

lemma str_strip_ends:
  assumes "s \<noteq> []" "\<not> is_space (hd s)" "\<not> is_space (last s)"
  shows "str_strip s = s"
proof -
  have "dropWhile is_space s = s" using assms by (cases s) auto
  moreover have "dropWhile is_space (rev s) = rev s" using assms by (cases s rule: rev_cases) auto
  ultimately show ?thesis by (simp add: str_strip_def str_lstrip_def str_rstrip_def)
qed

theorem parse_int_str_of_int: "parse_int (str_of_int i) = Inr i"
proof -
  let ?ds = "digits_nat (nat \<bar>i\<bar>)"
  have dig: "\<And>c. c \<in> set ?ds \<Longrightarrow> is_digit c" by (rule digits_nat_digits)
  have lst: "\<not> is_space (last ?ds)" and hd: "is_digit (hd ?ds)"
    using dig [of "last ?ds"] dig [of "hd ?ds"] digit_not_space by auto
  have run: "digit_run ?ds = Some ?ds" using dig by (intro digit_run_digits) auto
  have sgn: "hd ?ds \<noteq> CHR ''-''" "hd ?ds \<noteq> CHR ''+''" using hd by (auto simp: is_digit_def)
  show ?thesis
  proof (cases "i < 0")
    case True
    then have s: "str_of_int i = CHR ''-'' # ?ds" by (simp add: str_of_int_def)
    have "str_strip (str_of_int i) = str_of_int i"
      unfolding s using lst by (intro str_strip_ends) (auto simp: is_space_def)
    with True s run show ?thesis
      by (simp add: parse_int_def split_sign_def nat_of_digits_digits_nat)
  next
    case False
    then have s: "str_of_int i = ?ds" by (simp add: str_of_int_def)
    have "str_strip ?ds = ?ds"
      using lst hd by (intro str_strip_ends) (auto simp: digit_not_space)
    moreover have "split_sign ?ds = (False, ?ds)"
      using sgn by (cases ?ds) (auto simp: split_sign_def)
    ultimately show ?thesis
      using False s run by (simp add: parse_int_def nat_of_digits_digits_nat)
  qed
qed

lemma str_of_int_no: "\<not> is_digit c \<Longrightarrow> c \<noteq> CHR ''-'' \<Longrightarrow> c \<notin> set (str_of_int i)"
  by (auto simp: str_of_int_def dest: digits_nat_digits)

lemma str_of_int_inject: "str_of_int i = str_of_int j \<longleftrightarrow> i = j"
  using parse_int_str_of_int by (metis Inr_inject)

section \<open>Texts that are read back\<close>

text \<open>
  A way of writing values as texts and a way of reading them that agree: different values have
  different texts.
\<close>

locale text_codec =
  fixes show_text :: "'a \<Rightarrow> string"
    and reads :: "string \<Rightarrow> 'a \<Rightarrow> bool"
    and writable :: "'a \<Rightarrow> bool"
  assumes reads_unique: "reads s x \<Longrightarrow> reads s y \<Longrightarrow> x = y"
    and reads_show: "writable x \<Longrightarrow> reads (show_text x) x"
begin

lemma show_inject: "writable x \<Longrightarrow> writable y \<Longrightarrow> show_text x = show_text y \<Longrightarrow> x = y"
  using reads_show reads_unique by metis

lemma show_distinct:
  assumes "distinct xs" "\<And>x. x \<in> set xs \<Longrightarrow> writable x"
  shows "distinct (map show_text xs)"
  using assms by (auto simp: distinct_map inj_on_def dest: show_inject)

end

interpretation int_text: text_codec str_of_int "\<lambda>s i. parse_int s = Inr i" "\<lambda>_. True"
  by unfold_locales (auto simp: parse_int_str_of_int)

section \<open>Regular expressions\<close>

text \<open>
  The patterns that the sources compile themselves are written as terms of this type and
  matched by derivatives.  \<open>rx_dollar\<close> is Python's \<open>$\<close> at the end of a pattern, which also
  matches before a final newline.
\<close>

datatype rx = REps | RNone | RCls "char \<Rightarrow> bool" | RSeq rx rx | RAlt rx rx | RStar rx

primrec rx_nullable :: "rx \<Rightarrow> bool" where
  "rx_nullable REps = True"
| "rx_nullable RNone = False"
| "rx_nullable (RCls p) = False"
| "rx_nullable (RSeq r s) = (rx_nullable r \<and> rx_nullable s)"
| "rx_nullable (RAlt r s) = (rx_nullable r \<or> rx_nullable s)"
| "rx_nullable (RStar r) = True"

primrec rx_deriv :: "char \<Rightarrow> rx \<Rightarrow> rx" where
  "rx_deriv c REps = RNone"
| "rx_deriv c RNone = RNone"
| "rx_deriv c (RCls p) = (if p c then REps else RNone)"
| "rx_deriv c (RSeq r s) =
     (if rx_nullable r then RAlt (RSeq (rx_deriv c r) s) (rx_deriv c s)
      else RSeq (rx_deriv c r) s)"
| "rx_deriv c (RAlt r s) = RAlt (rx_deriv c r) (rx_deriv c s)"
| "rx_deriv c (RStar r) = RSeq (rx_deriv c r) (RStar r)"

definition rx_match :: "rx \<Rightarrow> string \<Rightarrow> bool" where
  "rx_match r s = rx_nullable (fold rx_deriv s r)"

definition rx_chr :: "char \<Rightarrow> rx" where
  "rx_chr c = RCls (\<lambda>x. x = c)"

definition rx_opt :: "rx \<Rightarrow> rx" where
  "rx_opt r = RAlt REps r"

definition rx_plus :: "rx \<Rightarrow> rx" where
  "rx_plus r = RSeq r (RStar r)"

definition rx_dollar :: rx where
  "rx_dollar = rx_opt (rx_chr (CHR 0x0A))"

inductive rx_in :: "rx \<Rightarrow> string \<Rightarrow> bool" where
  eps: "rx_in REps []"
| cls: "p c \<Longrightarrow> rx_in (RCls p) [c]"
| seq: "rx_in r s \<Longrightarrow> rx_in q t \<Longrightarrow> rx_in (RSeq r q) (s @ t)"
| alt1: "rx_in r s \<Longrightarrow> rx_in (RAlt r q) s"
| alt2: "rx_in q s \<Longrightarrow> rx_in (RAlt r q) s"
| star0: "rx_in (RStar r) []"
| star1: "rx_in r (c # s) \<Longrightarrow> rx_in (RStar r) t \<Longrightarrow> rx_in (RStar r) (c # s @ t)"

inductive_simps rx_in_simps:
  "rx_in REps s" "rx_in RNone s" "rx_in (RCls p) s" "rx_in (RSeq r q) s" "rx_in (RAlt r q) s"

inductive_cases rx_in_star: "rx_in (RStar r) (c # s)"

lemma rx_nullable_in: "rx_nullable r \<longleftrightarrow> rx_in r []"
  by (induction r) (auto simp: rx_in_simps intro: rx_in.intros)

lemma rx_deriv_in: "rx_in (rx_deriv c r) s \<longleftrightarrow> rx_in r (c # s)"
proof (induction r arbitrary: s)
  case (RSeq r q)
  have "rx_in (RSeq r q) (c # s) \<longleftrightarrow>
      (\<exists>u t. s = u @ t \<and> rx_in r (c # u) \<and> rx_in q t) \<or> rx_in r [] \<and> rx_in q (c # s)"
    by (auto simp: rx_in_simps Cons_eq_append_conv)
  then show ?case
    using RSeq by (auto simp: rx_in_simps rx_nullable_in)
next
  case (RStar r)
  show ?case
    using RStar by (auto simp: rx_in_simps intro: rx_in.star1 elim!: rx_in_star)
qed (auto simp: rx_in_simps)

theorem rx_match_in: "rx_match r s \<longleftrightarrow> rx_in r s"
  unfolding rx_match_def
  by (induction s arbitrary: r) (auto simp: rx_nullable_in rx_deriv_in)

end
