(* ===== verification/PyValue.thy ===== *)
theory PyValue
  imports Complex_Main PyString
begin

text \<open>
  Python values as the sources pass them between the configuration, the stored documents and
  the work items of the task queue: \<open>None\<close>, booleans, integers, floats, strings, bytes, lists,
  tuples and dictionaries with string keys; truth value, equality, \<open>float\<close> and \<open>int\<close>.

  A float is a double: \<open>FFin\<close> carries its exact rational value and \<open>round_double\<close> rounds to
  the nearest double, ties to even.  The sign of zero is not kept.
\<close>

section \<open>Floats\<close>

datatype pyfloat = FNan | FInf bool \<comment> \<open>negative?\<close> | FFin rat

fun bit_len :: "nat \<Rightarrow> nat" where
  "bit_len n = (if n = 0 then 0 else Suc (bit_len (n div 2)))"

declare bit_len.simps [simp del]

definition pow2 :: "int \<Rightarrow> rat" where
  "pow2 k = (if 0 \<le> k then 2 ^ nat k else 1 / 2 ^ nat (- k))"

definition round_half_even :: "rat \<Rightarrow> int" where
  "round_half_even q =
     (let f = \<lfloor>q\<rfloor>; r = q - of_int f
      in if r < 1 / 2 then f else if 1 / 2 < r then f + 1 else if even f then f else f + 1)"

definition ilog2 :: "rat \<Rightarrow> int" where
  \<comment> \<open>the exponent \<open>e\<close> with \<open>2^e \<le> q < 2^(e+1)\<close>, for positive \<open>q\<close>\<close>
  "ilog2 q =
     (case quotient_of q of (n, d) \<Rightarrow>
        (let e = int (bit_len (nat n)) - int (bit_len (nat d)) in if pow2 e \<le> q then e else e - 1))"

definition round_pos :: "rat \<Rightarrow> rat" where
  "round_pos q =
     (let k = max (ilog2 q - 52) (-1074) in of_int (round_half_even (q / pow2 k)) * pow2 k)"

definition round_double :: "rat \<Rightarrow> pyfloat" where
  "round_double q =
     (if q = 0 then FFin 0
      else (let a = round_pos \<bar>q\<bar>
            in if 2 ^ 1024 \<le> a then FInf (q < 0) else FFin (if q < 0 then - a else a)))"

text \<open>
  The text \<open>float(s)\<close> accepts: white space around an optional sign and a decimal number with
  an optional exponent, or a name of infinity or not-a-number.
\<close>

fun span_digits :: "string \<Rightarrow> string \<times> string" where
  \<comment> \<open>the longest prefix of digits and underscores\<close>
  "span_digits [] = ([], [])"
| "span_digits (c # s) =
     (if is_digit c \<or> c = CHR ''_'' then (case span_digits s of (a, b) \<Rightarrow> (c # a, b))
      else ([], c # s))"

definition opt_digits :: "string \<Rightarrow> string option" where
  \<comment> \<open>no digits at all, or a run of digits\<close>
  "opt_digits s = (if s = [] then Some [] else digit_run s)"

definition parse_exponent :: "string \<Rightarrow> int option" where
  "parse_exponent s =
     (case s of [] \<Rightarrow> Some 0
      | c # t \<Rightarrow>
          if lower_char c = CHR ''e'' then
            (case split_sign t of (neg, u) \<Rightarrow>
               map_option (\<lambda>ds. let n = int (nat_of_digits 0 ds) in if neg then - n else n) (digit_run u))
          else None)"

definition parse_decimal :: "string \<Rightarrow> rat option" where
  "parse_decimal s =
     (case span_digits s of (ip, r) \<Rightarrow>
      (case (case r of [] \<Rightarrow> ([], []) | c # t \<Rightarrow> if c = CHR ''.'' then span_digits t else ([], r)) of
        (fp, r') \<Rightarrow>
          (case (opt_digits ip, opt_digits fp, parse_exponent r') of
             (Some a, Some b, Some e) \<Rightarrow>
               if a = [] \<and> b = [] then None
               else Some (rat_of_nat (nat_of_digits 0 (a @ b))
                            * (let k = e - int (length b)
                               in if 0 \<le> k then 10 ^ nat k else 1 / 10 ^ nat (- k)))
           | _ \<Rightarrow> None)))"

definition parse_float :: "string \<Rightarrow> pyfloat result" where
  \<comment> \<open>\<open>float(s)\<close> on a string\<close>
  "parse_float s =
     (case split_sign (str_strip s) of (neg, t) \<Rightarrow>
        (let l = str_lower t in
         if l = ''inf'' \<or> l = ''infinity'' then Inr (FInf neg)
         else if l = ''nan'' then Inr FNan
         else (case parse_decimal t of
                 None \<Rightarrow> Inl ValueError
               | Some q \<Rightarrow> Inr (round_double (if neg then - q else q)))))"

definition trunc_rat :: "rat \<Rightarrow> int" where
  "trunc_rat q = (if q < 0 then - \<lfloor>- q\<rfloor> else \<lfloor>q\<rfloor>)"

definition float_to_int :: "pyfloat \<Rightarrow> int result" where
  \<comment> \<open>\<open>int(f)\<close>\<close>
  "float_to_int f =
     (case f of FNan \<Rightarrow> Inl ValueError | FInf _ \<Rightarrow> Inl OverflowError | FFin q \<Rightarrow> Inr (trunc_rat q))"

section \<open>Values\<close>

datatype pyval =
    PNone | PBool bool | PInt int | PFloat pyfloat | PStr string | PBytes string
  | PList "pyval list" | PTuple "pyval list" | PDict "(string \<times> pyval) list"

definition py_truthy :: "pyval \<Rightarrow> bool" where
  \<comment> \<open>\<open>bool(v)\<close>\<close>
  "py_truthy v =
     (case v of PNone \<Rightarrow> False | PBool b \<Rightarrow> b | PInt i \<Rightarrow> i \<noteq> 0
      | PFloat f \<Rightarrow> f \<noteq> FFin 0 | PStr s \<Rightarrow> s \<noteq> [] | PBytes s \<Rightarrow> s \<noteq> []
      | PList xs \<Rightarrow> xs \<noteq> [] | PTuple xs \<Rightarrow> xs \<noteq> [] | PDict d \<Rightarrow> d \<noteq> [])"

definition num_val :: "pyval \<Rightarrow> pyfloat option" where
  \<comment> \<open>the numeric value used by \<open>==\<close>; integers compare exactly\<close>
  "num_val v =
     (case v of PBool b \<Rightarrow> Some (FFin (if b then 1 else 0)) | PInt i \<Rightarrow> Some (FFin (of_int i))
      | PFloat f \<Rightarrow> Some f | _ \<Rightarrow> None)"

lemma size_list_mem: "x \<in> set xs \<Longrightarrow> f x \<le> size_list f xs"
  by (induction xs) auto

function py_eq :: "pyval \<Rightarrow> pyval \<Rightarrow> bool" where
  \<comment> \<open>\<open>v == w\<close>: numbers by value, containers element by element, dictionaries in any order\<close>
  "py_eq v w =
     (case (v, w) of
        (PNone, PNone) \<Rightarrow> True
      | (PStr s, PStr t) \<Rightarrow> s = t
      | (PBytes s, PBytes t) \<Rightarrow> s = t
      | (PList xs, PList ys) \<Rightarrow>
          length xs = length ys \<and> (\<forall>(x, y) \<in> set (zip xs ys). py_eq x y)
      | (PTuple xs, PTuple ys) \<Rightarrow>
          length xs = length ys \<and> (\<forall>(x, y) \<in> set (zip xs ys). py_eq x y)
      | (PDict d, PDict e) \<Rightarrow>
          length d = length e \<and>
          (\<forall>(k, x) \<in> set d. case map_of e k of None \<Rightarrow> False | Some y \<Rightarrow> py_eq x y)
      | _ \<Rightarrow> (case (num_val v, num_val w) of
                 (Some a, Some b) \<Rightarrow> a \<noteq> FNan \<and> a = b
               | _ \<Rightarrow> False))"
  by pat_completeness auto
termination
proof (relation "measure (\<lambda>(v, w). size v)", goal_cases)
  case 1
  show ?case by simp
next
  case (2 v w v' w' xs ys z x y)
  then have "x \<in> set xs" by (auto dest: set_zip_leftD)
  with 2 show ?case by (auto dest: size_list_mem [where f = size] simp: less_Suc_eq_le)
next
  case (3 v w v' w' xs ys z x y)
  then have "x \<in> set xs" by (auto dest: set_zip_leftD)
  with 3 show ?case by (auto dest: size_list_mem [where f = size] simp: less_Suc_eq_le)
next
  case (4 v w v' w' d e z k x y)
  then show ?case
    by (auto simp: less_Suc_eq_le dest: size_list_mem [where f = "size_prod (\<lambda>x. 0) size"])
qed

declare py_eq.simps [simp del]

lemma py_eq_simps [simp]:
  "py_eq PNone PNone"
  "py_eq (PStr s) (PStr t) \<longleftrightarrow> s = t"
  "py_eq (PInt i) (PInt j) \<longleftrightarrow> i = j"
  "py_eq (PBool a) (PBool b) \<longleftrightarrow> a = b"
  "\<not> py_eq PNone (PStr t)" "\<not> py_eq (PStr s) PNone"
  "\<not> py_eq PNone (PInt i)" "\<not> py_eq (PInt i) PNone"
  "py_eq (PFloat f) (PFloat g) \<longleftrightarrow> f \<noteq> FNan \<and> f = g"
  by (simp_all add: py_eq.simps num_val_def)

lemma py_eq_dict:
  "py_eq (PDict d) (PDict e) \<longleftrightarrow>
     length d = length e \<and>
     (\<forall>(k, x) \<in> set d. case map_of e k of None \<Rightarrow> False | Some y \<Rightarrow> py_eq x y)"
  by (simp add: py_eq.simps)

text \<open>A value that contains no not-a-number and no repeated key equals itself.\<close>

fun py_plain :: "pyval \<Rightarrow> bool" where
  "py_plain (PFloat f) = (f \<noteq> FNan)"
| "py_plain (PList xs) = (\<forall>x \<in> set xs. py_plain x)"
| "py_plain (PTuple xs) = (\<forall>x \<in> set xs. py_plain x)"
| "py_plain (PDict d) = (dict_wf d \<and> (\<forall>x \<in> snd ` set d. py_plain x))"
| "py_plain _ = True"

lemma py_eq_refl: "py_plain v \<Longrightarrow> py_eq v v"
proof (induction v rule: py_plain.induct)
  case (4 d)
  then show ?case
    by (fastforce simp: py_eq_dict dict_wf_def)
qed (auto simp: py_eq.simps num_val_def zip_same_conv_map)

section \<open>Conversions and access\<close>

definition py_float :: "pyval \<Rightarrow> pyfloat result" where
  \<comment> \<open>\<open>float(v)\<close>\<close>
  "py_float v =
     (case v of
        PBool b \<Rightarrow> Inr (FFin (if b then 1 else 0))
      | PInt i \<Rightarrow> (case round_double (of_int i) of FInf _ \<Rightarrow> Inl OverflowError | f \<Rightarrow> Inr f)
      | PFloat f \<Rightarrow> Inr f
      | PStr s \<Rightarrow> parse_float s
      | PBytes s \<Rightarrow> parse_float s
      | _ \<Rightarrow> Inl TypeError)"

definition py_int :: "pyval \<Rightarrow> int result" where
  \<comment> \<open>\<open>int(v)\<close>\<close>
  "py_int v =
     (case v of
        PBool b \<Rightarrow> Inr (if b then 1 else 0)
      | PInt i \<Rightarrow> Inr i
      | PFloat f \<Rightarrow> float_to_int f
      | PStr s \<Rightarrow> parse_int s
      | PBytes s \<Rightarrow> parse_int s
      | _ \<Rightarrow> Inl TypeError)"

definition py_get :: "pyval \<Rightarrow> string \<Rightarrow> pyval \<Rightarrow> pyval result" where
  \<comment> \<open>\<open>v.get(k, default)\<close>\<close>
  "py_get v k dflt =
     (case v of PDict d \<Rightarrow> Inr (dict_get_or d k dflt) | _ \<Rightarrow> Inl AttributeError)"

definition py_item :: "pyval \<Rightarrow> string \<Rightarrow> pyval result" where
  \<comment> \<open>\<open>v[k]\<close> with a string index\<close>
  "py_item v k = (case v of PDict d \<Rightarrow> dict_item d k | _ \<Rightarrow> Inl TypeError)"

definition py_in :: "string \<Rightarrow> pyval \<Rightarrow> bool result" where
  \<comment> \<open>\<open>k in v\<close> for a string \<open>k\<close>\<close>
  "py_in k v =
     (case v of
        PDict d \<Rightarrow> Inr (dict_has d k)
      | PStr s \<Rightarrow> Inr (str_contains s k)
      | PList xs \<Rightarrow> Inr (\<exists>x \<in> set xs. py_eq x (PStr k))
      | PTuple xs \<Rightarrow> Inr (\<exists>x \<in> set xs. py_eq x (PStr k))
      | _ \<Rightarrow> Inl TypeError)"

lemma py_get_simps [simp]:
  "py_get (PDict d) k v = Inr (dict_get_or d k v)"
  "py_item (PDict d) k = dict_item d k"
  "py_in k (PDict d) = Inr (dict_has d k)"
  by (simp_all add: py_get_def py_item_def py_in_def)

definition py_str :: "pyval \<Rightarrow> string result" where
  \<comment> \<open>\<open>str(v)\<close>\<close>
  "py_str v =
     (case v of
        PStr s \<Rightarrow> Inr s
      | PNone \<Rightarrow> Inr ''None''
      | PBool b \<Rightarrow> Inr (if b then ''True'' else ''False'')
      | PInt i \<Rightarrow> Inr (str_of_int i)
      | _ \<Rightarrow> Inl OtherError \<comment> \<open>the text of floats and containers is not modelled\<close>)"

definition py_iter :: "pyval \<Rightarrow> pyval list result" where
  \<comment> \<open>\<open>for x in v\<close>\<close>
  "py_iter v =
     (case v of
        PList xs \<Rightarrow> Inr xs | PTuple xs \<Rightarrow> Inr xs
      | PDict d \<Rightarrow> Inr (map (\<lambda>kv. PStr (fst kv)) d)
      | PStr s \<Rightarrow> Inr (map (\<lambda>c. PStr [c]) s)
      | PBytes s \<Rightarrow> Inr (map (\<lambda>c. PInt (int (of_char c))) s)
      | _ \<Rightarrow> Inl TypeError)"

end
