(* ===== verification/Varbinds.thy ===== *)
theory Varbinds
  imports PyValue
begin

text \<open>
  The polling plan of a device: \<^verbatim>\<open>splunk_connect_for_snmp/snmp/varbinds_resolver.py\<close>.  A
  profile lists varbinds; they are divided into those fetched by GETBULK walks and those
  fetched by GET, without requesting an object twice, and the profiles due at the same
  interval are joined.

  A \<open>Varbind\<close> is its list of elements: the arguments of the pysnmp \<open>ObjectIdentity\<close> it
  builds.  A container is the dictionary \<open>self.map\<close> from mapping keys to varbinds.
\<close>

section \<open>Varbinds and containers\<close>

datatype vbelem = VStr string | VInt int

type_synonym varbind = "vbelem list"
type_synonym container = "(vbelem, varbind) dict"

definition vb_str :: "vbelem \<Rightarrow> string" where
  "vb_str x = (case x of VStr s \<Rightarrow> s | VInt i \<Rightarrow> str_of_int i)"

fun mapping_key :: "varbind \<Rightarrow> vbelem result" where
  "mapping_key [] = Inl IndexError"
| "mapping_key [a] = Inr a"
| "mapping_key [a, b] = Inr (VStr (vb_str a @ ''::'' @ vb_str b))"
| "mapping_key (a # b # rest) =
     Inr (VStr (vb_str a @ ''::'' @ vb_str b @ ''.'' @ str_join ''.'' (map vb_str rest)))"

definition insert_varbind :: "container \<Rightarrow> varbind \<Rightarrow> container result" where
  "insert_varbind m vb =
     (case mapping_key vb of
        Inl e \<Rightarrow> Inl e
      | Inr k \<Rightarrow>
          if dict_has m k then Inr m
          else if 1 < length vb \<and> dict_has m (hd vb) then Inr m
          else if 2 < length vb \<and>
                  (case mapping_key (take 2 vb) of Inl _ \<Rightarrow> False | Inr k2 \<Rightarrow> dict_has m k2)
          then Inr m
          else Inr (dict_set k vb m))"

fun insert_varbinds :: "container \<Rightarrow> varbind list \<Rightarrow> container result" where
  "insert_varbinds m [] = Inr m"
| "insert_varbinds m (vb # vbs) = res_bind (insert_varbind m vb) (\<lambda>m'. insert_varbinds m' vbs)"

definition return_varbind_keys :: "container \<Rightarrow> vbelem list" where
  "return_varbind_keys m = dict_keys m"

definition return_varbind_values :: "container \<Rightarrow> varbind list" where
  "return_varbind_values m = map snd m"

definition container_mib_families :: "container \<Rightarrow> vbelem list" where
  "container_mib_families m = map hd (return_varbind_values m)"

definition return_varbinds :: "container \<Rightarrow> varbind list result" where
  \<comment> \<open>each step extends a list by a \<open>Varbind\<close>, an object that cannot be iterated\<close>
  "return_varbinds m = res_fold (\<lambda>_ _. Inl TypeError) (dict_keys m) []"

lemma return_varbinds_raises: "return_varbinds m = (if m = [] then Inr [] else Inl TypeError)"
  by (cases m) (auto simp: return_varbinds_def dict_keys_def)

definition get_profile_mapping :: "container \<Rightarrow> string \<Rightarrow> (vbelem, string) dict" where
  "get_profile_mapping m name =
     fold (\<lambda>k d. dict_set k name d) (return_varbind_keys m) []"

definition are_parents_in_map :: "container \<Rightarrow> vbelem \<Rightarrow> bool result" where
  \<comment> \<open>unpacking the two parts of \<open>varbind.split("::")\<close> raises when there are not two\<close>
  "are_parents_in_map m k =
     (case k of
        VInt _ \<Rightarrow> Inl AttributeError
      | VStr s \<Rightarrow>
          (case str_split ''::'' s of
             [varbind_root, varbind_field] \<Rightarrow>
               (let fld = hd (str_split ''.'' varbind_field); current = return_varbind_keys m
                in Inr (VStr varbind_root \<in> set current \<or>
                        VStr (varbind_root @ ''::'' @ fld) \<in> set current))
           | _ \<Rightarrow> Inl ValueError))"

definition vb_len :: "vbelem \<Rightarrow> nat" where
  "vb_len k = (case k of VStr s \<Rightarrow> length s | VInt _ \<Rightarrow> 0)"

definition is_vstr :: "vbelem \<Rightarrow> bool" where
  "is_vstr k = (case k of VStr _ \<Rightarrow> True | VInt _ \<Rightarrow> False)"

definition container_add :: "container \<Rightarrow> container \<Rightarrow> container result" where
  \<comment> \<open>\<open>__add__\<close>: the shorter keys first; \<open>len\<close> of an integer key raises\<close>
  "container_add m1 m2 =
     (let joined = dict_update (dict_update [] m1) m2; keys = dict_keys joined
      in if \<not> list_all is_vstr keys then Inl TypeError
         else res_bind (res_list (dict_item joined) (sort_key vb_len keys)) (insert_varbinds []))"

section \<open>What a container asks for\<close>

text \<open>
  An object instance is a MIB module, a symbol and an index text.  A varbind of one element
  asks for every instance of a module, one of two elements for every instance of a symbol, a
  longer one for a single instance.  The scope of a container is what its varbinds ask for.
\<close>

type_synonym instance_id = "string \<times> string \<times> string"

fun covers :: "varbind \<Rightarrow> instance_id set" where
  "covers [] = {}"
| "covers [a] = {(m, s, i). m = vb_str a}"
| "covers [a, b] = {(m, s, i). m = vb_str a \<and> s = vb_str b}"
| "covers (a # b # rest) = {(vb_str a, vb_str b, str_join ''.'' (map vb_str rest))}"

definition scope :: "container \<Rightarrow> instance_id set" where
  "scope m = (\<Union>vb \<in> set (return_varbind_values m). covers vb)"

text \<open>
  Names of modules and symbols as SMI has them: no colon in the first element, no full stop
  in the second.
\<close>

fun clean_varbind :: "varbind \<Rightarrow> bool" where
  "clean_varbind [] = False"
| "clean_varbind [a] = (CHR '':'' \<notin> set (vb_str a))"
| "clean_varbind (a # b # rest) =
     (CHR '':'' \<notin> set (vb_str a) \<and> CHR ''.'' \<notin> set (vb_str b))"

definition container_wf :: "container \<Rightarrow> bool" where
  "container_wf m \<longleftrightarrow>
     dict_wf m \<and> (\<forall>(k, vb) \<in> set m. mapping_key vb = Inr k \<and> clean_varbind vb)"

text \<open>No varbind of the container lies below another one of it.\<close>

definition below_other :: "container \<Rightarrow> varbind \<Rightarrow> bool" where
  "below_other m vb \<longleftrightarrow>
     1 < length vb \<and> dict_has m (hd vb) \<or>
     2 < length vb \<and> (case mapping_key (take 2 vb) of Inl _ \<Rightarrow> False | Inr k \<Rightarrow> dict_has m k)"

definition irredundant :: "container \<Rightarrow> bool" where
  "irredundant m \<longleftrightarrow> (\<forall>(k, vb) \<in> set m. \<not> below_other m vb)"

lemma container_wf_empty [simp]: "container_wf []"
  by (simp add: container_wf_def)

lemma scope_empty [simp]: "scope [] = {}"
  by (simp add: scope_def return_varbind_values_def)

lemma scope_alt: "scope m = (\<Union>(k, vb) \<in> set m. covers vb)"
  by (auto simp: scope_def return_varbind_values_def)

lemma scope_has: "dict_has m k \<Longrightarrow> container_wf m \<Longrightarrow>
    \<exists>vb. (k, vb) \<in> set m \<and> mapping_key vb = Inr k \<and> clean_varbind vb \<and> covers vb \<subseteq> scope m"
  unfolding dict_has_def container_wf_def scope_alt
  by (force dest: dict_get_SomeD)

lemma mapping_key_ok: "vb \<noteq> [] \<Longrightarrow> \<exists>k. mapping_key vb = Inr k"
  by (cases vb rule: mapping_key.cases) auto

lemma insert_varbind_cases:
  assumes "mapping_key vb = Inr k"
  shows "insert_varbind m vb =
    Inr (if dict_has m k \<or> below_other m vb then m else dict_set k vb m)"
  using assms by (auto simp: insert_varbind_def below_other_def split: sum.splits)

section \<open>Inserting keeps the scope\<close>

text \<open>Two clean varbinds with the same key ask for the same instances.\<close>

lemma same_key_covers:
  assumes "mapping_key v = Inr k" "mapping_key w = Inr k" "clean_varbind v" "clean_varbind w"
  shows "covers v = covers w"
  using assms
  by (cases v rule: mapping_key.cases; cases w rule: mapping_key.cases)
     (auto simp: vb_str_def [of "VStr _"] append_sep_inject sep_not_in)

lemma below_other_covers:
  assumes "container_wf m" "clean_varbind vb" "below_other m vb"
  shows "covers vb \<subseteq> scope m"
proof -
  from assms(3) consider "1 < length vb" "dict_has m (hd vb)"
    | k where "2 < length vb" "mapping_key (take 2 vb) = Inr k" "dict_has m k"
    by (auto simp: below_other_def split: sum.splits)
  then show ?thesis
  proof cases
    case 1
    obtain w where w: "mapping_key w = Inr (hd vb)" "clean_varbind w" "covers w \<subseteq> scope m"
      using scope_has [OF 1(2) assms(1)] by blast
    from 1(1) w assms(2) have "covers vb \<subseteq> covers w"
      by (cases vb rule: covers.cases; cases w rule: covers.cases)
         (auto simp: vb_str_def [of "VStr _"])
    with w show ?thesis by blast
  next
    case 2
    obtain w where w: "mapping_key w = Inr k" "clean_varbind w" "covers w \<subseteq> scope m"
      using scope_has [OF 2(3) assms(1)] by blast
    have "clean_varbind (take 2 vb)" using assms(2) 2(1) by (cases vb rule: covers.cases) auto
    then have "covers (take 2 vb) = covers w" using same_key_covers 2(2) w by blast
    moreover have "covers vb \<subseteq> covers (take 2 vb)" by (cases vb rule: covers.cases) auto
    ultimately show ?thesis using w by blast
  qed
qed

lemma container_wf_set:
  assumes "container_wf m" "mapping_key vb = Inr k" "clean_varbind vb" "\<not> dict_has m k"
  shows "container_wf (dict_set k vb m)" and "scope (dict_set k vb m) = scope m \<union> covers vb"
    and "set (dict_set k vb m) = insert (k, vb) (set m)"
proof -
  have eq: "dict_set k vb m = m @ [(k, vb)]"
    using assms(4) by (simp add: dict_has_def dict_set_append)
  then show "set (dict_set k vb m) = insert (k, vb) (set m)" by simp
  show "scope (dict_set k vb m) = scope m \<union> covers vb" by (auto simp: eq scope_alt)
  have "dict_wf (dict_set k vb m)" using assms(1) by (simp add: container_wf_def)
  then show "container_wf (dict_set k vb m)" using assms eq by (auto simp: container_wf_def)
qed

text \<open>Inserting a clean varbind never loses or adds anything to what is asked for.\<close>

lemma insert_varbind_scope:
  assumes "container_wf m" "clean_varbind vb"
  shows "\<exists>m'. insert_varbind m vb = Inr m' \<and> container_wf m' \<and> scope m' = scope m \<union> covers vb
              \<and> dict_keys m' \<in> {dict_keys m, dict_keys m @ [projr (mapping_key vb)]}"
proof -
  obtain k where k: "mapping_key vb = Inr k"
    using mapping_key_ok [of vb] assms(2) by (cases vb) auto
  show ?thesis
  proof (cases "dict_has m k \<or> below_other m vb")
    case True
    have "covers vb \<subseteq> scope m"
    proof (cases "dict_has m k")
      case True
      then obtain w where "mapping_key w = Inr k" "clean_varbind w" "covers w \<subseteq> scope m"
        using scope_has [OF _ assms(1)] by blast
      then show ?thesis using same_key_covers [OF k _ assms(2)] by blast
    next
      case False
      with True show ?thesis using below_other_covers assms by blast
    qed
    with True show ?thesis using k assms by (auto simp: insert_varbind_cases)
  next
    case False
    then show ?thesis
      using k assms container_wf_set [OF assms(1) k assms(2)]
      by (simp add: insert_varbind_cases dict_keys_set_eq dict_has_iff)
  qed
qed

lemma insert_varbinds_scope:
  assumes "container_wf m" "\<And>vb. vb \<in> set vbs \<Longrightarrow> clean_varbind vb"
  shows "\<exists>m'. insert_varbinds m vbs = Inr m' \<and> container_wf m'
              \<and> scope m' = scope m \<union> (\<Union>vb \<in> set vbs. covers vb)"
  using assms
proof (induction vbs arbitrary: m)
  case Nil
  then show ?case by simp
next
  case (Cons vb vbs)
  obtain m1 where m1: "insert_varbind m vb = Inr m1" "container_wf m1" "scope m1 = scope m \<union> covers vb"
    using insert_varbind_scope [of m vb] Cons.prems by auto
  then show ?case using Cons.IH [OF m1(2)] Cons.prems(2) by (auto simp: Un_assoc)
qed

lemma insert_varbinds_values:
  "insert_varbinds m vbs = Inr m' \<Longrightarrow> snd ` set m' \<subseteq> snd ` set m \<union> set vbs"
proof (induction vbs arbitrary: m)
  case Nil
  then show ?case by simp
next
  case (Cons vb vbs)
  obtain m1 where m1: "insert_varbind m vb = Inr m1" "insert_varbinds m1 vbs = Inr m'"
    using Cons.prems by (auto simp: res_splits)
  have "snd ` set m1 \<subseteq> insert vb (snd ` set m)"
    using m1(1) dict_set_append [of m _ vb]
    by (force simp: insert_varbind_def dict_has_def split: sum.splits if_splits)
  moreover have "snd ` set m' \<subseteq> snd ` set m1 \<union> set vbs" by (rule Cons.IH [OF m1(2)])
  moreover have "C \<subseteq> B \<union> insert x V" if "A \<subseteq> insert x B" "C \<subseteq> A \<union> V" for A B C V and x :: varbind
    using that by blast
  ultimately show ?case by simp
qed

section \<open>Nothing is asked for twice\<close>

text \<open>
  A varbind can only be put below a later one when it is longer.  The measure is any function
  that grows from a varbind to what lies below it: the number of elements in
  \<open>divide_on_bulk_and_get\<close>, the length of the key in \<open>__add__\<close>.
\<close>

definition parent_keys :: "varbind \<Rightarrow> vbelem set" where
  "parent_keys vb =
     {k. 1 < length vb \<and> k = hd vb \<or> 2 < length vb \<and> mapping_key (take 2 vb) = Inr k}"

lemma below_other_parent: "below_other m vb \<longleftrightarrow> (\<exists>k \<in> parent_keys vb. dict_has m k)"
  by (auto simp: below_other_def parent_keys_def split: sum.splits)

lemma insert_irredundant:
  assumes "irredundant m" "mapping_key vb = Inr k"
    and new: "k \<notin> parent_keys vb" "\<And>j w. (j, w) \<in> set m \<Longrightarrow> k \<notin> parent_keys w"
    and "insert_varbind m vb = Inr m'"
  shows "irredundant m'"
proof (cases "dict_has m k \<or> below_other m vb")
  case True
  then show ?thesis using assms by (simp add: insert_varbind_cases)
next
  case False
  then have m': "m' = m @ [(k, vb)]" using assms
    by (simp add: insert_varbind_cases dict_has_def dict_set_append)
  have has: "dict_has m' j \<longleftrightarrow> dict_has m j \<or> j = k" for j
    by (auto simp: m' dict_has_iff dict_keys_def)
  have "\<not> below_other m' w" if "(j, w) \<in> set m'" for j w
    using that assms(1) new False
    by (auto simp: m' irredundant_def below_other_parent has [unfolded m'])
  then show ?thesis by (auto simp: irredundant_def)
qed

lemma insert_varbinds_irredundant:
  fixes f :: "varbind \<Rightarrow> nat"
  assumes "container_wf m" "irredundant m" "\<And>vb. vb \<in> set vbs \<Longrightarrow> clean_varbind vb"
    and mono: "\<And>v w k. clean_varbind v \<Longrightarrow> clean_varbind w \<Longrightarrow> mapping_key v = Inr k \<Longrightarrow>
                 k \<in> parent_keys w \<Longrightarrow> f v < f w"
    and "sorted (map f vbs)" "\<And>j w v. (j, w) \<in> set m \<Longrightarrow> v \<in> set vbs \<Longrightarrow> f w \<le> f v"
    and "insert_varbinds m vbs = Inr m'"
  shows "irredundant m'"
  using assms(1,2,3,5,6,7)
proof (induction vbs arbitrary: m)
  case Nil
  then show ?case by simp
next
  case (Cons vb vbs)
  have cl: "clean_varbind vb" using Cons.prems(3) by simp
  obtain k where k: "mapping_key vb = Inr k"
    using mapping_key_ok [of vb] cl by (cases vb) auto
  obtain m1 where m1: "insert_varbind m vb = Inr m1" "container_wf m1"
    using insert_varbind_scope [OF Cons.prems(1) cl] by blast
  have sub: "set m1 \<subseteq> insert (k, vb) (set m)"
    using m1(1) k dict_set_append [of m k vb]
    by (auto simp: insert_varbind_cases dict_has_def split: if_splits)
  have "irredundant m1"
  proof (rule insert_irredundant [OF Cons.prems(2) k _ _ m1(1)])
    show "k \<notin> parent_keys vb" using mono [OF cl cl k] by blast
  next
    fix j w
    assume jw: "(j, w) \<in> set m"
    then have "clean_varbind w" using Cons.prems(1) by (auto simp: container_wf_def)
    then show "k \<notin> parent_keys w"
      using mono [OF cl _ k] Cons.prems(5) [OF jw, of vb] by fastforce
  qed
  moreover have "f w \<le> f v" if "(j, w) \<in> set m1" "v \<in> set vbs" for j w v
    using that sub Cons.prems(4,5) by auto
  ultimately show ?case
    using Cons.IH [OF m1(2)] Cons.prems m1(1) by auto
qed

lemma parent_key_shorter:
  "mapping_key w = Inr j \<Longrightarrow> p \<in> parent_keys w \<Longrightarrow> vb_len p < vb_len j"
  by (cases w rule: mapping_key.cases) (auto simp: parent_keys_def vb_len_def vb_str_def split: vbelem.splits)

lemma parent_has_fewer:
  assumes "clean_varbind v" "clean_varbind w" "mapping_key v = Inr k" "k \<in> parent_keys w"
  shows "length v < length w"
  using assms
  by (cases v rule: mapping_key.cases; cases w rule: covers.cases)
     (auto simp: parent_keys_def vb_str_def [of "VStr _"] append_sep_inject sep_not_in)

section \<open>Joining containers\<close>

lemma container_wf_joined:
  assumes "container_wf m1" "container_wf m2"
  shows "container_wf (dict_update m1 m2)"
    and "dict_get (dict_update m1 m2) k = (case dict_get m2 k of None \<Rightarrow> dict_get m1 k | Some v \<Rightarrow> Some v)"
proof -
  have rev: "dict_get (rev m2) k = dict_get m2 k" for k
    using assms(2) by (simp add: container_wf_def dict_get_rev)
  then show get: "dict_get (dict_update m1 m2) k =
      (case dict_get m2 k of None \<Rightarrow> dict_get m1 k | Some v \<Rightarrow> Some v)"
    by (simp add: dict_get_update)
  have "dict_wf (dict_update m1 m2)" using assms(1) by (auto simp: container_wf_def)
  moreover have "mapping_key vb = Inr j \<and> clean_varbind vb"
    if "(j, vb) \<in> set (dict_update m1 m2)" for j vb
  proof -
    have "dict_get (dict_update m1 m2) j = Some vb"
      using that \<open>dict_wf _\<close> by (simp add: dict_get_Some_iff)
    then have "dict_get m1 j = Some vb \<or> dict_get m2 j = Some vb"
      by (auto simp: dict_get_update rev split: option.splits)
    then show ?thesis
      using assms by (auto simp: container_wf_def dest!: dict_get_SomeD)
  qed
  ultimately show "container_wf (dict_update m1 m2)" by (auto simp: container_wf_def)
qed

lemma container_wf_get:
  "container_wf m \<Longrightarrow> dict_get m k = Some v \<Longrightarrow> mapping_key v = Inr k \<and> clean_varbind v"
  by (auto simp: container_wf_def dest!: dict_get_SomeD)

lemma scope_get:
  "container_wf m \<Longrightarrow> scope m = {x. \<exists>k v. dict_get m k = Some v \<and> x \<in> covers v}"
  by (fastforce simp: scope_alt container_wf_def dict_get_Some_iff)

lemma scope_joined:
  assumes "container_wf m1" "container_wf m2"
  shows "scope (dict_update m1 m2) = scope m1 \<union> scope m2"
proof -
  note get = container_wf_joined(2) [OF assms]
  have "x \<in> scope (dict_update m1 m2)" if "dict_get m1 k = Some v" "x \<in> covers v" for x k v
  proof (cases "dict_get m2 k")
    case None
    then show ?thesis using that container_wf_joined(1) [OF assms]
      by (auto simp: scope_get get intro!: exI [of _ k] exI [of _ v])
  next
    case (Some w)
    then have "covers w = covers v"
      using same_key_covers container_wf_get assms that(1) by blast
    with Some that show ?thesis using container_wf_joined(1) [OF assms]
      by (auto simp: scope_get get intro!: exI [of _ k] exI [of _ w])
  qed
  moreover have "x \<in> scope (dict_update m1 m2)" if "dict_get m2 k = Some v" "x \<in> covers v" for x k v
    using that container_wf_joined(1) [OF assms]
    by (auto simp: scope_get get intro!: exI [of _ k] exI [of _ v])
  ultimately show ?thesis
    using assms container_wf_joined(1) [OF assms]
    by (auto simp: scope_get [of m1] scope_get [of m2])
       (auto simp: scope_get get split: option.splits)
qed

definition str_keys :: "container \<Rightarrow> bool" where
  "str_keys m = list_all is_vstr (dict_keys m)"

lemma container_add_props:
  assumes "container_wf m1" "container_wf m2" "str_keys m1" "str_keys m2"
  shows "\<exists>m. container_add m1 m2 = Inr m \<and> container_wf m \<and>
             scope m = scope m1 \<union> scope m2 \<and> irredundant m"
proof -
  define J where "J = dict_update m1 m2"
  have wfJ: "container_wf J" and getJ: "\<And>k. dict_get J k =
      (case dict_get m2 k of None \<Rightarrow> dict_get m1 k | Some v \<Rightarrow> Some v)"
    using container_wf_joined assms unfolding J_def by auto
  have key: "dict_item J k = Inr (the (dict_get J k))" if "k \<in> set (dict_keys J)" for k
    using that by (auto simp: dict_item_def dict_get_None_iff split: option.splits)
  define ks where "ks = sort_key vb_len (dict_keys J)"
  define vbs where "vbs = map (\<lambda>k. the (dict_get J k)) ks"
  have lst: "res_list (dict_item J) ks = Inr vbs"
    unfolding vbs_def using key by (intro res_list_Inr) (simp add: ks_def)
  have at: "mapping_key (the (dict_get J k)) = Inr k" "clean_varbind (the (dict_get J k))"
    if "k \<in> set (dict_keys J)" for k
    using that container_wf_get [OF wfJ] dict_get_None_iff [of J k] by (cases "dict_get J k"; auto)+
  have cl: "clean_varbind v" if "v \<in> set vbs" for v
    using that at by (auto simp: vbs_def ks_def)
  have strs: "list_all is_vstr (dict_keys J)"
  proof -
    have "k \<in> set (dict_keys m1) \<union> set (dict_keys m2)" if "k \<in> set (dict_keys J)" for k
      using that getJ [of k] dict_get_None_iff [of J k] dict_get_None_iff [of m1 k]
        dict_get_None_iff [of m2 k] by (auto split: option.splits)
    then show ?thesis using assms(3,4) by (auto simp: str_keys_def list_all_iff)
  qed
  obtain m where m: "insert_varbinds [] vbs = Inr m" "container_wf m"
      "scope m = (\<Union>vb \<in> set vbs. covers vb)"
    using insert_varbinds_scope [of "[]" vbs] cl by auto
  have "container_add m1 m2 = Inr m"
    using assms(1) strs lst m(1) unfolding container_add_def
    by (simp add: J_def [symmetric] ks_def [symmetric] container_wf_def)
  moreover have "scope m = scope m1 \<union> scope m2"
  proof -
    have "the (dict_get J (fst p)) = snd p" if "p \<in> set J" for p
      using that wfJ by (simp add: container_wf_def dict_get_in)
    then have "set vbs = snd ` set J"
      by (simp add: vbs_def ks_def dict_keys_def image_image)
    then have "scope m = scope J"
      unfolding m(3) by (simp add: scope_def [of J] return_varbind_values_def)
    then show ?thesis using scope_joined assms by (simp add: J_def)
  qed
  moreover have "irredundant m"
  proof (rule insert_varbinds_irredundant [where f = "\<lambda>v. vb_len (projr (mapping_key v))" and m = "[]" and vbs = vbs])
    show "sorted (map (\<lambda>v. vb_len (projr (mapping_key v))) vbs)"
    proof -
      have "map (\<lambda>v. vb_len (projr (mapping_key v))) vbs = map vb_len ks"
        using at by (simp add: vbs_def ks_def)
      then show ?thesis by (simp add: ks_def)
    qed
  next
    fix v w k
    assume "clean_varbind v" "clean_varbind w" "mapping_key v = Inr k" "k \<in> parent_keys w"
    moreover obtain j where "mapping_key w = Inr j"
      using mapping_key_ok [of w] \<open>clean_varbind w\<close> by (cases w) auto
    ultimately show "vb_len (projr (mapping_key v)) < vb_len (projr (mapping_key w))"
      using parent_key_shorter by simp
  qed (use cl m(1) in \<open>simp_all add: irredundant_def\<close>)
  ultimately show ?thesis using m(2) by blast
qed

section \<open>Profiles\<close>

text \<open>
  What \<open>Profile.__init__\<close> reads of a profile's dictionary: the type of its condition and its
  varbinds, absent when the key is.
\<close>

record profile_body =
  pb_type :: "string option"
  pb_varbinds :: "varbind list option"

record profile =
  pr_name :: string
  pr_type :: "string option"
  pr_varbinds :: "varbind list option"
  pr_bulk :: container
  pr_get :: container
  pr_bulk_mapping :: "(vbelem, string) dict"
  pr_get_mapping :: "(vbelem, string) dict"

definition new_profile :: "string \<Rightarrow> profile_body \<Rightarrow> profile" where
  "new_profile name body =
     \<lparr>pr_name = name, pr_type = pb_type body, pr_varbinds = pb_varbinds body,
      pr_bulk = [], pr_get = [], pr_bulk_mapping = [], pr_get_mapping = []\<rparr>"

fun divide_varbinds :: "varbind list \<Rightarrow> container \<times> container \<Rightarrow> (container \<times> container) result" where
  \<comment> \<open>the loop of \<open>divide_on_bulk_and_get\<close>\<close>
  "divide_varbinds [] (bulk, gt) = Inr (bulk, gt)"
| "divide_varbinds (vb # vbs) (bulk, gt) =
     (if length vb < 3
      then res_bind (insert_varbind bulk vb) (\<lambda>bulk'. divide_varbinds vbs (bulk', gt))
      else res_bind (res_bind (mapping_key vb) (are_parents_in_map bulk)) (\<lambda>inside.
             if inside then divide_varbinds vbs (bulk, gt)
             else res_bind (insert_varbind gt vb) (\<lambda>gt'. divide_varbinds vbs (bulk, gt'))))"

definition divide_on_bulk_and_get :: "profile \<Rightarrow> profile result" where
  "divide_on_bulk_and_get p =
     (case pr_varbinds p of
        None \<Rightarrow> Inl TypeError
      | Some vbs \<Rightarrow>
          res_map (\<lambda>(bulk, gt). p\<lparr>pr_bulk := bulk, pr_get := gt\<rparr>)
            (divide_varbinds (sort_key length vbs) (pr_bulk p, pr_get p)))"

definition process_profile :: "profile \<Rightarrow> profile result" where
  "process_profile p =
     res_bind (if pr_type p = Some ''walk''
               then res_map (\<lambda>m. p\<lparr>pr_bulk := m\<rparr>) (insert_varbind (pr_bulk p) [VStr ''SNMPv2-MIB''])
               else Inr p)
       (\<lambda>p1. res_map (\<lambda>p2.
          if pr_type p2 \<noteq> Some ''walk''
          then p2\<lparr>pr_bulk_mapping := get_profile_mapping (pr_bulk p2) (pr_name p2),
                  pr_get_mapping := get_profile_mapping (pr_get p2) (pr_name p2)\<rparr>
          else p2) (divide_on_bulk_and_get p1))"

definition profile_mib_families :: "profile \<Rightarrow> vbelem set" where
  "profile_mib_families p =
     set (container_mib_families (pr_bulk p) @ container_mib_families (pr_get p))"

definition return_mapping_and_varbinds ::
  "profile \<Rightarrow> varbind list \<times> (vbelem, string) dict \<times> varbind list \<times> (vbelem, string) dict" where
  "return_mapping_and_varbinds p =
     (return_varbind_values (pr_get p), pr_get_mapping p,
      return_varbind_values (pr_bulk p), pr_bulk_mapping p)"

section \<open>Joining profiles\<close>

definition unique_profile_names :: "string \<Rightarrow> string list" where
  \<comment> \<open>\<open>dict.fromkeys\<close> keeps the first occurrence of each name\<close>
  "unique_profile_names v =
     dict_keys (fold (\<lambda>n d. dict_set n () d) (filter (\<lambda>n. n \<noteq> []) (str_split '','' v)) [])"

fun merge_names ::
  "(vbelem, string list) dict \<Rightarrow> (vbelem, string) dict \<Rightarrow> (vbelem, string list) dict" where
  "merge_names acc [] = acc"
| "merge_names acc ((k, v) # rest) =
     (let base = dict_get_or acc k [];
          incoming = unique_profile_names v;
          added = filter (\<lambda>n. n \<notin> set base) incoming
      in merge_names (dict_set k (base @ added) acc) rest)"

definition add_mappings ::
  "(vbelem, string) dict \<Rightarrow> (vbelem, string) dict \<Rightarrow> (vbelem, string) dict" where
  "add_mappings base_mapping incoming_mapping =
     map (\<lambda>(k, ns). (k, str_join '','' ns))
       (merge_names (map (\<lambda>(k, v). (k, unique_profile_names v)) base_mapping) incoming_mapping)"

definition profile_add :: "profile \<Rightarrow> profile \<Rightarrow> profile result" where
  "profile_add p q =
     res_bind (container_add (pr_bulk p) (pr_bulk q)) (\<lambda>bulk.
     res_bind (container_add (pr_get p) (pr_get q)) (\<lambda>gt.
       Inr ((new_profile (pr_name p @ '':'' @ pr_name q) \<lparr>pb_type = None, pb_varbinds = None\<rparr>)
              \<lparr>pr_bulk := bulk, pr_get := gt,
               pr_bulk_mapping := add_mappings (pr_bulk_mapping p) (pr_bulk_mapping q),
               pr_get_mapping := add_mappings (pr_get_mapping p) (pr_get_mapping q)\<rparr>)))"

section \<open>What a processed profile polls\<close>

definition plain_varbind :: "varbind \<Rightarrow> bool" where
  \<comment> \<open>clean, and with no colon in any element\<close>
  "plain_varbind vb \<longleftrightarrow> clean_varbind vb \<and> (\<forall>x \<in> set vb. CHR '':'' \<notin> set (vb_str x))"

lemma str_join_no: "c \<notin> set sep \<Longrightarrow> (\<And>x. x \<in> set xs \<Longrightarrow> c \<notin> set x) \<Longrightarrow> c \<notin> set (str_join sep xs)"
  by (induction sep xs rule: str_join.induct) auto

lemma hd_split_char: "c \<notin> set a \<Longrightarrow> hd (str_split [c] (a @ c # b)) = a"
  by (simp add: str_split_char_app)

lemma are_parents_long:
  assumes "plain_varbind vb" "\<not> length vb < 3"
  shows "\<exists>k. mapping_key vb = Inr k \<and>
    are_parents_in_map m k =
      Inr (dict_has m (VStr (vb_str (hd vb))) \<or> dict_has m (projr (mapping_key (take 2 vb))))"
proof -
  obtain a b c rest where vb: "vb = a # b # c # rest"
    using assms(2) by (cases vb rule: covers.cases) auto
  define f where "f = vb_str b @ ''.'' @ str_join ''.'' (map vb_str (c # rest))"
  have a: "CHR '':'' \<notin> set (vb_str a)" and f: "CHR '':'' \<notin> set f"
    using assms(1) str_join_no [of "CHR '':''" "''.''" "map vb_str (c # rest)"]
    by (auto simp: plain_varbind_def vb f_def)
  have key: "mapping_key vb = Inr (VStr (vb_str a @ ''::'' @ f))" by (simp add: vb f_def)
  have dot: "CHR ''.'' \<notin> set (vb_str b)" using assms(1) by (simp add: plain_varbind_def vb)
  have hd: "hd (str_split ''.'' f) = vb_str b"
    using hd_split_char [OF dot] by (simp add: f_def)
  have "str_split ''::'' (vb_str a @ ''::'' @ f) = [vb_str a, f]"
    using a f by (intro str_split_two) auto
  then have "are_parents_in_map m (VStr (vb_str a @ ''::'' @ f)) =
      Inr (dict_has m (VStr (vb_str a)) \<or> dict_has m (projr (mapping_key (take 2 vb))))"
    unfolding are_parents_in_map_def
    by (simp add: hd return_varbind_keys_def dict_has_iff vb Let_def del: append.simps)
  then show ?thesis using key by (simp add: vb)
qed

definition parent_polled :: "container \<Rightarrow> varbind \<Rightarrow> bool" where
  "parent_polled m vb \<longleftrightarrow>
     dict_has m (VStr (vb_str (hd vb))) \<or> dict_has m (projr (mapping_key (take 2 vb)))"

lemma divide_long:
  assumes "\<And>vb. vb \<in> set vbs \<Longrightarrow> plain_varbind vb \<and> \<not> length vb < 3"
  shows "divide_varbinds vbs (bulk, gt) =
    res_map (\<lambda>g. (bulk, g)) (insert_varbinds gt (filter (\<lambda>vb. \<not> parent_polled bulk vb) vbs))"
  using assms
proof (induction vbs arbitrary: gt)
  case Nil
  then show ?case by simp
next
  case (Cons vb vbs)
  obtain k where "mapping_key vb = Inr k"
      "are_parents_in_map bulk k = Inr (parent_polled bulk vb)"
    using are_parents_long [of vb bulk] Cons.prems by (auto simp: parent_polled_def)
  moreover have "divide_varbinds vbs (bulk, g) =
      res_map (\<lambda>g. (bulk, g)) (insert_varbinds g (filter (\<lambda>vb. \<not> parent_polled bulk vb) vbs))" for g
    using Cons by simp
  ultimately show ?case
    using Cons.prems by (cases "insert_varbind gt vb") auto
qed

lemma divide_short:
  assumes "\<And>vb. vb \<in> set us \<Longrightarrow> length vb < 3"
  shows "divide_varbinds (us @ vs) (bulk, gt) =
    res_bind (insert_varbinds bulk us) (\<lambda>b. divide_varbinds vs (b, gt))"
  using assms
proof (induction us arbitrary: bulk)
  case Nil
  then show ?case by simp
next
  case (Cons vb us)
  then show ?case by (cases "insert_varbind bulk vb") auto
qed

lemma parent_polled_covers:
  assumes "container_wf m" "clean_varbind vb" "\<not> length vb < 3" "parent_polled m vb"
  shows "covers vb \<subseteq> scope m"
proof -
  obtain a b c rest where vb: "vb = a # b # c # rest"
    using assms(3) by (cases vb rule: covers.cases) auto
  consider "dict_has m (VStr (vb_str a))" | "dict_has m (VStr (vb_str a @ ''::'' @ vb_str b))"
    using assms(4) by (auto simp: parent_polled_def vb)
  then show ?thesis
  proof cases
    case 1
    then obtain w where w: "mapping_key w = Inr (VStr (vb_str a))" "clean_varbind w" "covers w \<subseteq> scope m"
      using scope_has [OF _ assms(1)] by blast
    then have "covers vb \<subseteq> covers w" using assms(2)
      by (cases w rule: covers.cases) (auto simp: vb vb_str_def [of "VStr _"] sep_not_in)
    with w show ?thesis by blast
  next
    case 2
    then have "below_other m vb" by (simp add: below_other_def vb)
    then show ?thesis using below_other_covers assms by blast
  qed
qed

text \<open>The division of a list of varbinds into the two containers.\<close>

lemma divide_props:
  assumes wf: "container_wf bulk" "irredundant bulk" "\<And>k w. (k, w) \<in> set bulk \<Longrightarrow> length w = 1"
    and plain: "\<And>vb. vb \<in> set vbs \<Longrightarrow> plain_varbind vb"
  shows "\<exists>b g. divide_varbinds (sort_key length vbs) (bulk, []) = Inr (b, g) \<and>
      container_wf b \<and> container_wf g \<and> irredundant b \<and> irredundant g \<and>
      scope b \<union> scope g = scope bulk \<union> (\<Union>vb \<in> set vbs. covers vb) \<and>
      (\<forall>vb \<in> set (return_varbind_values g). \<not> parent_polled b vb)"
proof -
  define us where "us = filter (\<lambda>vb. length vb < 3) (sort_key length vbs)"
  define ls where "ls = filter (\<lambda>vb. \<not> length vb < 3) (sort_key length vbs)"
  have split: "sort_key length vbs = us @ ls"
    unfolding us_def ls_def by (rule sorted_filter_split [symmetric]) simp
  have srt: "sorted (map length us)" "sorted (map length ls)"
    using split sorted_sort_key [of length vbs] by (auto simp: sorted_append)
  have all: "set vbs = set us \<union> set ls"
    using arg_cong [OF split, of set] by simp
  have us: "\<And>vb. vb \<in> set us \<Longrightarrow> length vb < 3" and ls: "\<And>vb. vb \<in> set ls \<Longrightarrow> \<not> length vb < 3"
    by (simp_all add: us_def ls_def)
  have cl: "clean_varbind vb" if "vb \<in> set vbs" for vb
    using plain that by (simp add: plain_varbind_def)
  obtain b where b: "insert_varbinds bulk us = Inr b" "container_wf b"
      "scope b = scope bulk \<union> (\<Union>vb \<in> set us. covers vb)"
    using insert_varbinds_scope [OF wf(1), of us] cl all by auto
  define ks where "ks = filter (\<lambda>vb. \<not> parent_polled b vb) ls"
  obtain g where g: "insert_varbinds [] ks = Inr g" "container_wf g" "scope g = (\<Union>vb \<in> set ks. covers vb)"
    using insert_varbinds_scope [of "[]" ks] cl all by (auto simp: ks_def)
  have "divide_varbinds ls (b, []) = Inr (b, g)"
    using g(1) plain all ls by (subst divide_long) (auto simp: ks_def)
  then have "divide_varbinds (sort_key length vbs) (bulk, []) = Inr (b, g)"
    using b(1) us unfolding split by (subst divide_short) auto
  moreover have "scope b \<union> scope g = scope bulk \<union> (\<Union>vb \<in> set vbs. covers vb)"
  proof -
    have "covers vb \<subseteq> scope b \<union> scope g" if "vb \<in> set ls" for vb
      using parent_polled_covers [OF b(2), of vb] that cl all g(3)
      by (cases "parent_polled b vb") (auto simp: ks_def ls)
    then show ?thesis using b(3) g(3) all by (auto simp: ks_def)
  qed
  moreover have "irredundant b"
  proof (rule insert_varbinds_irredundant [OF wf(1,2) _ parent_has_fewer srt(1) _ b(1)])
    show "clean_varbind vb" if "vb \<in> set us" for vb using that cl all by blast
  next
    fix j w v
    assume "(j, w) \<in> set bulk" "v \<in> set us"
    then show "length w \<le> length v"
      using wf(3) cl [of v] all by (cases v) force+
  qed
  moreover have "irredundant g"
    by (rule insert_varbinds_irredundant [OF _ _ _ parent_has_fewer _ _ g(1)])
       (use cl all srt(2) in \<open>auto simp: irredundant_def ks_def sorted_filter\<close>)
  moreover have "\<not> parent_polled b vb" if "vb \<in> set (return_varbind_values g)" for vb
    using that insert_varbinds_values [OF g(1)] by (auto simp: ks_def return_varbind_values_def)
  ultimately show ?thesis using b(2) g(2) by blast
qed

lemma get_profile_mapping_keys:
  "dict_get (get_profile_mapping m name) k = (if dict_has m k then Some name else None)"
  by (simp add: get_profile_mapping_def return_varbind_keys_def dict_has_iff pd.get_fold_const)

definition asked_varbinds :: "profile_body \<Rightarrow> varbind list \<Rightarrow> varbind list" where
  \<comment> \<open>a walk profile asks for the system's own MIB as well\<close>
  "asked_varbinds body vbs = (if pb_type body = Some ''walk'' then [[VStr ''SNMPv2-MIB'']] else []) @ vbs"

definition mapped_names :: "profile_body \<Rightarrow> string \<Rightarrow> container \<Rightarrow> vbelem \<Rightarrow> string option" where
  \<comment> \<open>the name recorded for a varbind: none in a walk profile\<close>
  "mapped_names body name m k = (if pb_type body \<noteq> Some ''walk'' \<and> dict_has m k then Some name else None)"

lemma walk_bulk_start:
  "insert_varbind [] [VStr ''SNMPv2-MIB''] = Inr [(VStr ''SNMPv2-MIB'', [VStr ''SNMPv2-MIB''])]"
  by code_simp

lemma walk_bulk_start_ok:
  "container_wf [(VStr ''SNMPv2-MIB'', [VStr ''SNMPv2-MIB''])]" "irredundant [(VStr ''SNMPv2-MIB'', [VStr ''SNMPv2-MIB''])]"
  by (auto simp: container_wf_def irredundant_def below_other_def dict_wf_def dict_keys_def vb_str_def)



section \<open>Merging the profile names of an object\<close>

lemma fold_set_unit:
  "dict_wf d \<Longrightarrow> dict_wf (fold (\<lambda>n. dict_set n ()) ns d) \<and>
     set (dict_keys (fold (\<lambda>n. dict_set n ()) ns d)) = set (dict_keys d) \<union> set ns"
  by (induction ns arbitrary: d) (auto simp: dict_keys_set)

lemma unique_profile_names_props:
  "distinct (unique_profile_names v)"
  "set (unique_profile_names v) = set (str_split '','' v) - {[]}"
  using fold_set_unit [of "[]" "filter (\<lambda>n. n \<noteq> []) (str_split '','' v)"]
  by (auto simp: unique_profile_names_def dict_wf_def dict_keys_def)

lemma unique_profile_names_no_comma:
  "n \<in> set (unique_profile_names v) \<Longrightarrow> CHR '','' \<notin> set n \<and> n \<noteq> []"
  using str_split_char_parts [of n "CHR '',''" v] by (auto simp: unique_profile_names_props)

lemma fold_set_distinct:
  "distinct (dict_keys d @ ns) \<Longrightarrow> dict_keys (fold (\<lambda>n. dict_set n ()) ns d) = dict_keys d @ ns"
  by (induction ns arbitrary: d) (auto simp: dict_keys_set_eq)

lemma unique_profile_names_join:
  assumes "distinct ns" "\<And>n. n \<in> set ns \<Longrightarrow> CHR '','' \<notin> set n \<and> n \<noteq> []"
  shows "unique_profile_names (str_join '','' ns) = ns"
proof (cases "ns = []")
  case True
  then show ?thesis by (simp add: unique_profile_names_def str_split_char_none dict_keys_def)
next
  case False
  then have "str_split '','' (str_join '','' ns) = ns" using assms(2) by (intro str_split_join) auto
  moreover have "filter (\<lambda>n. n \<noteq> []) ns = ns" using assms(2) by (auto simp: filter_id_conv)
  ultimately show ?thesis
    using assms(1) fold_set_distinct [of "[]" ns] by (simp add: unique_profile_names_def dict_keys_def)
qed

definition names_of :: "(vbelem, string) dict \<Rightarrow> vbelem \<Rightarrow> string list" where
  \<comment> \<open>the profile names recorded for a varbind\<close>
  "names_of d k = (case dict_get d k of None \<Rightarrow> [] | Some v \<Rightarrow> unique_profile_names v)"

lemma dict_get_merge_names:
  assumes "dict_wf inc"
  shows "dict_get (merge_names acc inc) k =
    (case dict_get inc k of
       None \<Rightarrow> dict_get acc k
     | Some v \<Rightarrow> Some (dict_get_or acc k [] @
                       filter (\<lambda>n. n \<notin> set (dict_get_or acc k [])) (unique_profile_names v)))"
  using assms
proof (induction acc inc rule: merge_names.induct)
  case (1 acc)
  then show ?case by simp
next
  case (2 acc j v rest)
  have "dict_wf rest" "dict_get rest j = None"
    using "2.prems" by (auto simp: dict_wf_def dict_get_def map_of_eq_None_iff)
  then show ?case
    using "2.IH" by (auto simp: Let_def dict_get_Cons dict_get_or_def split: option.splits)
qed

lemma dict_get_map_snd: "dict_get (map (\<lambda>(k, v). (k, f v)) d) k = map_option f (dict_get d k)"
  by (induction d) (auto simp: dict_get_def)

lemma names_of_merged:
  assumes "dict_wf base" "dict_wf inc"
  shows "names_of (add_mappings base inc) k =
           names_of base k @ filter (\<lambda>n. n \<notin> set (names_of base k)) (names_of inc k) \<and>
         (dict_has (add_mappings base inc) k \<longleftrightarrow> dict_has base k \<or> dict_has inc k)"
proof -
  let ?ns = "names_of base k @ filter (\<lambda>n. n \<notin> set (names_of base k)) (names_of inc k)"
  let ?acc = "map (\<lambda>(k, v). (k, unique_profile_names v)) base"
  have acc: "dict_get_or ?acc k [] = names_of base k"
    by (simp add: dict_get_or_def names_of_def dict_get_map_snd split: option.splits)
  have get: "dict_get (add_mappings base inc) k =
      (if dict_has base k \<or> dict_has inc k then Some (str_join '','' ?ns) else None)"
    unfolding add_mappings_def
    by (cases "dict_get base k"; cases "dict_get inc k")
       (simp_all add: dict_get_map_snd dict_get_merge_names [OF assms(2)] acc dict_has_def names_of_def)
  have ns: "distinct ?ns" "\<And>n. n \<in> set ?ns \<Longrightarrow> CHR '','' \<notin> set n \<and> n \<noteq> []"
    using unique_profile_names_props(1) unique_profile_names_no_comma
    by (auto simp: names_of_def split: option.splits)
  show ?thesis
  proof (cases "dict_has base k \<or> dict_has inc k")
    case True
    then show ?thesis using get unique_profile_names_join [OF ns]
      by (simp add: names_of_def [of "add_mappings base inc"] dict_has_def [of "add_mappings base inc"])
  next
    case False
    then have "names_of base k = []" "names_of inc k = []" by (simp_all add: names_of_def dict_has_def)
    with False get show ?thesis
      by (simp add: names_of_def [of "add_mappings base inc"] dict_has_def [of "add_mappings base inc"])
  qed
qed

text \<open>
  Merging two mappings keeps, for every varbind, each profile name once: first the names
  of the base in their order, then the new names of the incoming mapping.  Neither mapping
  loses a name, and merging the result with one of its parts changes nothing.
\<close>

theorem add_mappings_names:
  assumes "dict_wf base" "dict_wf inc"
  shows "names_of (add_mappings base inc) k =
           names_of base k @ filter (\<lambda>n. n \<notin> set (names_of base k)) (names_of inc k) \<and>
         (dict_has (add_mappings base inc) k \<longleftrightarrow> dict_has base k \<or> dict_has inc k)"
  using names_of_merged [OF assms] .

theorem add_mappings_names_witness:
  "names_of (add_mappings [(VStr ''m::a'', ''p,q'')] [(VStr ''m::a'', ''q,r'')]) (VStr ''m::a'') = [''p'', ''q'', ''r'']"
proof -
  have 1: "dict_wf [(VStr ''m::a'', ''p,q'')]" "dict_wf [(VStr ''m::a'', ''q,r'')]"
    by (simp_all add: dict_wf_def)
  have 2: "names_of [(VStr ''m::a'', ''p,q'')] (VStr ''m::a'') = [''p'', ''q'']"
    "names_of [(VStr ''m::a'', ''q,r'')] (VStr ''m::a'') = [''q'', ''r'']"
    by code_simp+
  show ?thesis using add_mappings_names [OF 1, of "VStr ''m::a''"] by (simp add: 2)
qed

section \<open>The collection of profiles\<close>

text \<open>
  \<open>ProfileCollection\<close>: the raw dictionary last seen and the processed profiles.  A raised
  exception leaves the state as far as it got, so the operations return the state together
  with the exception, if any.  A body whose varbinds are not lists of strings and integers is
  refused when the profiles are loaded (see \<^verbatim>\<open>collections_schemas.py\<close>).
\<close>

record profile_collection =
  pc_raw :: "(string, pyval) dict"
  pc_profiles :: "(string, profile) dict"

fun read_vbelem :: "pyval \<Rightarrow> vbelem result" where
  "read_vbelem (PStr s) = Inr (VStr s)"
| "read_vbelem (PInt i) = Inr (VInt i)"
| "read_vbelem _ = Inl TypeError"

fun read_varbind :: "pyval \<Rightarrow> varbind result" where
  "read_varbind (PList xs) = res_list read_vbelem xs"
| "read_varbind _ = Inl TypeError"

fun read_varbinds :: "pyval \<Rightarrow> varbind list option result" where
  "read_varbinds PNone = Inr None"
| "read_varbinds (PList xs) = res_map Some (res_list read_varbind xs)"
| "read_varbinds _ = Inl TypeError"

definition read_body :: "pyval \<Rightarrow> profile_body result" where
  "read_body body =
     res_bind (py_get body ''condition'' (PDict [])) (\<lambda>c.
     res_bind (py_get c ''type'' PNone) (\<lambda>t.
     res_bind (py_get body ''varBinds'' PNone) (\<lambda>v.
     res_map (\<lambda>vbs. \<lparr>pb_type = (case t of PStr s \<Rightarrow> Some s | _ \<Rightarrow> None), pb_varbinds = vbs\<rparr>)
       (read_varbinds v))))"

fun process_profiles ::
  "(string, pyval) dict \<Rightarrow> (string, profile) dict \<Rightarrow> (string, profile) dict \<times> pyexn option" where
  "process_profiles [] ps = (ps, None)"
| "process_profiles ((name, body) # rest) ps =
     (case res_bind (res_map (new_profile name) (read_body body)) process_profile of
        Inl e \<Rightarrow> (ps, Some e)
      | Inr p \<Rightarrow> process_profiles rest (dict_set name p ps))"

definition collection_update ::
  "profile_collection \<Rightarrow> (string, pyval) dict \<Rightarrow> profile_collection \<times> pyexn option" where
  "collection_update c raw =
     (if py_eq (PDict (pc_raw c)) (PDict raw) then (c, None)
      else (case process_profiles raw (pc_profiles c) of
              (ps, e) \<Rightarrow> (c\<lparr>pc_raw := raw, pc_profiles := ps\<rparr>, e)))"

definition get_profile :: "profile_collection \<Rightarrow> string \<Rightarrow> profile option" where
  \<comment> \<open>\<open>None\<close> stands for the empty dictionary that the code returns\<close>
  "get_profile c name =
     (let is_profile_conditional = str_contains name ''__'' in
      case dict_get (pc_profiles c) name of
        Some p \<Rightarrow>
          if (pr_varbinds p = None \<or> pr_varbinds p = Some []) \<and> pr_type p \<noteq> Some ''walk'' \<and>
             \<not> is_profile_conditional
          then None else Some p
      | None \<Rightarrow> None)"

fun combine_profiles :: "profile option \<Rightarrow> profile option \<Rightarrow> profile option result" where
  "combine_profiles (Some p) (Some q) = res_map Some (profile_add p q)"
| "combine_profiles (Some p) None = Inr (Some p)"
| "combine_profiles None q = Inr q"

fun reduce_profiles :: "profile option \<Rightarrow> profile option list \<Rightarrow> profile option result" where
  "reduce_profiles acc [] = Inr acc"
| "reduce_profiles acc (q # qs) = res_bind (combine_profiles acc q) (\<lambda>r. reduce_profiles r qs)"

definition get_polling_info ::
  "profile_collection \<Rightarrow> string list \<Rightarrow> bool \<Rightarrow> profile option result" where
  "get_polling_info c names is_walk =
     (let profiles = map (get_profile c) names in
      if length profiles = 1 \<or> is_walk
      then (case profiles of [] \<Rightarrow> Inl IndexError | p # _ \<Rightarrow> Inr p)
      else (case profiles of [] \<Rightarrow> Inl TypeError | p # ps \<Rightarrow> reduce_profiles p ps))"

section \<open>What several profiles ask for together\<close>

text \<open>What every processed profile satisfies, and joining keeps.\<close>

definition good_profile :: "profile \<Rightarrow> bool" where
  "good_profile p \<longleftrightarrow>
     container_wf (pr_bulk p) \<and> container_wf (pr_get p) \<and>
     str_keys (pr_bulk p) \<and> str_keys (pr_get p) \<and>
     irredundant (pr_bulk p) \<and> irredundant (pr_get p) \<and>
     dict_wf (pr_bulk_mapping p) \<and> dict_wf (pr_get_mapping p)"

definition present :: "profile_collection \<Rightarrow> string list \<Rightarrow> profile list" where
  \<comment> \<open>the profiles of the list that exist and are usable\<close>
  "present c names = somes (map (get_profile c) names)"

definition joins :: "profile option \<Rightarrow> profile list \<Rightarrow> bool" where
  \<comment> \<open>the answer asks for exactly what the profiles ask for, and names them correctly\<close>
  "joins r ps \<longleftrightarrow>
     (case r of
        None \<Rightarrow> ps = []
      | Some p \<Rightarrow> ps \<noteq> [] \<and> good_profile p \<and>
         scope (pr_bulk p) = (\<Union>q \<in> set ps. scope (pr_bulk q)) \<and>
         scope (pr_get p) = (\<Union>q \<in> set ps. scope (pr_get q)) \<and>
         (\<forall>k. set (names_of (pr_bulk_mapping p) k) =
            (\<Union>q \<in> set ps. set (names_of (pr_bulk_mapping q) k))) \<and>
         (\<forall>k. set (names_of (pr_get_mapping p) k) =
            (\<Union>q \<in> set ps. set (names_of (pr_get_mapping q) k))))"

lemma names_of_add:
  assumes "dict_wf base" "dict_wf inc"
  shows "dict_wf (add_mappings base inc)"
    and "set (names_of (add_mappings base inc) k) = set (names_of base k) \<union> set (names_of inc k)"
proof -
  have "dict_wf (merge_names acc inc)" if "dict_wf acc" for acc
    using that by (induction acc inc rule: merge_names.induct) (auto simp: Let_def)
  moreover have "dict_wf (map (\<lambda>(k, v). (k, unique_profile_names v)) base)"
    using assms(1) by (simp add: dict_wf_def case_prod_unfold comp_def)
  ultimately show "dict_wf (add_mappings base inc)"
    by (simp add: add_mappings_def dict_wf_def case_prod_unfold comp_def)
  show "set (names_of (add_mappings base inc) k) = set (names_of base k) \<union> set (names_of inc k)"
    by (auto simp: names_of_merged [OF assms])
qed

lemma insert_varbinds_str_keys:
  assumes "str_keys m" "\<And>vb. vb \<in> set vbs \<Longrightarrow> \<exists>s. mapping_key vb = Inr (VStr s)"
    and "insert_varbinds m vbs = Inr m'"
  shows "str_keys m'"
  using assms
proof (induction vbs arbitrary: m)
  case (Cons vb vbs)
  obtain s where s: "mapping_key vb = Inr (VStr s)" using Cons.prems(2) by auto
  obtain m1 where m1: "insert_varbind m vb = Inr m1" "insert_varbinds m1 vbs = Inr m'"
    using Cons.prems(3) by (auto simp: res_splits)
  have "str_keys m1"
    using m1(1) Cons.prems(1)
    by (auto simp: insert_varbind_cases [OF s] str_keys_def dict_keys_set_eq is_vstr_def split: if_splits)
  then show ?case using Cons.IH Cons.prems(2) m1(2) by simp
qed simp

lemma joined_str_keys:
  assumes "container_wf m1" "container_wf m2" "container_add m1 m2 = Inr m"
  shows "str_keys m"
proof -
  let ?J = "dict_update m1 m2"
  have J: "dict_update (dict_update [] m1) m2 = ?J"
    using assms(1) by (simp add: container_wf_def)
  obtain vbs where strs: "list_all is_vstr (dict_keys ?J)"
    and vbs: "res_list (dict_item ?J) (sort_key vb_len (dict_keys ?J)) = Inr vbs"
    and ins: "insert_varbinds [] vbs = Inr m"
    using assms(3) unfolding container_add_def Let_def J by (auto simp: res_splits split: if_splits)
  have "\<exists>s. mapping_key vb = Inr (VStr s)" if v: "vb \<in> set vbs" for vb
  proof -
    obtain k where "k \<in> set (dict_keys ?J)" "dict_item ?J k = Inr vb"
      using res_list_mem [OF vbs v] by auto
    moreover from this have "mapping_key vb = Inr k"
      using container_wf_get [OF container_wf_joined(1) [OF assms(1,2)], of k vb]
      by (auto simp: dict_item_def split: option.splits)
    ultimately show ?thesis using strs by (cases k rule: vbelem.exhaust) (auto simp: list_all_iff is_vstr_def)
  qed
  then show ?thesis using insert_varbinds_str_keys [OF _ _ ins] by (simp add: str_keys_def dict_keys_def)
qed

lemma profile_add_good:
  assumes "good_profile p" "good_profile q"
  shows "\<exists>r. profile_add p q = Inr r \<and> good_profile r \<and> joins (Some r) [p, q]"
proof -
  obtain b where b: "container_add (pr_bulk p) (pr_bulk q) = Inr b" "container_wf b" "irredundant b"
      "scope b = scope (pr_bulk p) \<union> scope (pr_bulk q)"
    using container_add_props assms unfolding good_profile_def by blast
  obtain g where g: "container_add (pr_get p) (pr_get q) = Inr g" "container_wf g" "irredundant g"
      "scope g = scope (pr_get p) \<union> scope (pr_get q)"
    using container_add_props assms unfolding good_profile_def by blast
  have "str_keys b" "str_keys g"
    using joined_str_keys b(1) g(1) assms unfolding good_profile_def by blast+
  then show ?thesis
    using b g assms names_of_add
    by (simp add: profile_add_def new_profile_def good_profile_def joins_def)
qed

lemma reduce_profiles_good:
  assumes "\<forall>p \<in> set (somes (acc # qs)). good_profile p"
  shows "\<exists>r. reduce_profiles acc qs = Inr r \<and> joins r (somes (acc # qs))"
  using assms
proof (induction acc qs rule: reduce_profiles.induct)
  case (1 acc)
  then show ?case by (cases acc) (simp_all add: joins_def)
next
  case (2 acc q qs)
  consider "acc = None" | "q = None" "acc \<noteq> None" | p p' where "acc = Some p" "q = Some p'"
    by (cases acc; cases q) auto
  then show ?case
  proof cases
    case (3 p p')
    then obtain s where s: "profile_add p p' = Inr s" "good_profile s" "joins (Some s) [p, p']"
      using profile_add_good [of p p'] "2.prems" by auto
    then obtain r where "reduce_profiles (Some s) qs = Inr r" "joins r (s # somes qs)"
      using "2.IH" [of "Some s"] "2.prems" 3 by auto
    then show ?thesis using s 3 by (simp add: joins_def Un_assoc split: option.splits)
  next
    case 1
    then show ?thesis using 2 by auto
  next
    case 2
    then show ?thesis using "2.IH" [of acc] "2.prems" by auto
  qed
qed

text \<open>
  C15.  Asked for several profiles at once, the collection answers with one profile that asks
  for exactly what the existing ones ask for, without a varbind below another of its
  container, and that attributes every varbind to exactly the profiles that list it; it
  answers with none only when none of the profiles is usable.
\<close>

theorem get_polling_info_joins:
  assumes "length names \<noteq> 1" "names \<noteq> []" "\<forall>p \<in> set (present c names). good_profile p"
  shows "\<exists>r. get_polling_info c names False = Inr r \<and> joins r (present c names)"
proof -
  obtain n ns where ns: "names = n # ns" using assms(2) by (cases names) auto
  have "get_polling_info c names False = reduce_profiles (get_profile c n) (map (get_profile c) ns)"
    using assms(1) by (simp add: get_polling_info_def ns)
  then show ?thesis
    using reduce_profiles_good [of "get_profile c n" "map (get_profile c) ns"] assms(3)
    by (simp add: ns present_def)
qed

lemma process_profiles_get:
  "process_profiles raw ps = (ps', None) \<Longrightarrow> dict_wf raw \<Longrightarrow>
     (case dict_get raw n of
        None \<Rightarrow> dict_get ps' n = dict_get ps n
      | Some body \<Rightarrow> \<exists>p. dict_get ps' n = Some p \<and>
          res_bind (res_map (new_profile n) (read_body body)) process_profile = Inr p)"
proof (induction raw ps rule: process_profiles.induct)
  case (2 name body rest ps)
  obtain p where p: "res_bind (res_map (new_profile name) (read_body body)) process_profile = Inr p"
    "process_profiles rest (dict_set name p ps) = (ps', None)"
    using "2.prems"(1) by (auto split: sum.splits)
  have "dict_wf rest" "n = name \<Longrightarrow> dict_get rest n = None"
    using "2.prems"(2) by (auto simp: dict_wf_def dict_get_def map_of_eq_None_iff)
  then show ?case
    using "2.IH" [OF p(1) p(2)] p(1) by (auto simp: dict_get_Cons split: option.splits)
qed simp

text \<open>
  After an update that succeeds, every profile of the new configuration is the processed
  form of its new body; a profile that the new configuration no longer has stays in the
  collection as it was.
\<close>

theorem collection_update_profiles:
  assumes "collection_update c raw = (c', None)" "dict_wf raw"
    and "\<not> py_eq (PDict (pc_raw c)) (PDict raw)"
  shows "case dict_get raw n of
     None \<Rightarrow> dict_get (pc_profiles c') n = dict_get (pc_profiles c) n
   | Some body \<Rightarrow> \<exists>p. dict_get (pc_profiles c') n = Some p \<and>
       res_bind (res_map (new_profile n) (read_body body)) process_profile = Inr p"
proof -
  obtain ps where ps: "process_profiles raw (pc_profiles c) = (ps, None)" "pc_profiles c' = ps"
    using assms(1,3) by (auto simp: collection_update_def split: prod.splits)
  show ?thesis unfolding ps(2) by (rule process_profiles_get [OF ps(1) assms(2)])
qed

definition sample_profiles :: "(string, pyval) dict" where
  "sample_profiles =
     [(''p'', PDict [(''varBinds'', PList [PList [PStr ''IF-MIB'', PStr ''ifDescr'']])]),
      (''q'', PDict [(''varBinds'', PList [PList [PStr ''IF-MIB''], PList [PStr ''TCP-MIB'', PStr ''x'', PInt 0]])])]"

theorem get_polling_info_joins_witness:
  "let c = fst (collection_update \<lparr>pc_raw = [], pc_profiles = []\<rparr> sample_profiles);
       names = [''p'', ''missing'', ''q'']
   in \<exists>r. get_polling_info c names False = Inr r \<and> joins r (present c names)"
proof -
  have "\<forall>p \<in> set (present (fst (collection_update \<lparr>pc_raw = [], pc_profiles = []\<rparr> sample_profiles))
      [''p'', ''missing'', ''q'']). good_profile p"
    by code_simp
  then show ?thesis
    unfolding Let_def by (intro get_polling_info_joins) simp_all
qed

theorem collection_update_profiles_witness:
  "let c = \<lparr>pc_raw = sample_profiles, pc_profiles = [(''p'', new_profile ''p'' \<lparr>pb_type = None, pb_varbinds = None\<rparr>)]\<rparr>
   in dict_get (pc_profiles (fst (collection_update c [(''r'', PDict [(''varBinds'', PList [])])]))) ''p'' =
      dict_get (pc_profiles c) ''p''"
proof -
  let ?c = "\<lparr>pc_raw = sample_profiles, pc_profiles = [(''p'', new_profile ''p'' \<lparr>pb_type = None, pb_varbinds = None\<rparr>)]\<rparr>"
  let ?raw = "[(''r'', PDict [(''varBinds'', PList [])])]"
  have "snd (collection_update ?c ?raw) = None" by code_simp
  then have 1: "collection_update ?c ?raw = (fst (collection_update ?c ?raw), None)"
    by (metis prod.collapse)
  have 2: "dict_wf ?raw" by (simp add: dict_wf_def)
  have 3: "\<not> py_eq (PDict (pc_raw ?c)) (PDict ?raw)" by code_simp
  show ?thesis
    using collection_update_profiles [OF 1 2 3, of "''p''"] unfolding Let_def
    by (simp add: dict_get_def)
qed

end
