(* ===== verification/BulkWalk.thy ===== *)
theory BulkWalk
  imports Prelude
begin

text \<open>
  The generator that walks several OID trees with one GETBULK session:
  \<^verbatim>\<open>splunk_connect_for_snmp/snmp/multi_bulk_walk_cmd.py\<close>.

  What pysnmp does is a parameter: \<open>mk\<close> is the OID that \<open>make_varbinds\<close> resolves a requested
  variable to, \<open>pre r n\<close> is \<open>r.isPrefixOf(n)\<close>, and \<open>agent k nr reps oids\<close> is the outcome of the
  \<open>k\<close>-th call of \<open>bulk_cmd\<close>.  \<open>sent k\<close> is what the consumer sends into the generator at the
  \<open>k\<close>-th yield of results, the empty list when it sends nothing, as \<open>async for\<close> does.
\<close>

section \<open>Requests and replies\<close>

datatype errind = OidNotIncreasing | RequestTimedOut | EmptyResponse | OtherIndication

datatype 'v bval =
    VNull                    \<comment> \<open>\<open>Null\<close>, and \<open>NoSuchObject\<close>, \<open>NoSuchInstance\<close>, which extend it\<close>
  | VEnd bool                \<comment> \<open>\<open>EndOfMibView\<close>; whether it is the shared object \<open>endOfMibView\<close>\<close>
  | VData 'v

type_synonym ('o, 'v) response_vb = "'o \<times> 'v bval"

record ('o, 'v) reply =
  rp_ind :: "errind option"
  rp_status :: int
  rp_index :: int
  rp_table :: "('o, 'v) response_vb list"

text \<open>What the generator yields has the same four parts.\<close>

type_synonym ('o, 'v) agent = "nat \<Rightarrow> int \<Rightarrow> int \<Rightarrow> 'o list \<Rightarrow> ('o, 'v) reply result"

record walk_opts =
  wo_lexicographic :: bool
  wo_ignore :: bool           \<comment> \<open>\<open>ignoreNonIncreasingOid\<close>\<close>
  wo_max_rows :: int
  wo_max_calls :: int

record 'o walk_state =
  ws_initial :: "'o list"
  ws_completed :: "bool list"
  ws_last :: "'o list"
  ws_reps :: int
  ws_rows :: int
  ws_calls :: int

definition walk_init :: "('o \<Rightarrow> 'o) \<Rightarrow> int \<Rightarrow> 'o list \<Rightarrow> 'o walk_state" where
  "walk_init mk reps vars =
     \<lparr>ws_initial = map mk vars, ws_completed = replicate (length vars) False, ws_last = vars,
      ws_reps = reps, ws_rows = 0, ws_calls = 0\<rparr>"

section \<open>One response\<close>

text \<open>The varbind of the request that an entry of the flat response answers.\<close>

definition non_repeater_count :: "int \<Rightarrow> nat \<Rightarrow> nat" where
  "non_repeater_count nr num_active = nat (min (max nr 0) (int num_active))"

definition active_vb_idx :: "int \<Rightarrow> nat \<Rightarrow> nat \<Rightarrow> nat option" where
  \<comment> \<open>\<open>None\<close> leaves the loop\<close>
  "active_vb_idx nr num_active idx =
     (let nrc = non_repeater_count nr num_active; rc = num_active - nrc in
      if nrc = 0 then Some (idx mod num_active)
      else if idx < nrc then Some idx
      else if rc \<noteq> 0 then Some (nrc + (idx - nrc) mod rc)
      else None)"

record ('o, 'v) scan =
  sc_completed :: "bool list"
  sc_last :: "'o list"
  sc_valid :: "('o, 'v) response_vb list"
  sc_stop :: bool

definition out_of_scope :: "('o \<Rightarrow> 'o \<Rightarrow> bool) \<Rightarrow> bool \<Rightarrow> 'o \<Rightarrow> ('o, 'v) response_vb \<Rightarrow> bool" where
  "out_of_scope pre lexicographic initial vb =
     (let found_ending = (case snd vb of VNull \<Rightarrow> True | VEnd _ \<Rightarrow> True | VData _ \<Rightarrow> False);
          found_beyond = (\<not> lexicographic \<and> \<not> pre initial (fst vb));
          is_end_of_mib_val = (snd vb = VEnd True)
      in found_ending \<or> found_beyond \<or> is_end_of_mib_val)"

definition scan_entry ::
  "('o \<Rightarrow> 'o \<Rightarrow> bool) \<Rightarrow> bool \<Rightarrow> 'o list \<Rightarrow> nat \<Rightarrow> ('o, 'v) response_vb \<Rightarrow> ('o, 'v) scan \<Rightarrow> ('o, 'v) scan" where
  \<comment> \<open>the body of the loop once \<open>original_idx\<close> is known\<close>
  "scan_entry pre lexicographic initial i vb sc =
     (if sc_completed sc ! i then sc
      else if out_of_scope pre lexicographic (initial ! i) vb
      then sc\<lparr>sc_completed := (sc_completed sc)[i := True]\<rparr>
      else sc\<lparr>sc_valid := sc_valid sc @ [vb], sc_last := (sc_last sc)[i := fst vb], sc_stop := False\<rparr>)"

fun scan_table ::
  "('o \<Rightarrow> 'o \<Rightarrow> bool) \<Rightarrow> bool \<Rightarrow> 'o list \<Rightarrow> int \<Rightarrow> nat list \<Rightarrow> nat \<Rightarrow> ('o, 'v) response_vb list
     \<Rightarrow> ('o, 'v) scan \<Rightarrow> ('o, 'v) scan" where
  "scan_table pre lexi initial nr active idx [] sc = sc"
| "scan_table pre lexi initial nr active idx (vb # vbs) sc =
     (case active_vb_idx nr (length active) idx of
        None \<Rightarrow> sc
      | Some a \<Rightarrow> scan_table pre lexi initial nr active (Suc idx) vbs
                    (scan_entry pre lexi initial (active ! a) vb sc))"

section \<open>One turn of the loop\<close>

definition active_indices :: "'o walk_state \<Rightarrow> nat list" where
  "active_indices st = filter (\<lambda>i. \<not> ws_completed st ! i) [0..<length (ws_completed st)]"

definition limit_reps :: "walk_opts \<Rightarrow> 'o walk_state \<Rightarrow> 'o walk_state" where
  "limit_reps opts st =
     (if wo_max_rows opts \<noteq> 0 \<and> ws_rows st < wo_max_rows opts
      then st\<lparr>ws_reps := min (ws_reps st) (wo_max_rows opts - ws_rows st)\<rparr> else st)"

definition request_varbinds :: "'o walk_state \<Rightarrow> 'o list" where
  "request_varbinds st = map (\<lambda>i. ws_last st ! i) (active_indices st)"

text \<open>
  A turn yields a list of tuples and either ends the generator (\<open>None\<close>) or goes on to the
  yield of its results, with the state reached.
\<close>

type_synonym ('o, 'v) turn =
  "('o, 'v) reply list \<times> (('o, 'v) reply \<times> 'o walk_state) option"

definition take_results ::
  "('o \<Rightarrow> 'o \<Rightarrow> bool) \<Rightarrow> walk_opts \<Rightarrow> int \<Rightarrow> 'o walk_state \<Rightarrow> ('o, 'v) reply \<Rightarrow> ('o, 'v) turn" where
  \<comment> \<open>the branch without an error\<close>
  "take_results pre opts nr st rp =
     (if rp_table rp = [] then ([], None)
      else
        let sc = scan_table pre (wo_lexicographic opts) (ws_initial st) nr (active_indices st) 0
                   (rp_table rp)
                   \<lparr>sc_completed = ws_completed st, sc_last = ws_last st, sc_valid = [], sc_stop = True\<rparr>;
            total_rows = ws_rows st + int (length (sc_valid sc));
            st' = st\<lparr>ws_completed := sc_completed sc, ws_last := sc_last sc,
                     ws_rows := total_rows, ws_calls := ws_calls st + 1\<rparr>;
            ok = rp\<lparr>rp_table := sc_valid sc\<rparr>
        in if sc_stop sc then ((if sc_valid sc \<noteq> [] then [ok] else []), None)
           else if sc_valid sc = [] then ([], None)
           else if wo_max_rows opts \<noteq> 0 \<and> wo_max_rows opts < total_rows
           then (let keep = int (length (sc_valid sc)) - (total_rows - wo_max_rows opts) in
                 if 0 < keep
                 then ([], Some (ok\<lparr>rp_table := take (nat keep) (sc_valid sc)\<rparr>,
                                 st'\<lparr>ws_rows := wo_max_rows opts\<rparr>))
                 else ([], None))
           else ([], Some (ok, st')))"

definition take_reply ::
  "('o \<Rightarrow> 'o \<Rightarrow> bool) \<Rightarrow> walk_opts \<Rightarrow> int \<Rightarrow> 'o walk_state \<Rightarrow> ('o, 'v) reply \<Rightarrow> ('o, 'v) turn" where
  "take_reply pre opts nr st rp0 =
     (let rp = (if wo_ignore opts \<and> rp_ind rp0 = Some OidNotIncreasing
                then rp0\<lparr>rp_ind := None\<rparr> else rp0)
      in if rp_ind rp \<noteq> None
         then ([rp], if rp_ind rp \<noteq> Some RequestTimedOut then None
                     else Some (rp\<lparr>rp_table := []\<rparr>, st))
         else if rp_status rp \<noteq> 0
         then ([\<lparr>rp_ind = None,
                 rp_status = (if rp_status rp = 2 then 0 else rp_status rp),
                 rp_index = (if rp_status rp = 2 then 0 else rp_index rp),
                 rp_table = map (\<lambda>i. (ws_last st ! i, VNull)) (active_indices st)\<rparr>], None)
         else take_results pre opts nr st rp)"

definition restart :: "('o \<Rightarrow> 'o) \<Rightarrow> 'o list \<Rightarrow> 'o walk_state \<Rightarrow> 'o walk_state" where
  \<comment> \<open>the consumer sent new variables\<close>
  "restart mk vars st =
     (if vars = [] then st
      else st\<lparr>ws_initial := map mk vars, ws_completed := replicate (length vars) False,
              ws_last := vars\<rparr>)"

definition finished :: "walk_opts \<Rightarrow> 'o walk_state \<Rightarrow> bool" where
  "finished opts st \<longleftrightarrow>
     wo_max_rows opts \<noteq> 0 \<and> wo_max_rows opts \<le> ws_rows st \<or>
     wo_max_calls opts \<noteq> 0 \<and> wo_max_calls opts \<le> ws_calls st \<or>
     list_all id (ws_completed st)"

section \<open>The generator\<close>

datatype walk_end = WReturn | WRaise pyexn | WFuel

text \<open>
  \<open>has_vars\<close> tells whether the call was made with variables at all; without any, the loop
  yields empty tuples.  The fuel bounds the number of turns.
\<close>

fun walk ::
  "('o \<Rightarrow> 'o) \<Rightarrow> ('o \<Rightarrow> 'o \<Rightarrow> bool) \<Rightarrow> ('o, 'v) agent \<Rightarrow> (nat \<Rightarrow> 'o list) \<Rightarrow> walk_opts \<Rightarrow> int \<Rightarrow> bool
     \<Rightarrow> nat \<Rightarrow> nat \<Rightarrow> 'o walk_state \<Rightarrow> ('o, 'v) reply list \<times> walk_end" where
  "walk mk pre agent sent opts nr has_vars k 0 st = ([], WFuel)"
| "walk mk pre agent sent opts nr has_vars k (Suc fuel) st =
     (let st1 = (if has_vars then limit_reps opts st else st) in
      if has_vars \<and> active_indices st1 = [] then ([], WReturn)
      else case (if has_vars
                 then res_map (take_reply pre opts nr st1) (agent k nr (ws_reps st1) (request_varbinds st1))
                 else Inr ([], Some (\<lparr>rp_ind = None, rp_status = 0, rp_index = 0, rp_table = []\<rparr>, st1))) of
             Inl e \<Rightarrow> ([], WRaise e)
           | Inr (ys, None) \<Rightarrow> (ys, WReturn)
           | Inr (ys, Some (y, st2)) \<Rightarrow>
               (let st3 = restart mk (sent k) st2 in
                if finished opts st3 then (ys @ [y], WReturn)
                else (case walk mk pre agent sent opts nr has_vars (Suc k) fuel st3 of
                        (zs, r) \<Rightarrow> (ys @ y # zs, r))))"

definition multi_bulk_walk_cmd ::
  "('o \<Rightarrow> 'o) \<Rightarrow> ('o \<Rightarrow> 'o \<Rightarrow> bool) \<Rightarrow> ('o, 'v) agent \<Rightarrow> (nat \<Rightarrow> 'o list) \<Rightarrow> walk_opts
     \<Rightarrow> int \<Rightarrow> int \<Rightarrow> 'o list \<Rightarrow> nat \<Rightarrow> ('o, 'v) reply list \<times> walk_end" where
  "multi_bulk_walk_cmd mk pre agent sent opts nr reps vars fuel =
     walk mk pre agent sent opts nr (vars \<noteq> []) 0 fuel (walk_init mk reps vars)"

section \<open>The walk stays in scope\<close>

definition state_ok :: "'o walk_state \<Rightarrow> bool" where
  "state_ok st \<longleftrightarrow> length (ws_completed st) = length (ws_initial st) \<and>
                    length (ws_last st) = length (ws_initial st)"

lemma active_bound: "i \<in> set (active_indices st) \<Longrightarrow> i < length (ws_completed st)"
  by (simp add: active_indices_def)

lemma active_vb_idx_bound:
  assumes "active_vb_idx nr n idx = Some a" "0 < n"
  shows "a < n"
proof -
  let ?c = "non_repeater_count nr n"
  have c: "?c \<le> n" by (simp add: non_repeater_count_def)
  consider "?c = 0" | "?c \<noteq> 0" "idx < ?c" | "?c \<noteq> 0" "\<not> idx < ?c" "n - ?c \<noteq> 0"
    using assms(1) by (auto simp: active_vb_idx_def Let_def split: if_splits)
  then show ?thesis
  proof cases
    case 3
    have "(idx - ?c) mod (n - ?c) < n - ?c" using 3(3) by simp
    moreover have "a = ?c + (idx - ?c) mod (n - ?c)" using 3 assms(1) by (simp add: active_vb_idx_def Let_def)
    ultimately show ?thesis by linarith
  qed (use assms c in \<open>auto simp: active_vb_idx_def Let_def\<close>)
qed

lemma scan_table_lengths:
  "length (sc_completed (scan_table pre lexi initial nr active idx vbs sc)) = length (sc_completed sc)"
  "length (sc_last (scan_table pre lexi initial nr active idx vbs sc)) = length (sc_last sc)"
  by (induction pre lexi initial nr active idx vbs sc rule: scan_table.induct)
     (auto simp: scan_entry_def split: option.splits)

definition in_scope_of :: "('o \<Rightarrow> 'o \<Rightarrow> bool) \<Rightarrow> 'o list \<Rightarrow> ('o, 'v) response_vb \<Rightarrow> bool" where
  "in_scope_of pre roots vb \<longleftrightarrow> (\<exists>v. snd vb = VData v) \<and> (\<exists>r \<in> set roots. pre r (fst vb))"

lemma scan_entry_scope:
  assumes "\<not> lexi" "i < length initial" "\<forall>vb \<in> set (sc_valid sc). in_scope_of pre initial vb"
  shows "\<forall>vb \<in> set (sc_valid (scan_entry pre lexi initial i w sc)). in_scope_of pre initial vb"
proof -
  have "in_scope_of pre initial w" if "\<not> out_of_scope pre lexi (initial ! i) w"
    using that assms(1,2) by (cases "snd w") (auto simp: out_of_scope_def in_scope_of_def)
  then show ?thesis using assms(3) by (auto simp: scan_entry_def)
qed

lemma scan_table_scope:
  assumes "\<not> lexi" "active \<noteq> []" "\<And>i. i \<in> set active \<Longrightarrow> i < length initial"
    and "\<forall>vb \<in> set (sc_valid sc). in_scope_of pre initial vb"
  shows "\<forall>vb \<in> set (sc_valid (scan_table pre lexi initial nr active idx vbs sc)). in_scope_of pre initial vb"
  using assms
proof (induction pre lexi initial nr active idx vbs sc rule: scan_table.induct)
  case (2 pre lexi initial nr active idx w vbs sc)
  show ?case
  proof (cases "active_vb_idx nr (length active) idx")
    case (Some a)
    then have "active ! a < length initial"
      using active_vb_idx_bound "2.prems"(2,3) by (metis length_greater_0_conv nth_mem)
    then show ?thesis
      using "2.IH" [OF Some] "2.prems" Some scan_entry_scope [of lexi "active ! a" initial sc pre w] by simp
  qed (use 2 in simp)
qed simp

lemma limit_reps_fields [simp]:
  "ws_initial (limit_reps opts st) = ws_initial st" "ws_completed (limit_reps opts st) = ws_completed st"
  "ws_last (limit_reps opts st) = ws_last st" "ws_rows (limit_reps opts st) = ws_rows st"
  "ws_calls (limit_reps opts st) = ws_calls st"
  "active_indices (limit_reps opts st) = active_indices st"
  "state_ok (limit_reps opts st) = state_ok st"
  by (simp_all add: limit_reps_def active_indices_def state_ok_def)

definition reply_ok :: "('o \<Rightarrow> 'o \<Rightarrow> bool) \<Rightarrow> 'o list \<Rightarrow> ('o, 'v) reply \<Rightarrow> bool" where
  "reply_ok pre roots y \<longleftrightarrow>
     (rp_ind y = None \<longrightarrow> (\<forall>(n, v) \<in> set (rp_table y). v = VNull \<or> in_scope_of pre roots (n, v)))"

lemma take_results_scope:
  assumes "\<not> wo_lexicographic opts" "state_ok st" "active_indices st \<noteq> []"
    and "take_results pre opts nr st rp = (ys, nxt)"
  shows "(\<forall>y \<in> set ys. reply_ok pre (ws_initial st) y) \<and>
    (case nxt of None \<Rightarrow> True
     | Some (y, st') \<Rightarrow> reply_ok pre (ws_initial st) y \<and> state_ok st' \<and> ws_initial st' = ws_initial st)"
proof -
  define sc where "sc = scan_table pre (wo_lexicographic opts) (ws_initial st) nr (active_indices st) 0
     (rp_table rp) \<lparr>sc_completed = ws_completed st, sc_last = ws_last st, sc_valid = [], sc_stop = True\<rparr>"
  have "i < length (ws_initial st)" if "i \<in> set (active_indices st)" for i
    using active_bound [OF that] assms(2) by (simp add: state_ok_def)
  then have "\<forall>vb \<in> set (sc_valid sc). in_scope_of pre (ws_initial st) vb"
    unfolding sc_def by (intro scan_table_scope) (use assms in auto)
  then have v: "reply_ok pre (ws_initial st) y" if "set (rp_table y) \<subseteq> set (sc_valid sc)" for y
    using that by (auto simp: reply_ok_def)
  have l: "length (sc_completed sc) = length (ws_completed st)" "length (sc_last sc) = length (ws_last st)"
    by (simp_all add: sc_def scan_table_lengths)
  have tk: "set (take m (sc_valid sc)) \<subseteq> set (sc_valid sc)" for m by (rule set_take_subset)
  consider "nxt = None" "ys = []" | "nxt = None" "ys = [rp\<lparr>rp_table := sc_valid sc\<rparr>]"
    | vbs st' where "ys = []" "nxt = Some (rp\<lparr>rp_table := vbs\<rparr>, st')" "set vbs \<subseteq> set (sc_valid sc)"
        "ws_completed st' = sc_completed sc" "ws_last st' = sc_last sc" "ws_initial st' = ws_initial st"
    using assms(4) tk unfolding take_results_def sc_def [symmetric] Let_def
    by (fastforce split: if_splits)
  then show ?thesis
    using assms(2) l by cases (auto intro!: v simp: state_ok_def)
qed

lemma take_reply_scope:
  assumes "\<not> wo_lexicographic opts" "state_ok st" "active_indices st \<noteq> []"
    and "take_reply pre opts nr st rp = (ys, nxt)"
  shows "(\<forall>y \<in> set ys. reply_ok pre (ws_initial st) y) \<and>
    (case nxt of None \<Rightarrow> True
     | Some (y, st') \<Rightarrow> reply_ok pre (ws_initial st) y \<and> state_ok st' \<and> ws_initial st' = ws_initial st)"
proof -
  define rp' where "rp' = (if wo_ignore opts \<and> rp_ind rp = Some OidNotIncreasing
                then rp\<lparr>rp_ind := None\<rparr> else rp)"
  show ?thesis
  proof (cases "rp_ind rp' = None \<and> rp_status rp' = 0")
    case True
    then have "take_results pre opts nr st rp' = (ys, nxt)"
      using assms(4) by (simp add: take_reply_def rp'_def [symmetric] Let_def)
    then show ?thesis using take_results_scope assms(1-3) by blast
  next
    case False
    then show ?thesis using assms(2,4)
      by (auto simp: take_reply_def rp'_def [symmetric] Let_def reply_ok_def split: if_splits)
  qed
qed

text \<open>The ways one turn of the loop can go when there are variables and nothing is sent.\<close>

lemma walk_Suc:
  "walk mk pre agent (\<lambda>_. []) opts nr True k (Suc fuel) st =
     (if active_indices st = [] then ([], WReturn)
      else let st1 = limit_reps opts st in
        case agent k nr (ws_reps st1) (request_varbinds st1) of
          Inl e \<Rightarrow> ([], WRaise e)
        | Inr rp \<Rightarrow>
            (case take_reply pre opts nr st1 rp of
               (ys, None) \<Rightarrow> (ys, WReturn)
             | (ys, Some (y, st')) \<Rightarrow>
                 if finished opts st' then (ys @ [y], WReturn)
                 else (case walk mk pre agent (\<lambda>_. []) opts nr True (Suc k) fuel st' of
                         (zs, r) \<Rightarrow> (ys @ y # zs, r))))"
  by (simp add: Let_def restart_def split: sum.splits)

lemma walk_cases:
  assumes "walk mk pre agent (\<lambda>_. []) opts nr True k (Suc fuel) st = (ys, r)"
  obtains "active_indices st = []" "ys = []" "r = WReturn"
  | e where "active_indices st \<noteq> []" "ys = []" "r = WRaise e"
  | rp where "active_indices st \<noteq> []"
      "agent k nr (ws_reps (limit_reps opts st)) (request_varbinds (limit_reps opts st)) = Inr rp"
      "take_reply pre opts nr (limit_reps opts st) rp = (ys, None)" "r = WReturn"
  | rp zs y st' where "active_indices st \<noteq> []"
      "agent k nr (ws_reps (limit_reps opts st)) (request_varbinds (limit_reps opts st)) = Inr rp"
      "take_reply pre opts nr (limit_reps opts st) rp = (zs, Some (y, st'))"
      "finished opts st'" "ys = zs @ [y]" "r = WReturn"
  | rp zs y st' us where "active_indices st \<noteq> []"
      "agent k nr (ws_reps (limit_reps opts st)) (request_varbinds (limit_reps opts st)) = Inr rp"
      "take_reply pre opts nr (limit_reps opts st) rp = (zs, Some (y, st'))"
      "\<not> finished opts st'" "ys = zs @ y # us"
      "walk mk pre agent (\<lambda>_. []) opts nr True (Suc k) fuel st' = (us, r)"
  using assms unfolding walk_Suc Let_def
  by (auto split: if_splits sum.splits prod.splits option.splits)

lemma walk_scope:
  assumes "\<not> wo_lexicographic opts" "state_ok st"
    and "walk mk pre agent (\<lambda>_. []) opts nr True k fuel st = (ys, r)" "y \<in> set ys"
  shows "reply_ok pre (ws_initial st) y"
  using assms(2-)
proof (induction fuel arbitrary: k st ys r)
  case (Suc fuel)
  have sc: "(\<forall>y \<in> set zs. reply_ok pre (ws_initial st) y) \<and>
    (case nxt of None \<Rightarrow> True
     | Some (y, st') \<Rightarrow> reply_ok pre (ws_initial st) y \<and> state_ok st' \<and> ws_initial st' = ws_initial st)"
    if "take_reply pre opts nr (limit_reps opts st) rp = (zs, nxt)" "active_indices st \<noteq> []" for rp zs nxt
    using take_reply_scope [OF assms(1) _ _ that(1), unfolded limit_reps_fields] Suc.prems(1) that(2)
    by blast
  from Suc.prems(2) show ?case
  proof (cases rule: walk_cases)
    case (3 rp)
    then show ?thesis using sc Suc.prems(3) by blast
  next
    case (4 rp zs y' st')
    then show ?thesis using sc [OF 4(3,1)] Suc.prems(3) by auto
  next
    case (5 rp zs y' st' us)
    then show ?thesis using sc [OF 5(3,1)] Suc.prems(3) Suc.IH [OF _ 5(6)] by auto
  qed (use Suc.prems in auto)
qed simp

text \<open>
  C2.  With lexicographicMode off, every value that the walk delivers lies under one of the
  requested roots: a yielded tuple without an error carries only values whose name has a
  requested root as prefix, or the nulls of an answered noSuchName.
\<close>

theorem multi_bulk_walk_in_scope:
  assumes "\<not> wo_lexicographic opts" "vars \<noteq> []"
    and "multi_bulk_walk_cmd mk pre agent (\<lambda>_. []) opts nr reps vars fuel = (ys, r)"
    and "y \<in> set ys" "rp_ind y = None" "(n, VData v) \<in> set (rp_table y)"
  shows "\<exists>x \<in> set vars. pre (mk x) n"
proof -
  have "reply_ok pre (map mk vars) y"
    using walk_scope [of opts "walk_init mk reps vars" mk pre agent nr 0 fuel ys r y] assms
    by (simp add: multi_bulk_walk_cmd_def state_ok_def walk_init_def)
  then show ?thesis using assms(5,6) by (auto simp: reply_ok_def in_scope_of_def)
qed

definition sample_agent :: "(nat, nat) agent" where
  \<comment> \<open>answers every variable \<open>n\<close> below 13 with \<open>n + 1\<close>, and ends there\<close>
  "sample_agent k nr reps oids =
     Inr \<lparr>rp_ind = None, rp_status = 0, rp_index = 0,
          rp_table = map (\<lambda>n. (n + 1, if n < 13 then VData n else VEnd True)) oids\<rparr>"

definition sample_opts :: walk_opts where
  "sample_opts = \<lparr>wo_lexicographic = False, wo_ignore = False, wo_max_rows = 2, wo_max_calls = 0\<rparr>"

definition sample_pre :: "nat \<Rightarrow> nat \<Rightarrow> bool" where
  "sample_pre r n = (r div 5 = n div 5)"

theorem multi_bulk_walk_in_scope_witness:
  "\<exists>x \<in> set [10, 6]. sample_pre (id x) 11"
proof (rule multi_bulk_walk_in_scope)
  let ?w = "multi_bulk_walk_cmd id sample_pre sample_agent (\<lambda>_. []) sample_opts 0 10 [10, 6] 9"
  show "\<not> wo_lexicographic sample_opts" "[10, 6] \<noteq> ([] :: nat list)" by (simp_all add: sample_opts_def)
  show "?w = (fst ?w, snd ?w)" by simp
  show "hd (fst ?w) \<in> set (fst ?w)" "rp_ind (hd (fst ?w)) = None"
    "(11, VData 10) \<in> set (rp_table (hd (fst ?w)))" by code_simp+
qed

section \<open>The bound on the rows\<close>

definition data_rows :: "('o, 'v) reply \<Rightarrow> nat" where
  \<comment> \<open>the values that a yielded tuple delivers\<close>
  "data_rows y =
     (if rp_ind y = None
      then length (filter (\<lambda>vb. case snd vb of VData _ \<Rightarrow> True | _ \<Rightarrow> False) (rp_table y)) else 0)"

lemma data_rows_le: "data_rows y \<le> length (rp_table y)"
  by (simp add: data_rows_def)

lemma scan_table_stop:
  assumes "sc_stop sc \<longrightarrow> sc_valid sc = []"
    and "sc_stop (scan_table pre lexi initial nr active idx vbs sc)"
  shows "sc_valid (scan_table pre lexi initial nr active idx vbs sc) = []"
  using assms
  by (induction pre lexi initial nr active idx vbs sc rule: scan_table.induct)
     (auto simp: scan_entry_def split: option.splits if_splits)

lemma take_reply_rows:
  assumes "0 < wo_max_rows opts" "ws_rows st < wo_max_rows opts"
    and "take_reply pre opts nr st rp = (zs, nxt)"
  shows "sum_list (map data_rows zs) = 0 \<and>
    (case nxt of None \<Rightarrow> True
     | Some (y, st') \<Rightarrow> ws_rows st + int (data_rows y) \<le> ws_rows st' \<and> ws_rows st' \<le> wo_max_rows opts)"
proof -
  define rp' where "rp' = (if wo_ignore opts \<and> rp_ind rp = Some OidNotIncreasing
                then rp\<lparr>rp_ind := None\<rparr> else rp)"
  define sc where "sc = scan_table pre (wo_lexicographic opts) (ws_initial st) nr (active_indices st) 0
     (rp_table rp') \<lparr>sc_completed = ws_completed st, sc_last = ws_last st, sc_valid = [], sc_stop = True\<rparr>"
  have stop: "sc_stop sc \<Longrightarrow> sc_valid sc = []"
    unfolding sc_def by (rule scan_table_stop [rotated]) simp_all
  have le: "data_rows (rp'\<lparr>rp_table := vbs\<rparr>) \<le> length vbs" for vbs
    using data_rows_le [of "rp'\<lparr>rp_table := vbs\<rparr>"] by simp
  consider "rp_ind rp' \<noteq> None" | "rp_ind rp' = None" "rp_status rp' \<noteq> 0"
    | "rp_ind rp' = None" "rp_status rp' = 0" by blast
  then show ?thesis
  proof cases
    case 3
    then have t: "take_results pre opts nr st rp' = (zs, nxt)"
      using assms(3) by (simp add: take_reply_def rp'_def [symmetric] Let_def)
    show ?thesis
      using t assms(1,2) le [of "sc_valid sc"]
        le [of "take (nat (wo_max_rows opts - ws_rows st)) (sc_valid sc)"] stop
      unfolding take_results_def sc_def [symmetric] Let_def
      by (auto split: if_splits simp: algebra_simps)
  qed (use assms in \<open>auto simp: take_reply_def rp'_def [symmetric] Let_def data_rows_def comp_def split: if_splits\<close>)
qed

lemma walk_rows:
  assumes "0 < wo_max_rows opts" "ws_rows st < wo_max_rows opts"
    and "walk mk pre agent (\<lambda>_. []) opts nr True k fuel st = (ys, r)"
  shows "ws_rows st + int (sum_list (map data_rows ys)) \<le> wo_max_rows opts"
  using assms(2-)
proof (induction fuel arbitrary: k st ys r)
  case (Suc fuel)
  have sc: "sum_list (map data_rows zs) = 0 \<and>
    (case nxt of None \<Rightarrow> True
     | Some (y, st') \<Rightarrow> ws_rows st + int (data_rows y) \<le> ws_rows st' \<and> ws_rows st' \<le> wo_max_rows opts)"
    if "take_reply pre opts nr (limit_reps opts st) rp = (zs, nxt)" for rp zs nxt
    using take_reply_rows [OF assms(1) _ that, unfolded limit_reps_fields] Suc.prems(1) by blast
  from Suc.prems(2) show ?case
  proof (cases rule: walk_cases)
    case (3 rp)
    have "sum_list (map data_rows ys) = 0" using sc [OF 3(3)] by blast
    then show ?thesis using Suc.prems(1) by linarith
  next
    case (4 rp zs y' st')
    have "sum_list (map data_rows zs) = 0" "ws_rows st + int (data_rows y') \<le> wo_max_rows opts"
      using sc [OF 4(3)] by auto
    then show ?thesis unfolding 4(5) by (simp del: sum_list_eq_0_iff)
  next
    case (5 rp zs y' st' us)
    have "ws_rows st' < wo_max_rows opts"
      using 5(4) assms(1) by (auto simp: finished_def)
    then have "ws_rows st' + int (sum_list (map data_rows us)) \<le> wo_max_rows opts"
      using Suc.IH [OF _ 5(6)] by simp
    moreover have "sum_list (map data_rows zs) = 0" "ws_rows st + int (data_rows y') \<le> ws_rows st'"
      using sc [OF 5(3)] by auto
    ultimately show ?thesis unfolding 5(5) by (simp del: sum_list_eq_0_iff)
  qed (use Suc.prems in auto)
qed simp

text \<open>
  With a positive maxRows, the values that the walk delivers in all its tuples
  together never exceed it, whatever the agent answers.
\<close>

theorem multi_bulk_walk_max_rows:
  assumes "0 < wo_max_rows opts" "vars \<noteq> []"
    and "multi_bulk_walk_cmd mk pre agent (\<lambda>_. []) opts nr reps vars fuel = (ys, r)"
  shows "int (sum_list (map data_rows ys)) \<le> wo_max_rows opts"
  using walk_rows [of opts "walk_init mk reps vars" mk pre agent nr 0 fuel ys r] assms
  by (simp add: multi_bulk_walk_cmd_def walk_init_def)

theorem multi_bulk_walk_max_rows_witness:
  "int (sum_list (map data_rows
     (fst (multi_bulk_walk_cmd id sample_pre sample_agent (\<lambda>_. []) sample_opts 0 10 [10, 6] 9)))) \<le> 2"
  using multi_bulk_walk_max_rows [of sample_opts "[10, 6]" id sample_pre sample_agent 0 10 9]
  by (simp add: sample_opts_def prod_eq_iff)

section \<open>The walk ends\<close>

text \<open>
  An agent that answers each variable with growing names of a finite set: \<open>cur\<close> is the name
  reached so far for each variable of the request, and the entries of the flat response belong
  to the variables in turn.
\<close>

fun rising :: "'o::linorder set \<Rightarrow> nat \<Rightarrow> 'o list \<Rightarrow> ('o, 'v) response_vb list \<Rightarrow> bool" where
  "rising F idx cur [] = True"
| "rising F idx cur (vb # vbs) =
     (case snd vb of
        VData _ \<Rightarrow> cur ! (idx mod length cur) < fst vb \<and> fst vb \<in> F \<and>
                   rising F (Suc idx) (cur[idx mod length cur := fst vb]) vbs
      | _ \<Rightarrow> rising F (Suc idx) cur vbs)"

definition agent_rises :: "'o::linorder set \<Rightarrow> ('o, 'v) agent \<Rightarrow> bool" where
  "agent_rises F agent \<longleftrightarrow>
     (\<forall>k reps oids rp. agent k 0 reps oids = Inr rp \<longrightarrow>
        rp_ind rp \<noteq> Some RequestTimedOut \<and> rising F 0 oids (rp_table rp))"

definition left_to_walk :: "'o::linorder set \<Rightarrow> 'o list \<Rightarrow> nat" where
  "left_to_walk F last_oids = sum_list (map (\<lambda>n. card {x \<in> F. n < x}) last_oids)"

lemma left_to_walk_step:
  assumes "finite F" "i < length last_oids" "last_oids ! i < n" "n \<in> F"
  shows "left_to_walk F (last_oids[i := n]) < left_to_walk F last_oids"
proof -
  have "{x \<in> F. n < x} \<subset> {x \<in> F. last_oids ! i < x}" using assms(3,4) by auto
  then have lt: "card {x \<in> F. n < x} < card {x \<in> F. last_oids ! i < x}"
    using assms(1) by (intro psubset_card_mono) auto
  let ?ms = "map (\<lambda>n. card {x \<in> F. n < x}) last_oids"
  have "?ms ! i \<le> sum_list ?ms" using assms(2) by (intro elem_le_sum_list) simp
  then show ?thesis
    using lt assms(2) by (simp add: left_to_walk_def map_update sum_list_update)
qed

lemma scan_table_rises:
  assumes "finite F" "active \<noteq> []" "distinct active"
    and "length cur = length active" "\<And>i. i \<in> set active \<Longrightarrow> i < length (sc_last sc)"
    and "\<And>a. a < length active \<Longrightarrow> \<not> sc_completed sc ! (active ! a) \<Longrightarrow>
           sc_last sc ! (active ! a) = cur ! a"
    and "\<And>i. i \<in> set active \<Longrightarrow> i < length (sc_completed sc)"
    and "rising F idx cur vbs"
  shows "(let sc' = scan_table pre lexi initial 0 active idx vbs sc in
      left_to_walk F (sc_last sc') \<le> left_to_walk F (sc_last sc) \<and>
      (\<not> sc_stop sc' \<longrightarrow> \<not> sc_stop sc \<or> left_to_walk F (sc_last sc') < left_to_walk F (sc_last sc)))"
  using assms(4-)
proof (induction vbs arbitrary: idx cur sc)
  case Nil
  then show ?case by simp
next
  case (Cons vb vbs)
  define a where "a = idx mod length active"
  define i where "i = active ! a"
  have a: "a < length active" using assms(2) by (simp add: a_def)
  have idx: "active_vb_idx 0 (length active) idx = Some a"
    by (simp add: active_vb_idx_def non_repeater_count_def a_def)
  have i: "i < length (sc_last sc)" "i < length (sc_completed sc)"
    using Cons.prems(2,4) a by (simp_all add: i_def)
  have other: "active ! b = i \<longleftrightarrow> b = a" if "b < length active" for b
    using that a assms(3) by (simp add: i_def nth_eq_iff_index_eq)
  define sc1 where "sc1 = scan_entry pre lexi initial i vb sc"
  define cur1 where "cur1 = (case snd vb of VData _ \<Rightarrow> cur[a := fst vb] | _ \<Rightarrow> cur)"
  have ris: "rising F (Suc idx) cur1 vbs"
    using Cons.prems(1,5) by (auto simp: cur1_def a_def split: bval.splits)
  have new: "cur ! a < fst vb" "fst vb \<in> F" if "snd vb = VData v" for v
    using Cons.prems(1,5) that by (auto simp: a_def)
  have data: "\<exists>v. snd vb = VData v" if "\<not> out_of_scope pre lexi (initial ! i) vb"
    using that by (cases "snd vb") (auto simp: out_of_scope_def)
  consider "sc_completed sc ! i" "sc1 = sc"
    | "\<not> sc_completed sc ! i" "sc1 = sc\<lparr>sc_completed := (sc_completed sc)[i := True]\<rparr>"
    | v where "\<not> sc_completed sc ! i" "snd vb = VData v"
       "sc1 = sc\<lparr>sc_valid := sc_valid sc @ [vb], sc_last := (sc_last sc)[i := fst vb], sc_stop := False\<rparr>"
    using data by (cases "sc_completed sc ! i"; cases "out_of_scope pre lexi (initial ! i) vb")
      (auto simp: sc1_def scan_entry_def)
  then have step: "left_to_walk F (sc_last sc1) \<le> left_to_walk F (sc_last sc) \<and>
      (sc_stop sc1 = sc_stop sc \<or> left_to_walk F (sc_last sc1) < left_to_walk F (sc_last sc))"
    and cur: "\<And>b. b < length active \<Longrightarrow> \<not> sc_completed sc1 ! (active ! b) \<Longrightarrow>
           sc_last sc1 ! (active ! b) = cur1 ! b"
  proof (atomize (full), cases, goal_cases)
    case 1
    then show ?case using Cons.prems(1,3) a
      by (cases "snd vb") (simp_all add: cur1_def nth_list_update other i_def [symmetric])
  next
    case 2
    then show ?case using Cons.prems(1,3) a i
      by (cases "snd vb") (simp_all add: cur1_def nth_list_update other i_def [symmetric])
  next
    case (3 v)
    then have "left_to_walk F (sc_last sc1) < left_to_walk F (sc_last sc)"
      using left_to_walk_step [OF assms(1) i(1)] new Cons.prems(3) [OF a] by (simp add: i_def)
    then show ?case using 3 Cons.prems(1,3) a i
      by (auto simp: cur1_def nth_list_update other i_def [symmetric] dest: other [THEN iffD1, OF _ sym])
  qed
  have "let sc' = scan_table pre lexi initial 0 active (Suc idx) vbs sc1 in
      left_to_walk F (sc_last sc') \<le> left_to_walk F (sc_last sc1) \<and>
      (\<not> sc_stop sc' \<longrightarrow> \<not> sc_stop sc1 \<or> left_to_walk F (sc_last sc') < left_to_walk F (sc_last sc1))"
    using Cons.prems(1,2,4) cur ris
    by (intro Cons.IH) (auto simp: cur1_def sc1_def scan_entry_def split: bval.splits)
  then show ?case
    using step idx by (auto simp: Let_def i_def [symmetric] sc1_def [symmetric])
qed

lemma take_reply_rises:
  assumes "finite F" "state_ok st" "active_indices st \<noteq> []"
    and rp: "rp_ind rp \<noteq> Some RequestTimedOut" "rising F 0 (request_varbinds st) (rp_table rp)"
    and t: "take_reply pre opts 0 st rp = (zs, Some (y, st'))"
  shows "left_to_walk F (ws_last st') < left_to_walk F (ws_last st)" and "state_ok st'"
proof -
  define rp' where "rp' = (if wo_ignore opts \<and> rp_ind rp = Some OidNotIncreasing
                then rp\<lparr>rp_ind := None\<rparr> else rp)"
  define sc where "sc = scan_table pre (wo_lexicographic opts) (ws_initial st) 0 (active_indices st) 0
     (rp_table rp') \<lparr>sc_completed = ws_completed st, sc_last = ws_last st, sc_valid = [], sc_stop = True\<rparr>"
  define sc0 :: "('a, 'b) scan" where
    "sc0 = \<lparr>sc_completed = ws_completed st, sc_last = ws_last st, sc_valid = [], sc_stop = True\<rparr>"
  have tr: "take_results pre opts 0 st rp' = (zs, Some (y, st'))"
    using t rp(1) by (auto simp: take_reply_def rp'_def Let_def split: if_splits)
  then have st': "ws_last st' = sc_last sc" "ws_completed st' = sc_completed sc"
      "ws_initial st' = ws_initial st" "\<not> sc_stop sc"
    unfolding take_results_def sc_def [symmetric] Let_def by (auto split: if_splits)
  show "state_ok st'"
    using assms(2) st' by (simp add: state_ok_def sc_def scan_table_lengths)
  have "rp_table rp' = rp_table rp" by (simp add: rp'_def)
  then have "rising F 0 (request_varbinds st) (rp_table rp')" using rp(2) by simp
  then have "let sc' = sc in left_to_walk F (sc_last sc') \<le> left_to_walk F (sc_last sc0) \<and>
      (\<not> sc_stop sc' \<longrightarrow> \<not> sc_stop sc0 \<or> left_to_walk F (sc_last sc') < left_to_walk F (sc_last sc0))"
    unfolding sc_def sc0_def [symmetric]
  proof (rule scan_table_rises [OF assms(1,3), rotated 5])
    show "distinct (active_indices st)" by (simp add: active_indices_def)
  next
    fix i
    assume "i \<in> set (active_indices st)"
    then show "i < length (sc_last sc0)" "i < length (sc_completed sc0)"
      using active_bound [of i st] assms(2) by (simp_all add: sc0_def state_ok_def)
  qed (simp_all add: sc0_def request_varbinds_def)
  then show "left_to_walk F (ws_last st') < left_to_walk F (ws_last st)"
    using st' by (simp add: Let_def sc0_def)
qed

lemma walk_ends:
  assumes "finite F" "agent_rises F agent" "state_ok st" "left_to_walk F (ws_last st) < fuel"
  shows "snd (walk mk pre agent (\<lambda>_. []) opts 0 True k fuel st) \<noteq> WFuel"
  using assms(3,4)
proof (induction fuel arbitrary: k st)
  case (Suc fuel)
  obtain ys r where w: "walk mk pre agent (\<lambda>_. []) opts 0 True k (Suc fuel) st = (ys, r)" by fastforce
  from w show ?case
  proof (cases rule: walk_cases)
    case (5 rp zs y st' us)
    let ?st1 = "limit_reps opts st"
    have rp: "rp_ind rp \<noteq> Some RequestTimedOut" "rising F 0 (request_varbinds ?st1) (rp_table rp)"
      using assms(2) 5(2) unfolding agent_rises_def by blast+
    have "left_to_walk F (ws_last st') < left_to_walk F (ws_last st)" "state_ok st'"
      using take_reply_rises [OF assms(1) _ _ rp 5(3)] Suc.prems(1) 5(1) by simp_all
    then have "snd (walk mk pre agent (\<lambda>_. []) opts 0 True (Suc k) fuel st') \<noteq> WFuel"
      using Suc.IH Suc.prems(2) by simp
    then show ?thesis using w 5(6) by simp
  qed (use w in simp_all)
qed simp

text \<open>
  C3.  Against an agent that answers with growing names of a finite set and never times out,
  the walk ends: as many turns as there are names, for each requested variable, and one more
  always suffice.
\<close>

theorem multi_bulk_walk_ends:
  assumes "finite F" "agent_rises F agent" "vars \<noteq> []" "length vars * card F < fuel"
  shows "snd (multi_bulk_walk_cmd mk pre agent (\<lambda>_. []) opts 0 reps vars fuel) \<noteq> WFuel"
proof -
  have "left_to_walk F vars \<le> length vars * card F"
    unfolding left_to_walk_def
    by (rule order_trans [OF sum_list_mono [of _ _ "\<lambda>_. card F"]])
       (use assms(1) in \<open>auto intro!: card_mono simp: sum_list_triv\<close>)
  then show ?thesis
    using walk_ends [OF assms(1,2), of "walk_init mk reps vars" fuel] assms(3,4)
    by (simp add: multi_bulk_walk_cmd_def walk_init_def state_ok_def)
qed

lemma sample_agent_rises: "agent_rises {..13} sample_agent"
proof -
  have "rising {..13} i cur (map (\<lambda>n. (n + 1, if n < 13 then VData n else VEnd True)) vs)"
    if "i + length vs = length cur" "vs = drop i cur" for i and cur vs :: "nat list"
    using that
  proof (induction vs arbitrary: i cur)
    case (Cons v vs)
    have lt: "i < length cur" using Cons.prems(1) by simp
    then have v: "cur ! i = v" "vs = drop (Suc i) cur"
      using Cons.prems(2) by (simp_all add: Cons_nth_drop_Suc [symmetric])
    have "rising {..13} (Suc i) cur' (map (\<lambda>n. (n + 1, if n < 13 then VData n else VEnd True)) vs)"
      if "cur' = cur \<or> cur' = cur[i := v + 1]" for cur'
      by (rule Cons.IH) (use that Cons.prems(1) v(2) in \<open>auto simp: drop_update_cancel\<close>)
    then show ?case using lt v(1) by simp
  qed simp
  from this [of 0] show ?thesis by (simp add: agent_rises_def sample_agent_def)
qed

theorem multi_bulk_walk_ends_witness:
  "snd (multi_bulk_walk_cmd id sample_pre sample_agent (\<lambda>_. []) sample_opts 0 10 [10, 6] 29) \<noteq> WFuel"
  by (rule multi_bulk_walk_ends [of "{..13}"]) (simp_all add: sample_agent_rises)

end
