(* ===== verification/SnmpData.thy ===== *)
theory SnmpData
  imports Varbinds BulkWalk
begin

text \<open>
  From SNMP responses to metrics: the module-level helpers of
  \<^verbatim>\<open>splunk_connect_for_snmp/snmp/manager.py\<close> and the methods of \<open>Poller\<close> that turn a table of
  varbinds into metric groups.

  A varbind is the record of what the code observes of the two pysnmp objects it consists of:
  the results of the accessors it calls.  A byte string is a list of characters; text beyond
  ASCII is written as its UTF-8 bytes, so decoding is a check of well-formedness.
\<close>

section \<open>What pysnmp delivers\<close>

text \<open>The components of a tuple that is an index value, and the index values themselves.\<close>

record ixelem =
  ie_type :: string              \<comment> \<open>\<open>type(e).__name__\<close>\<close>
  ie_value :: "string option"    \<comment> \<open>\<open>str(e._value)\<close>, where there is one\<close>
  ie_text :: string              \<comment> \<open>\<open>str(e)\<close>\<close>
  ie_obj :: pyval                \<comment> \<open>the object itself, as it is stored\<close>

datatype ixval =
    IxTuple "ixelem list"
  | IxBytes string
  | IxInt int
  | IxObjectName string pyval    \<comment> \<open>its text, and the object as it is stored\<close>
  | IxOther string string pyval  \<comment> \<open>the name of its type, its text and the object\<close>

record ixobj =
  ix_value :: ixval              \<comment> \<open>\<open>_value\<close>\<close>
  ix_list :: "pyval list"        \<comment> \<open>\<open>list(index)\<close>\<close>

record snmp_vb =
  sv_oid :: string
  sv_id :: string                \<comment> \<open>\<open>prettyPrint()\<close> of the name\<close>
  sv_mib :: string
  sv_metric :: string
  sv_index :: "ixobj list"
  sv_type :: string              \<comment> \<open>the name of the value's type\<close>
  sv_float :: "pyexn option"     \<comment> \<open>what \<open>float(value)\<close> raises\<close>
  sv_pretty :: string            \<comment> \<open>\<open>prettyPrint()\<close> of the value\<close>
  sv_now :: pyfloat              \<comment> \<open>the clock when the value is recorded\<close>

section \<open>Addresses and failures\<close>

definition return_address_and_port :: "string \<Rightarrow> (string \<times> int) result" where
  "return_address_and_port target =
     (case str_rcut (CHR '':'') target of
        None \<Rightarrow> Inr (target, 161)
      | Some (a, p) \<Rightarrow> res_map (\<lambda>i. (a, i)) (parse_int p))"

definition is_increasing_oids_ignored :: "string list \<Rightarrow> string \<Rightarrow> int \<Rightarrow> bool" where
  \<comment> \<open>the first argument is \<open>HOSTS_TO_IGNORE_NOT_INCREASING_OIDS\<close>\<close>
  "is_increasing_oids_ignored hosts host port =
     (host \<in> set hosts \<or> host @ '':'' @ str_of_int port \<in> set hosts)"

definition any_failure_happened :: "bool \<Rightarrow> errind option \<Rightarrow> int \<Rightarrow> int \<Rightarrow> nat \<Rightarrow> bool result" where
  \<comment> \<open>\<open>IGNORE_EMPTY_VARBINDS\<close>; the last argument is the number of varbinds, which the message
      of a status error indexes\<close>
  "any_failure_happened ignore_empty ind status index n =
     (case ind of
        Some e \<Rightarrow> if e = EmptyResponse \<and> ignore_empty then Inr False else Inl SnmpActionError
      | None \<Rightarrow>
          if status \<noteq> 0
          then (if index \<noteq> 0 \<and> (int n < index \<or> index - 1 < - int n) then Inl IndexError
                else Inl SnmpActionError)
          else Inr False)"

definition is_mib_resolved :: "string \<Rightarrow> bool" where
  "is_mib_resolved i =
     (\<not> (str_startswith i ''RFC1213-MIB::'' \<or> str_startswith i ''SNMPv2-SMI::enterprises.''
         \<or> str_startswith i ''SNMPv2-SMI::mib-2''))"

section \<open>Group keys and indexes\<close>

definition ixval_type :: "ixval \<Rightarrow> string" where
  "ixval_type v =
     (case v of IxTuple _ \<Rightarrow> ''tuple'' | IxBytes _ \<Rightarrow> ''bytes'' | IxInt _ \<Rightarrow> ''int''
      | IxObjectName _ _ \<Rightarrow> ''ObjectName'' | IxOther t _ _ \<Rightarrow> t)"

definition hex_digit :: "nat \<Rightarrow> char" where
  "hex_digit n = (if n < 10 then digit_char n else char_of (87 + n))"

definition bytes_repr :: "string \<Rightarrow> string" where
  \<comment> \<open>\<open>str(b)\<close> of a bytes object\<close>
  "bytes_repr s =
     (let q = (if CHR 0x27 \<in> set s \<and> CHR 0x22 \<notin> set s then CHR 0x22 else CHR 0x27);
          esc = (\<lambda>c. let n = (of_char c :: nat) in
             if c = CHR 0x5C then [CHR 0x5C, CHR 0x5C]
             else if c = q then [CHR 0x5C, q]
             else if c = CHR 0x09 then [CHR 0x5C, CHR ''t'']
             else if c = CHR 0x0A then [CHR 0x5C, CHR ''n'']
             else if c = CHR 0x0D then [CHR 0x5C, CHR ''r'']
             else if n < 32 \<or> 127 \<le> n then [CHR 0x5C, CHR ''x'', hex_digit (n div 16), hex_digit (n mod 16)]
             else [c])
      in CHR ''b'' # q # concat (map esc s) @ [q])"

definition ixval_text :: "ixval \<Rightarrow> string" where
  "ixval_text v =
     (case v of IxTuple _ \<Rightarrow> [] | IxBytes s \<Rightarrow> bytes_repr s | IxInt i \<Rightarrow> str_of_int i
      | IxObjectName s _ \<Rightarrow> s | IxOther _ s _ \<Rightarrow> s)"

definition group_key_part :: "string \<Rightarrow> ixobj \<Rightarrow> string" where
  "group_key_part oid iv =
     (let ivt = ixval_type (ix_value iv) in
      if ivt = ''ObjectName'' then ivt @ ''='' @ oid
      else (case ix_value iv of
              IxTuple es \<Rightarrow>
                ivt @ ''='' @ str_join ''|''
                  (map (\<lambda>e. ie_type e @ ''='' @ (case ie_value e of Some s \<Rightarrow> s | None \<Rightarrow> ie_text e)) es)
            | v \<Rightarrow> ivt @ ''='' @ ixval_text v))"

definition get_group_key :: "string \<Rightarrow> string \<Rightarrow> ixobj list \<Rightarrow> string" where
  "get_group_key mib oid index = mib @ ''::'' @ str_join '';'' (map (group_key_part oid) index)"

definition ixval_obj :: "ixval \<Rightarrow> pyval" where
  "ixval_obj v =
     (case v of IxTuple es \<Rightarrow> PTuple (map ie_obj es) | IxBytes s \<Rightarrow> PBytes s | IxInt i \<Rightarrow> PInt i
      | IxObjectName _ p \<Rightarrow> p | IxOther _ _ p \<Rightarrow> p)"

definition extract_index_number :: "ixobj list \<Rightarrow> pyval" where
  "extract_index_number index =
     (case index of
        [] \<Rightarrow> PInt 0
      | ix # _ \<Rightarrow>
          (case ix_value ix of
             IxTuple es \<Rightarrow> (case es of [] \<Rightarrow> PInt 0 | e # _ \<Rightarrow> ie_obj e)
           | v \<Rightarrow> ixval_obj v))"

definition extract_indexes :: "ixobj list \<Rightarrow> pyval list" where
  "extract_indexes index =
     (if index = [] then [PInt 0]
      else concat (map (\<lambda>ix. case ix_value ix of
             IxBytes s \<Rightarrow> [PStr (str_join ''.'' (map (\<lambda>b. str_of_int (of_char b)) s))]
           | IxTuple _ \<Rightarrow> ix_list ix
           | v \<Rightarrow> [ixval_obj v]) index))"

section \<open>Values\<close>

definition MTYPES_CC :: "string list" where
  "MTYPES_CC = [''Counter32'', ''Counter64'', ''TimeTicks'', ''CounterBasedGauge64'',
                ''ZeroBasedCounter64'', ''TimeStamp'']"

definition MTYPES_G :: "string list" where
  "MTYPES_G = [''Gauge32'', ''Gauge64'', ''Integer'', ''Integer32'', ''Unsigned32'', ''Unsigned64'',
               ''TimeInterval'', ''TestAndIncr'', ''ZeroBasedCounter32'']"

definition MTYPES_R :: "string list" where
  "MTYPES_R = [''ObjectIdentifier'', ''ObjectIdentity'']"

definition MTYPES :: "string list" where
  "MTYPES = [''cc'', ''c'', ''g'']"

definition value_as_best :: "string \<Rightarrow> pyval" where
  "value_as_best s = (case parse_float s of Inr f \<Rightarrow> PFloat f | Inl _ \<Rightarrow> PStr s)"

definition map_metric_type :: "string \<Rightarrow> pyexn option \<Rightarrow> string result" where
  \<comment> \<open>the second argument is what \<open>float(snmp_value)\<close> raises\<close>
  "map_metric_type t float_exn =
     (let metric_type = (if t \<in> set MTYPES_CC then ''cc'' else if t \<in> set MTYPES_G then ''g''
                         else if t \<in> set MTYPES_R then ''r'' else ''f'')
      in if metric_type \<in> set MTYPES
         then (case float_exn of
                 None \<Rightarrow> Inr metric_type
               | Some ValueError \<Rightarrow> Inr ''te''
               | Some UnicodeDecodeError \<Rightarrow> Inr ''te''
               | Some e \<Rightarrow> Inl e)
         else Inr metric_type)"

text \<open>Well-formed UTF-8: the table of the Unicode standard.\<close>

fun utf8_ok :: "nat list \<Rightarrow> bool" where
  "utf8_ok [] = True"
| "utf8_ok (a # s) =
     (if a < 128 then utf8_ok s
      else if 194 \<le> a \<and> a \<le> 223 then
        (case s of b # t \<Rightarrow> 128 \<le> b \<and> b \<le> 191 \<and> utf8_ok t | _ \<Rightarrow> False)
      else if 224 \<le> a \<and> a \<le> 239 then
        (case s of b # c # t \<Rightarrow>
           (if a = 224 then 160 else 128) \<le> b \<and> b \<le> (if a = 237 then 159 else 191) \<and>
           128 \<le> c \<and> c \<le> 191 \<and> utf8_ok t | _ \<Rightarrow> False)
      else if 240 \<le> a \<and> a \<le> 244 then
        (case s of b # c # d # t \<Rightarrow>
           (if a = 240 then 144 else 128) \<le> b \<and> b \<le> (if a = 244 then 143 else 191) \<and>
           128 \<le> c \<and> c \<le> 191 \<and> 128 \<le> d \<and> d \<le> 191 \<and> utf8_ok t | _ \<Rightarrow> False)
      else False)"

definition bytes_utf8 :: "string \<Rightarrow> string result" where
  \<comment> \<open>\<open>str(b, "utf-8")\<close>\<close>
  "bytes_utf8 s = (if utf8_ok (map of_char s) then Inr s else Inl UnicodeDecodeError)"

definition fill_empty_value :: "pyval \<Rightarrow> pyval \<Rightarrow> pyval" where
  "fill_empty_value index_number metric_value =
     (if metric_value = PNone \<or> metric_value = PStr []
      then (case index_number of
              PBytes s \<Rightarrow> (case bytes_utf8 s of Inr t \<Rightarrow> PStr t | Inl _ \<Rightarrow> PStr ''sc4snmp:unconvertable'')
            | v \<Rightarrow> v)
      else metric_value)"

section \<open>Trap values\<close>

text \<open>
  The value of a trap varbind: whether it is an \<open>IpAddress\<close>, its \<open>prettyPrint()\<close> where it has
  one, and its octets or the exception that reading them raises.  The text of an IPv6 address
  (\<open>str(ipaddress.IPv6Address(octets))\<close>) is written out by \<open>ipv6_text\<close>.
\<close>

record trap_value =
  tv_is_ip :: bool
  tv_pretty :: "string option"
  tv_octets :: "string result"

definition looks_like_raw_address :: "string \<Rightarrow> bool" where
  "looks_like_raw_address octets =
     (length octets \<in> {4, 16} \<and>
      list_ex (\<lambda>b. let n = (of_char b :: nat) in \<not> (32 \<le> n \<and> n < 127)) octets)"

definition ipv4_text :: "string \<Rightarrow> string" where
  "ipv4_text octets = str_join ''.'' (map (\<lambda>b. str_of_int (of_char b)) octets)"

fun hex_nat :: "nat \<Rightarrow> string" where
  "hex_nat n = (if n < 16 then [hex_digit n] else hex_nat (n div 16) @ [hex_digit (n mod 16)])"

declare hex_nat.simps [simp del]

fun hextets :: "string \<Rightarrow> nat list" where
  "hextets (a # b # s) = (of_char a * 256 + of_char b) # hextets s"
| "hextets _ = []"

text \<open>
  \<open>_compress_hextets\<close>: the leftmost longest run of at least two zero hextets, as its start and
  length, is written as two colons.
\<close>

fun zero_run :: "nat list \<Rightarrow> nat" where
  "zero_run (0 # s) = Suc (zero_run s)"
| "zero_run _ = 0"

fun best_zero_run :: "nat \<Rightarrow> nat list \<Rightarrow> nat \<times> nat" where
  \<comment> \<open>start and length\<close>
  "best_zero_run i [] = (0, 0)"
| "best_zero_run i (h # s) =
     (case best_zero_run (Suc i) s of (j, n) \<Rightarrow>
        if n \<le> zero_run (h # s) then (i, zero_run (h # s)) else (j, n))"

definition ipv6_text :: "string \<Rightarrow> string" where
  \<comment> \<open>from Python 3.13 on, a mapped IPv4 address keeps its dotted form\<close>
  "ipv6_text octets =
     (let hs = hextets octets in
      if take 6 hs = [0, 0, 0, 0, 0, 65535] then ''::ffff:'' @ ipv4_text (drop 12 octets)
      else
      case best_zero_run 0 hs of (i, n) \<Rightarrow>
        if 1 < n
        then str_join '':'' (map hex_nat (take i hs)) @ ''::'' @ str_join '':'' (map hex_nat (drop (i + n) hs))
        else str_join '':'' (map hex_nat hs))"

definition bytes_hex :: "string \<Rightarrow> string" where
  "bytes_hex s = concat (map (\<lambda>b. let n = (of_char b :: nat) in [hex_digit (n div 16), hex_digit (n mod 16)]) s)"

definition format_trap_varbind_value :: "trap_value \<Rightarrow> string result" where
  "format_trap_varbind_value val =
     (let displayed = tv_pretty val;
          shown = (case displayed of None \<Rightarrow> [] | Some s \<Rightarrow> s)
      in if tv_is_ip val then (case displayed of None \<Rightarrow> Inl AttributeError | Some s \<Rightarrow> Inr s)
         else (case tv_octets val of
                 Inl e \<Rightarrow> if e \<in> {AttributeError, TypeError, ValueError, UnicodeDecodeError}
                          then Inr shown else Inl e
               | Inr octets \<Rightarrow>
                   if looks_like_raw_address octets
                   then Inr (if length octets = 4 then ipv4_text octets else ipv6_text octets)
                   else if (displayed = None \<or> displayed = Some []) \<and> octets \<noteq> []
                   then Inr (''0x'' @ bytes_hex octets)
                   else Inr shown))"

section \<open>Metric groups\<close>

record metric =
  m_time :: pyfloat
  m_type :: string
  m_value :: pyval
  m_oid :: string

record metric_group =
  g_metrics :: "(string, metric) dict"
  g_fields :: "(string, metric) dict"
  g_indexes :: "pyval list"
  g_profiles :: "string list option"     \<comment> \<open>\<open>None\<close>: there is no such key\<close>

type_synonym metrics = "(string, metric_group) dict"
type_synonym mapping = "(string, string) dict"

definition handle_groupkey_without_metrics ::
  "string \<Rightarrow> ixobj list \<Rightarrow> mapping \<Rightarrow> metrics \<Rightarrow> metrics" where
  "handle_groupkey_without_metrics group_key index mapping metrics =
     (if dict_has metrics group_key then metrics
      else dict_set group_key
             \<lparr>g_metrics = [], g_fields = [], g_indexes = extract_indexes index,
              g_profiles = (if mapping \<noteq> [] then Some [] else None)\<rparr> metrics)"

definition set_metrics_index :: "snmp_vb \<Rightarrow> (string \<times> pyval) result" where
  "set_metrics_index vb =
     res_map (\<lambda>metric_type.
        (metric_type,
         fill_empty_value (extract_index_number (sv_index vb)) (value_as_best (sv_pretty vb))))
       (map_metric_type (sv_type vb) (sv_float vb))"

definition match_mapping_to_profile :: "mapping \<Rightarrow> string \<Rightarrow> string option \<Rightarrow> string option" where
  "match_mapping_to_profile mapping mib profile =
     (if profile = None \<or> profile = Some []
      then (case filter (\<lambda>(mib_map, prof). str_contains mib_map mib) mapping of
              [] \<Rightarrow> profile
            | (_, prof) # _ \<Rightarrow> Some prof)
      else profile)"

definition clean_profile_name :: "string option \<Rightarrow> string option" where
  "clean_profile_name profile =
     (case profile of
        None \<Rightarrow> None
      | Some p \<Rightarrow> if p \<noteq> [] \<and> str_contains p ''__'' then Some (hd (str_split ''__'' p)) else Some p)"

definition set_profile_name :: "mapping \<Rightarrow> string \<Rightarrow> string \<Rightarrow> string \<Rightarrow> string option" where
  "set_profile_name mapping metric mib varbind_id =
     (if mapping \<noteq> []
      then clean_profile_name (match_mapping_to_profile mapping mib
             (case dict_get mapping (filter (\<lambda>c. c \<noteq> CHR 0x22) varbind_id) of
                Some p \<Rightarrow> Some p
              | None \<Rightarrow> (case dict_get mapping (mib @ ''::'' @ metric) of
                           Some p \<Rightarrow> Some p
                         | None \<Rightarrow> dict_get mapping mib)))
      else None)"

definition handle_metrics ::
  "string \<Rightarrow> string \<Rightarrow> string \<Rightarrow> pyval \<Rightarrow> metrics \<Rightarrow> string \<Rightarrow> string \<Rightarrow> string option \<Rightarrow> pyfloat
     \<Rightarrow> metrics \<times> pyexn option" where
  "handle_metrics group_key metric metric_type metric_value metrics mib oid profile now =
     (case dict_get metrics group_key of
        None \<Rightarrow> (metrics, Some KeyError)
      | Some g \<Rightarrow>
          (let m = \<lparr>m_time = now, m_type = metric_type, m_value = metric_value, m_oid = oid\<rparr>;
               name = mib @ ''.'' @ metric
           in if metric_type \<in> set MTYPES \<and> (case metric_value of PFloat _ \<Rightarrow> True | _ \<Rightarrow> False)
              then (let g1 = g\<lparr>g_metrics := dict_set name m (g_metrics g)\<rparr> in
                    case profile of
                      None \<Rightarrow> (dict_set group_key g1 metrics, None)
                    | Some p \<Rightarrow>
                        if p = [] then (dict_set group_key g1 metrics, None)
                        else (case g_profiles g1 of
                                None \<Rightarrow> (dict_set group_key g1 metrics, Some KeyError)
                              | Some ps \<Rightarrow>
                                  (dict_set group_key
                                     (if p \<in> set ps then g1 else g1\<lparr>g_profiles := Some (ps @ [p])\<rparr>)
                                     metrics, None)))
              else (dict_set group_key (g\<lparr>g_fields := dict_set name m (g_fields g)\<rparr>) metrics, None)))"

text \<open>
  The body of the loop for a resolved varbind.  Every exception of the inner block is logged
  and swallowed, so only the metrics reached remain.
\<close>

definition process_resolved :: "mapping \<Rightarrow> snmp_vb \<Rightarrow> metrics \<Rightarrow> metrics" where
  "process_resolved mapping vb metrics =
     (let group_key = get_group_key (sv_mib vb) (sv_oid vb) (sv_index vb);
          metrics1 = handle_groupkey_without_metrics group_key (sv_index vb) mapping metrics
      in case set_metrics_index vb of
           Inl _ \<Rightarrow> metrics1
         | Inr (metric_type, metric_value) \<Rightarrow>
             if metric_value = PStr ''No more variables left in this MIB View'' then metrics1
             else fst (handle_metrics group_key (sv_metric vb) metric_type metric_value metrics1
                         (sv_mib vb) (sv_oid vb)
                         (set_profile_name mapping (sv_metric vb) (sv_mib vb) (sv_id vb)) (sv_now vb)))"

section \<open>Finding the MIB of an unresolved name\<close>

fun search_mib :: "(string, string) dict \<Rightarrow> string list \<Rightarrow> nat \<Rightarrow> nat \<Rightarrow> string option" where
  \<comment> \<open>the loop over the lengths \<open>i\<close>, \<open>i - 1\<close>, \dots down to, and without, \<open>start\<close>\<close>
  "search_mib mib_map oid_list start 0 = None"
| "search_mib mib_map oid_list start (Suc i) =
     (if Suc i \<le> start then None
      else (case dict_get mib_map (str_join ''.'' (take (Suc i) oid_list)) of
              Some mib \<Rightarrow> Some mib
            | None \<Rightarrow> search_mib mib_map oid_list start i))"

definition is_mib_known :: "(string, string) dict \<Rightarrow> string \<Rightarrow> bool \<times> string" where
  "is_mib_known mib_map oid =
     (let oid_list = str_split ''.'' oid;
          start = (if str_startswith oid ''1.3.6.1.4.1'' then 6 else 5)
      in case search_mib mib_map oid_list start (length oid_list) of
           Some mib \<Rightarrow> (True, mib)
         | None \<Rightarrow> (False, ''''))"

definition find_new_mibs :: "(string, string) dict \<Rightarrow> string \<Rightarrow> string list \<Rightarrow> bool \<times> string list" where
  "find_new_mibs mib_map oid remotemibs =
     (case is_mib_known mib_map oid of (found, mib) \<Rightarrow>
        (found, if mib \<noteq> [] \<and> mib \<notin> set remotemibs then remotemibs @ [mib] else remotemibs))"

fun process_snmp_data ::
  "(string, string) dict \<Rightarrow> mapping \<Rightarrow> snmp_vb list \<Rightarrow> string list \<Rightarrow> metrics
     \<Rightarrow> bool \<times> string list \<times> metrics" where
  \<comment> \<open>the retry flag, the MIBs to load and the metrics\<close>
  "process_snmp_data mib_map mapping [] remotemibs metrics = (False, remotemibs, metrics)"
| "process_snmp_data mib_map mapping (vb # vbs) remotemibs metrics =
     (if is_mib_resolved (sv_id vb)
      then process_snmp_data mib_map mapping vbs remotemibs (process_resolved mapping vb metrics)
      else (case find_new_mibs mib_map (sv_oid vb) remotemibs of
              (True, remotemibs') \<Rightarrow> (True, remotemibs', metrics)
            | (False, remotemibs') \<Rightarrow> process_snmp_data mib_map mapping vbs remotemibs' metrics))"

section \<open>Properties of the lookups\<close>

lemma search_mib_longest:
  "search_mib mib_map oid_list start n =
     (case filter (\<lambda>i. start < i \<and> dict_has mib_map (str_join ''.'' (take i oid_list))) (rev [0..<Suc n]) of
        [] \<Rightarrow> None
      | i # _ \<Rightarrow> dict_get mib_map (str_join ''.'' (take i oid_list)))"
proof (induction n)
  case (Suc n)
  have "filter (\<lambda>i. start < i \<and> P i) (rev [0..<Suc n]) = []" if "Suc n \<le> start" for P
    using that by (auto simp: filter_empty_conv)
  with Suc show ?case by (auto simp: dict_has_def split: option.splits)
qed simp

text \<open>
  C17.  The MIB of an unresolved OID is that of its longest indexed prefix, where prefixes of
  five numbers or fewer (six or fewer below the enterprises) never count: when one is found no
  longer prefix is indexed, and when none is found no prefix is.
\<close>

theorem is_mib_known_longest_prefix:
  "let oid_list = str_split ''.'' oid;
       start = (if str_startswith oid ''1.3.6.1.4.1'' then 6 else 5);
       hits = {i. start < i \<and> i \<le> length oid_list \<and>
                  dict_has mib_map (str_join ''.'' (take i oid_list))}
   in is_mib_known mib_map oid =
        (if hits = {} then (False, '''')
         else (True, the (dict_get mib_map (str_join ''.'' (take (Max hits) oid_list)))))"
proof -
  define oid_list where "oid_list = str_split ''.'' oid"
  define start :: nat where "start = (if str_startswith oid ''1.3.6.1.4.1'' then 6 else 5)"
  define hits where "hits = {i. start < i \<and> i \<le> length oid_list \<and>
                      dict_has mib_map (str_join ''.'' (take i oid_list))}"
  define P where "P i = (start < i \<and> dict_has mib_map (str_join ''.'' (take i oid_list)))" for i
  have hits: "hits = {i. P i \<and> i \<le> length oid_list}" by (auto simp: hits_def P_def)
  have found: "search_mib mib_map oid_list start (length oid_list) =
     (case filter P (rev [0..<Suc (length oid_list)]) of
        [] \<Rightarrow> None | i # _ \<Rightarrow> dict_get mib_map (str_join ''.'' (take i oid_list)))"
    unfolding P_def by (rule search_mib_longest)
  have set: "set (filter P (rev [0..<Suc (length oid_list)])) = hits"
    by (auto simp: hits simp del: upt_Suc)
  have known: "is_mib_known mib_map oid =
      (case search_mib mib_map oid_list start (length oid_list) of
         Some mib \<Rightarrow> (True, mib) | None \<Rightarrow> (False, ''''))"
    by (simp add: is_mib_known_def Let_def oid_list_def start_def)
  have "is_mib_known mib_map oid =
        (if hits = {} then (False, '''')
         else (True, the (dict_get mib_map (str_join ''.'' (take (Max hits) oid_list)))))"
  proof (cases "filter P (rev [0..<Suc (length oid_list)])")
    case Nil
    then have "hits = {}" using set by simp
    then show ?thesis using known found Nil by simp
  next
    case (Cons i js)
    have "sorted_wrt (>) (rev [0..<Suc (length oid_list)])"
      by (simp add: sorted_wrt_rev sorted_wrt_upt del: upt_Suc)
    then have "sorted_wrt (>) (i # js)" using Cons sorted_wrt_filter by metis
    moreover have h: "hits = insert i (set js)" using set Cons by (simp del: upt_Suc)
    ultimately have "Max hits = i" by (intro Max_eqI) (auto simp: less_imp_le)
    moreover have "hits \<noteq> {}" "P i" using h hits by auto
    moreover obtain mib where "dict_get mib_map (str_join ''.'' (take i oid_list)) = Some mib"
      using \<open>P i\<close> by (auto simp: P_def dict_has_def)
    ultimately show ?thesis using known found Cons by simp
  qed
  then show ?thesis by (simp add: Let_def hits_def oid_list_def start_def)
qed

section \<open>What a table of varbinds leaves in the metrics\<close>

text \<open>
  \<open>entry_of\<close> is what a resolved varbind records, and whether it is a metric (a number of a
  metric type) or a field; nothing when its type check raises or there are no more variables.
\<close>

definition entry_of :: "snmp_vb \<Rightarrow> (bool \<times> metric) option" where
  "entry_of vb =
     (case set_metrics_index vb of
        Inl _ \<Rightarrow> None
      | Inr (t, v) \<Rightarrow>
          if v = PStr ''No more variables left in this MIB View'' then None
          else Some (t \<in> set MTYPES \<and> (case v of PFloat _ \<Rightarrow> True | _ \<Rightarrow> False),
                     \<lparr>m_time = sv_now vb, m_type = t, m_value = v, m_oid = sv_oid vb\<rparr>))"

definition vb_group :: "snmp_vb \<Rightarrow> string" where
  "vb_group vb = get_group_key (sv_mib vb) (sv_oid vb) (sv_index vb)"

definition vb_name :: "snmp_vb \<Rightarrow> string" where
  "vb_name vb = sv_mib vb @ ''.'' @ sv_metric vb"

definition lookup_entry :: "bool \<Rightarrow> metrics \<Rightarrow> string \<Rightarrow> string \<Rightarrow> metric option" where
  \<comment> \<open>the metric or the field of a group with a name\<close>
  "lookup_entry numeric ms gk name =
     (case dict_get ms gk of
        None \<Rightarrow> None
      | Some g \<Rightarrow> dict_get (if numeric then g_metrics g else g_fields g) name)"

lemma handle_groupkey_lookup:
  "dict_has (handle_groupkey_without_metrics gk index mapping ms) k \<longleftrightarrow> dict_has ms k \<or> k = gk"
  "lookup_entry b (handle_groupkey_without_metrics gk index mapping ms) k name = lookup_entry b ms k name"
  by (auto simp: handle_groupkey_without_metrics_def lookup_entry_def dict_has_def split: option.splits)

lemma handle_metrics_lookup:
  assumes "dict_has ms gk"
  shows "dict_has (fst (handle_metrics gk metric t v ms mib oid p now)) k = dict_has ms k"
    and "lookup_entry b (fst (handle_metrics gk metric t v ms mib oid p now)) k name =
      (if k = gk \<and> name = mib @ ''.'' @ metric \<and>
          b = (t \<in> set MTYPES \<and> (case v of PFloat _ \<Rightarrow> True | _ \<Rightarrow> False))
       then Some \<lparr>m_time = now, m_type = t, m_value = v, m_oid = oid\<rparr>
       else lookup_entry b ms k name)"
proof -
  obtain g where g: "dict_get ms gk = Some g" using assms by (auto simp: dict_has_def)
  define m where "m = \<lparr>m_time = now, m_type = t, m_value = v, m_oid = oid\<rparr>"
  define numeric where "numeric \<longleftrightarrow> t \<in> set MTYPES \<and> (case v of PFloat _ \<Rightarrow> True | _ \<Rightarrow> False)"
  obtain g' where g': "fst (handle_metrics gk metric t v ms mib oid p now) = dict_set gk g' ms"
    "g_metrics g' = (if numeric then dict_set (mib @ ''.'' @ metric) m (g_metrics g) else g_metrics g)"
    "g_fields g' = (if numeric then g_fields g else dict_set (mib @ ''.'' @ metric) m (g_fields g))"
  proof (rule that)
    let ?g' = "the (dict_get (fst (handle_metrics gk metric t v ms mib oid p now)) gk)"
    show "fst (handle_metrics gk metric t v ms mib oid p now) = dict_set gk ?g' ms"
      by (simp add: handle_metrics_def g Let_def split: option.splits)
    show "g_metrics ?g' = (if numeric then dict_set (mib @ ''.'' @ metric) m (g_metrics g) else g_metrics g)"
      by (simp add: handle_metrics_def g Let_def m_def numeric_def split: option.splits)
    show "g_fields ?g' = (if numeric then g_fields g else dict_set (mib @ ''.'' @ metric) m (g_fields g))"
      by (simp add: handle_metrics_def g Let_def m_def numeric_def split: option.splits)
  qed
  show "dict_has (fst (handle_metrics gk metric t v ms mib oid p now)) k = dict_has ms k"
    using g by (auto simp: g'(1) dict_has_def)
  show "lookup_entry b (fst (handle_metrics gk metric t v ms mib oid p now)) k name =
      (if k = gk \<and> name = mib @ ''.'' @ metric \<and>
          b = (t \<in> set MTYPES \<and> (case v of PFloat _ \<Rightarrow> True | _ \<Rightarrow> False))
       then Some \<lparr>m_time = now, m_type = t, m_value = v, m_oid = oid\<rparr>
       else lookup_entry b ms k name)"
    unfolding numeric_def [symmetric] m_def [symmetric]
    using g by (simp add: g' lookup_entry_def)
qed

lemma process_resolved_lookup:
  "dict_has (process_resolved mapping vb ms) k \<longleftrightarrow> dict_has ms k \<or> k = vb_group vb"
  "lookup_entry b (process_resolved mapping vb ms) k name =
     (case entry_of vb of
        Some (b', m) \<Rightarrow> if b' = b \<and> k = vb_group vb \<and> name = vb_name vb then Some m else lookup_entry b ms k name
      | None \<Rightarrow> lookup_entry b ms k name)"
  unfolding process_resolved_def vb_group_def [symmetric] vb_name_def Let_def entry_of_def
  by (auto simp: handle_groupkey_lookup handle_metrics_lookup split: sum.splits prod.splits)

lemma fold_resolved_lookup:
  "dict_has (fold (process_resolved mapping) vbs ms) k \<longleftrightarrow> dict_has ms k \<or> k \<in> vb_group ` set vbs"
  "lookup_entry b (fold (process_resolved mapping) vbs ms) k name =
     (case find (\<lambda>vb. vb_group vb = k \<and> vb_name vb = name \<and> map_option fst (entry_of vb) = Some b) (rev vbs) of
        Some vb \<Rightarrow> map_option snd (entry_of vb)
      | None \<Rightarrow> lookup_entry b ms k name)"
proof (induction vbs rule: rev_induct)
  case (snoc vb vbs)
  {
    case 1
    show ?case using snoc(1) by (auto simp: process_resolved_lookup)
  next
    case 2
    show ?case
      using snoc(2) by (cases "entry_of vb") (auto simp: process_resolved_lookup split: option.splits)
  }
qed simp_all

lemma process_snmp_data_fold:
  "process_snmp_data mib_map mapping vbs rm ms =
     (let handled = takeWhile (\<lambda>vb. is_mib_resolved (sv_id vb) \<or> \<not> fst (is_mib_known mib_map (sv_oid vb))) vbs
      in (handled \<noteq> vbs,
          if handled \<noteq> vbs then snd (find_new_mibs mib_map (sv_oid (vbs ! length handled)) rm) else rm,
          fold (process_resolved mapping) (filter (\<lambda>vb. is_mib_resolved (sv_id vb)) handled) ms))"
proof (induction mib_map mapping vbs rm ms rule: process_snmp_data.induct)
  case (2 mib_map mapping vb vbs rm ms)
  show ?case
  proof (cases "is_mib_resolved (sv_id vb)")
    case True
    then show ?thesis using 2(1) by (auto simp: Let_def)
  next
    case False
    have none: "snd (is_mib_known mib_map (sv_oid vb)) = []" if "\<not> fst (is_mib_known mib_map (sv_oid vb))"
      using that by (auto simp: is_mib_known_def Let_def split: option.splits)
    show ?thesis
    proof (cases "fst (is_mib_known mib_map (sv_oid vb))")
      case True
      then show ?thesis using False by (auto simp: find_new_mibs_def Let_def split: prod.splits)
    next
      case unknown: False
      then have fn: "find_new_mibs mib_map (sv_oid vb) rm = (False, rm)"
        using none by (auto simp: find_new_mibs_def split: prod.splits)
      then show ?thesis using 2(2) [OF False fn [symmetric]] False unknown by (auto simp: Let_def)
    qed
  qed
qed simp

definition passes_over :: "(string, string) dict \<Rightarrow> snmp_vb \<Rightarrow> bool" where
  "passes_over mib_map vb = (is_mib_resolved (sv_id vb) \<or> \<not> fst (is_mib_known mib_map (sv_oid vb)))"

text \<open>
  C18.  A table is handled up to the first unresolved varbind whose MIB is known: exactly then
  a retry is asked for.  Every resolved varbind handled leaves its group, and each group
  holds, under each name, the last value that the table gives it, as a metric or as a field;
  everything else is untouched.
\<close>

theorem process_snmp_data_records:
  "let handled = takeWhile (passes_over mib_map) vbs;
       resolved = filter (\<lambda>vb. is_mib_resolved (sv_id vb)) handled
   in case process_snmp_data mib_map mapping vbs rm ms of
        (retry, mibs, ms') \<Rightarrow>
          retry = (handled \<noteq> vbs) \<and>
          (\<forall>k. dict_has ms' k = (dict_has ms k \<or> k \<in> vb_group ` set resolved)) \<and>
          (\<forall>numeric k name. lookup_entry numeric ms' k name =
             (case find (\<lambda>vb. vb_group vb = k \<and> vb_name vb = name \<and>
                              map_option fst (entry_of vb) = Some numeric) (rev resolved) of
                Some vb \<Rightarrow> map_option snd (entry_of vb)
              | None \<Rightarrow> lookup_entry numeric ms k name))"
  by (simp only: passes_over_def [abs_def] process_snmp_data_fold Let_def prod.case fold_resolved_lookup simp_thms)

end
