(* ===== verification/PyCsv.thy ===== *)
theory PyCsv
  imports PyValue
begin

text \<open>
  The reader of the \<open>csv\<close> module in its default dialect, as the sources use it: rows of the
  text of a file, and the rows of \<open>DictReader\<close>.  The limit on the size of a field is not
  modelled.
\<close>

section \<open>The reader\<close>

datatype csv_state = StartRecord | StartField | InField | InQuoted | QuoteInQuoted | EatCrnl

record csv_row =
  cr_state :: csv_state
  cr_field :: string
  cr_fields :: "string list"

definition csv_fresh :: csv_row where
  "csv_fresh = \<lparr>cr_state = StartRecord, cr_field = [], cr_fields = []\<rparr>"

definition csv_save :: "csv_state \<Rightarrow> csv_row \<Rightarrow> csv_row" where
  "csv_save s r = \<lparr>cr_state = s, cr_field = [], cr_fields = cr_fields r @ [cr_field r]\<rparr>"

definition csv_add :: "csv_state \<Rightarrow> char \<Rightarrow> csv_row \<Rightarrow> csv_row" where
  "csv_add s c r = r\<lparr>cr_state := s, cr_field := cr_field r @ [c]\<rparr>"

definition csv_newline :: "char \<Rightarrow> bool" where
  "csv_newline c = (c = CHR 0x0A \<or> c = CHR 0x0D)"

definition csv_start_field :: "char \<Rightarrow> csv_row \<Rightarrow> csv_row" where
  "csv_start_field c r =
     (if csv_newline c then csv_save EatCrnl r
      else if c = CHR 0x22 then r\<lparr>cr_state := InQuoted\<rparr>
      else if c = CHR '','' then csv_save StartField r
      else csv_add InField c r)"

definition csv_char :: "char \<Rightarrow> csv_row \<Rightarrow> csv_row option" where
  \<comment> \<open>\<open>None\<close> is \<open>csv.Error\<close>: a character after the end of the line\<close>
  "csv_char c r =
     (case cr_state r of
        StartRecord \<Rightarrow>
          if csv_newline c then Some (r\<lparr>cr_state := EatCrnl\<rparr>) else Some (csv_start_field c r)
      | StartField \<Rightarrow> Some (csv_start_field c r)
      | InField \<Rightarrow>
          if csv_newline c then Some (csv_save EatCrnl r)
          else if c = CHR '','' then Some (csv_save StartField r)
          else Some (csv_add InField c r)
      | InQuoted \<Rightarrow>
          if c = CHR 0x22 then Some (r\<lparr>cr_state := QuoteInQuoted\<rparr>) else Some (csv_add InQuoted c r)
      | QuoteInQuoted \<Rightarrow>
          if c = CHR 0x22 then Some (csv_add InQuoted c r)
          else if c = CHR '','' then Some (csv_save StartField r)
          else if csv_newline c then Some (csv_save EatCrnl r)
          else Some (csv_add InField c r)
      | EatCrnl \<Rightarrow> if csv_newline c then Some r else None)"

definition csv_eol :: "csv_row \<Rightarrow> csv_row" where
  \<comment> \<open>the end of a line of the file\<close>
  "csv_eol r =
     (case cr_state r of
        StartRecord \<Rightarrow> r
      | StartField \<Rightarrow> csv_save StartRecord r
      | InField \<Rightarrow> csv_save StartRecord r
      | InQuoted \<Rightarrow> r
      | QuoteInQuoted \<Rightarrow> csv_save StartRecord r
      | EatCrnl \<Rightarrow> r\<lparr>cr_state := StartRecord\<rparr>)"

fun csv_line :: "string \<Rightarrow> csv_row \<Rightarrow> csv_row option" where
  "csv_line [] r = Some (csv_eol r)"
| "csv_line (c # s) r = (case csv_char c r of None \<Rightarrow> None | Some r' \<Rightarrow> csv_line s r')"

fun text_lines :: "string \<Rightarrow> string \<Rightarrow> string list" where
  \<comment> \<open>the lines of a text, each with its newline; \<open>acc\<close> is the line being read\<close>
  "text_lines acc [] = (if acc = [] then [] else [acc])"
| "text_lines acc (c # s) =
     (if c = CHR 0x0A then (acc @ [c]) # text_lines [] s else text_lines (acc @ [c]) s)"

fun csv_lines :: "csv_row \<Rightarrow> string list \<Rightarrow> string list list \<times> bool" where
  \<comment> \<open>the rows, and whether reading ended with an error\<close>
  "csv_lines r [] = ((if cr_state r = InQuoted then [cr_fields (csv_save StartRecord r)] else []), False)"
| "csv_lines r (l # ls) =
     (case csv_line l r of
        None \<Rightarrow> ([], True)
      | Some r' \<Rightarrow>
          if cr_state r' = StartRecord
          then (case csv_lines csv_fresh ls of (rows, e) \<Rightarrow> (cr_fields r' # rows, e))
          else csv_lines r' ls)"

definition csv_reader :: "string \<Rightarrow> string list list \<times> bool" where
  "csv_reader text = csv_lines csv_fresh (text_lines [] text)"

section \<open>Rows by column name\<close>

text \<open>
  A row of \<open>DictReader\<close>: the cells under their column names, absent cells as \<open>None\<close>, and the
  cells beyond the last column, which are stored under the key \<open>None\<close>.
\<close>

record csv_dict =
  cd_cells :: "(string, pyval) dict"
  cd_rest :: "string list option"

definition csv_dict_row :: "string list \<Rightarrow> string list \<Rightarrow> csv_dict" where
  "csv_dict_row names row =
     \<lparr>cd_cells = dict_update [] (zip names (map PStr row @ replicate (length names - length row) PNone)),
      cd_rest = (if length names < length row then Some (drop (length names) row) else None)\<rparr>"

definition csv_dict_reader :: "string \<Rightarrow> csv_dict list \<times> bool" where
  "csv_dict_reader text =
     (case csv_reader text of
        ([], e) \<Rightarrow> ([], e)
      | (names # rows, e) \<Rightarrow> (map (csv_dict_row names) (filter (\<lambda>r. r \<noteq> []) rows), e))"

section \<open>Reading back plain rows\<close>

definition plain_cell :: "string \<Rightarrow> bool" where
  "plain_cell s \<longleftrightarrow> (\<forall>c \<in> set s. c \<notin> {CHR '','', CHR 0x22, CHR 0x0A, CHR 0x0D})"

definition csv_text :: "string list list \<Rightarrow> string" where
  "csv_text rows = concat (map (\<lambda>r. str_join '','' r @ [CHR 0x0A]) rows)"

lemma plain_cell_Cons [simp]:
  "plain_cell (c # s) \<longleftrightarrow>
     c \<noteq> CHR '','' \<and> c \<noteq> CHR 0x22 \<and> c \<noteq> CHR 0x0A \<and> c \<noteq> CHR 0x0D \<and> plain_cell s"
  by (auto simp: plain_cell_def)

lemma csv_line_cell:
  assumes "plain_cell s" "cr_state r = InField"
  shows "csv_line (s @ rest) r = csv_line rest (r\<lparr>cr_field := cr_field r @ s\<rparr>)"
  using assms
proof (induction s arbitrary: r)
  case (Cons c s)
  have "csv_char c r = Some (csv_add InField c r)"
    using Cons.prems by (simp add: csv_char_def csv_newline_def)
  moreover have "csv_add InField c r = r\<lparr>cr_field := cr_field r @ [c]\<rparr>"
    using Cons.prems(2) by (cases r) (simp add: csv_add_def)
  ultimately show ?case using Cons by simp
qed simp

lemma csv_line_first_cell:
  assumes "plain_cell s" "s \<noteq> []" "cr_state r = StartField \<or> cr_state r = StartRecord" "cr_field r = []"
  shows "csv_line (s @ rest) r = csv_line rest (r\<lparr>cr_state := InField, cr_field := s\<rparr>)"
proof -
  obtain c t where s: "s = c # t" using assms(2) by (cases s) auto
  have "csv_char c r = Some (csv_add InField c r)"
    using assms s by (auto simp: csv_char_def csv_newline_def csv_start_field_def)
  then show ?thesis
    using assms csv_line_cell [of t "csv_add InField c r" rest] by (simp add: s csv_add_def)
qed

lemma csv_line_cells:
  assumes "\<And>x. x \<in> set row \<Longrightarrow> plain_cell x" "row \<noteq> []" "cr_field r = []"
    and "cr_state r = StartField \<or> cr_state r = StartRecord \<and> hd row \<noteq> []"
  shows "csv_line (str_join '','' row @ [CHR 0x0A]) r =
    Some \<lparr>cr_state = StartRecord, cr_field = [], cr_fields = cr_fields r @ row\<rparr>"
  using assms
proof (induction row arbitrary: r rule: induct_list012)
  case (2 x)
  show ?case
  proof (cases "x = []")
    case True
    then show ?thesis using 2
      by (auto simp: csv_char_def csv_start_field_def csv_newline_def csv_save_def csv_eol_def)
  next
    case False
    then show ?thesis using 2 csv_line_first_cell [of x r "[CHR 0x0A]"]
      by (auto simp: csv_char_def csv_newline_def csv_save_def csv_eol_def)
  qed
next
  case (3 x y zs)
  let ?r = "\<lparr>cr_state = StartField, cr_field = [], cr_fields = cr_fields r @ [x]\<rparr>"
  have "csv_line (str_join '','' (x # y # zs) @ [CHR 0x0A]) r =
      csv_line (str_join '','' (y # zs) @ [CHR 0x0A]) ?r"
  proof (cases "x = []")
    case True
    then show ?thesis using 3
      by (auto simp: csv_char_def csv_start_field_def csv_newline_def csv_save_def)
  next
    case False
    then show ?thesis using 3 csv_line_first_cell [of x r "CHR '','' # str_join '','' (y # zs) @ [CHR 0x0A]"]
      by (auto simp: csv_char_def csv_newline_def csv_save_def)
  qed
  also have "\<dots> = Some \<lparr>cr_state = StartRecord, cr_field = [], cr_fields = cr_fields r @ x # y # zs\<rparr>"
    using "3.IH"(2) [of ?r] "3.prems" by simp
  finally show ?case .
qed simp

lemma text_lines_line:
  "CHR 0x0A \<notin> set l \<Longrightarrow> text_lines acc (l @ CHR 0x0A # s) = (acc @ l @ [CHR 0x0A]) # text_lines [] s"
  by (induction l arbitrary: acc) auto

lemma str_join_no_char:
  "c \<notin> set sep \<Longrightarrow> (\<And>x. x \<in> set xs \<Longrightarrow> c \<notin> set x) \<Longrightarrow> c \<notin> set (str_join sep xs)"
  by (induction sep xs rule: str_join.induct) auto

theorem csv_reader_csv_text:
  assumes "\<And>row x. row \<in> set rows \<Longrightarrow> x \<in> set row \<Longrightarrow> plain_cell x"
    and "\<And>row. row \<in> set rows \<Longrightarrow> row \<noteq> [] \<and> hd row \<noteq> []"
  shows "csv_reader (csv_text rows) = (rows, False)"
  unfolding csv_reader_def using assms
proof (induction rows)
  case Nil
  then show ?case by (simp add: csv_text_def csv_fresh_def)
next
  case (Cons row rows)
  have "CHR 0x0A \<notin> set (str_join '','' row)"
    using Cons.prems(1) [of row] by (intro str_join_no_char) (auto simp: plain_cell_def)
  then have "text_lines [] (csv_text (row # rows)) =
      (str_join '','' row @ [CHR 0x0A]) # text_lines [] (csv_text rows)"
    using text_lines_line [of "str_join '','' row" "[]" "csv_text rows"] by (simp add: csv_text_def)
  moreover have "csv_line (str_join '','' row @ [CHR 0x0A]) csv_fresh =
      Some \<lparr>cr_state = StartRecord, cr_field = [], cr_fields = row\<rparr>"
    using csv_line_cells [of row csv_fresh] Cons.prems(1) [of row] Cons.prems(2) [of row]
    by (simp add: csv_fresh_def)
  moreover have "csv_lines csv_fresh (text_lines [] (csv_text rows)) = (rows, False)"
    by (rule Cons.IH) (use Cons.prems in auto)
  ultimately show ?case by simp
qed

end
