(* ===== verification/MibIndex.thy ===== *)
theory MibIndex
  imports PyCsv
begin

text \<open>
  The index of MIB modules: \<^verbatim>\<open>splunk_connect_for_snmp/snmp/mib_index_validator.py\<close> and
  \<open>Poller._refresh_mib_map\<close> of \<^verbatim>\<open>snmp/manager.py\<close>.

  \<open>decode content encoding\<close> is the text that \<open>requests\<close> derives from the body of a response.
  The HTTP session is a parameter: given the response hook and the state of the validator, it
  delivers the response (or the exception) and the state after the calls of the hook it made.
\<close>

section \<open>Parsing the index\<close>

type_synonym mib_map = "(string, string) dict"

fun parse_rows :: "string list list \<Rightarrow> mib_map \<Rightarrow> nat \<Rightarrow> mib_map \<times> nat" where
  "parse_rows [] parsed malformed = (parsed, malformed)"
| "parse_rows (row # rows) parsed malformed =
     (case row of
        [a, b] \<Rightarrow>
          (let mib = str_strip a; oid_prefix = str_strip b in
           if mib = [] \<or> oid_prefix = [] then parse_rows rows parsed (Suc malformed)
           else parse_rows rows (dict_set oid_prefix mib parsed) malformed)
      | _ \<Rightarrow> parse_rows rows parsed (Suc malformed))"

definition parse_mib_index :: "string \<Rightarrow> mib_map \<times> nat" where
  "parse_mib_index index_content =
     (case csv_reader index_content of
        (rows, err) \<Rightarrow>
          (case parse_rows rows [] 0 of (m, n) \<Rightarrow> (m, if err then Suc n else n)))"

section \<open>The validator\<close>

record response =
  rs_status :: int
  rs_from_cache :: bool
  rs_content :: string
  rs_encoding :: "string option"

record validator =
  vl_content :: "string option"
  vl_encoding :: "string option"
  vl_result :: "(mib_map \<times> nat) option"

type_synonym decoder = "string \<Rightarrow> string option \<Rightarrow> string"

definition new_validator :: validator where
  "new_validator = \<lparr>vl_content = None, vl_encoding = None, vl_result = None\<rparr>"

definition parse_response :: "decoder \<Rightarrow> response \<Rightarrow> validator \<Rightarrow> (mib_map \<times> nat) \<times> validator" where
  "parse_response decode r v =
     (case vl_result v of
        Some res \<Rightarrow>
          if Some (rs_content r) \<noteq> vl_content v \<or> rs_encoding r \<noteq> vl_encoding v
          then (let res' = parse_mib_index (decode (rs_content r) (rs_encoding r))
                in (res', \<lparr>vl_content = Some (rs_content r), vl_encoding = rs_encoding r, vl_result = Some res'\<rparr>))
          else (res, v)
      | None \<Rightarrow>
          (let res' = parse_mib_index (decode (rs_content r) (rs_encoding r))
           in (res', \<lparr>vl_content = Some (rs_content r), vl_encoding = rs_encoding r, vl_result = Some res'\<rparr>)))"

definition validate :: "decoder \<Rightarrow> response \<Rightarrow> validator \<Rightarrow> response result \<times> validator" where
  \<comment> \<open>\<open>__call__\<close>\<close>
  "validate decode r v =
     (if rs_status r \<noteq> 200 \<or> rs_from_cache r then (Inr r, v)
      else (case parse_response decode r v of
              ((m, _), v') \<Rightarrow> if m = [] then (Inl RequestException, v') else (Inr r, v')))"

section \<open>Refreshing the map\<close>

type_synonym http_session =
  "bool \<Rightarrow> (response \<Rightarrow> validator \<Rightarrow> response result \<times> validator) \<Rightarrow> validator
     \<Rightarrow> response result \<times> validator"

definition refresh_mib_map ::
  "decoder \<Rightarrow> http_session \<Rightarrow> bool \<Rightarrow> mib_map \<Rightarrow> (bool \<times> mib_map) result" where
  \<comment> \<open>\<open>conditional\<close> asks for a revalidation of the cached index; PyMongo errors are
      \<open>ConnectionFailure\<close>\<close>
  "refresh_mib_map decode session conditional mib_map =
     (case session conditional (validate decode) new_validator of
        (Inl e, v) \<Rightarrow> if e \<in> {RequestException, ConnectionFailure} then Inr (False, mib_map) else Inl e
      | (Inr r, v) \<Rightarrow>
          if rs_status r \<noteq> 200 then Inr (False, mib_map)
          else (case parse_response decode r v of
                  ((new_map, malformed), _) \<Rightarrow>
                    if new_map = [] then Inr (False, mib_map) else Inr (True, new_map)))"

section \<open>Correctness\<close>

text \<open>The states that calls of the hook lead to.\<close>

inductive hook_runs :: "decoder \<Rightarrow> validator \<Rightarrow> validator \<Rightarrow> bool" for decode where
  none: "hook_runs decode v v"
| call: "hook_runs decode v w \<Longrightarrow> hook_runs decode v (snd (validate decode r w))"

definition validator_ok :: "decoder \<Rightarrow> validator \<Rightarrow> bool" where
  \<comment> \<open>a stored result is the parse of the stored body\<close>
  "validator_ok decode v \<longleftrightarrow>
     (case vl_result v of None \<Rightarrow> True
      | Some res \<Rightarrow> \<exists>c. vl_content v = Some c \<and> res = parse_mib_index (decode c (vl_encoding v)))"

lemma parse_response_ok:
  assumes "validator_ok decode v"
  shows "fst (parse_response decode r v) = parse_mib_index (decode (rs_content r) (rs_encoding r))"
    and "validator_ok decode (snd (parse_response decode r v))"
  using assms by (auto simp: parse_response_def validator_ok_def Let_def split: option.splits)

lemma hook_runs_ok: "hook_runs decode v w \<Longrightarrow> validator_ok decode v \<Longrightarrow> validator_ok decode w"
proof (induction rule: hook_runs.induct)
  case (call v w r)
  then show ?case
    using parse_response_ok(2) [of decode w r] by (auto simp: validate_def split: prod.splits)
qed

lemma parse_rows_get:
  "dict_get (fst (parse_rows rows parsed n)) k =
     (case find (\<lambda>row. length row = 2 \<and> str_strip (row ! 0) \<noteq> [] \<and> str_strip (row ! 1) = k \<and> k \<noteq> []) (rev rows) of
        Some row \<Rightarrow> Some (str_strip (row ! 0)) | None \<Rightarrow> dict_get parsed k)"
proof (induction rows parsed n rule: parse_rows.induct)
  case (2 row rows parsed n)
  have find_app: "find P (xs @ [x]) = (case find P xs of Some y \<Rightarrow> Some y | None \<Rightarrow> if P x then Some x else None)"
    for P :: "string list \<Rightarrow> bool" and xs x
    by (induction xs) auto
  consider a b where "row = [a, b]" | "length row \<noteq> 2"
    by (metis (no_types) length_0_conv length_Suc_conv numeral_2_eq_2)
  then show ?case
  proof cases
    case (1 a b)
    then show ?thesis using 2 by (auto simp: find_app Let_def split: option.splits)
  next
    case other: 2
    then have "parse_rows (row # rows) parsed n = parse_rows rows parsed (Suc n)"
      by (auto split: list.splits)
    then show ?thesis using 2 other
      by (auto simp: find_app split: option.splits list.splits)
  qed
qed simp

text \<open>
  C26.  A refresh replaces the map exactly when the session delivers a response with status 200
  whose body has at least one mapping, and then by the parse of that very body, whichever
  responses the validator saw before it; in every other case that does not raise, the map in
  use stays.
\<close>

theorem refresh_mib_map_outcome:
  assumes "\<forall>v. hook_runs decode v (snd (session conditional (validate decode) v))"
    and "refresh_mib_map decode session conditional old = Inr (ok, new)"
  shows "case fst (session conditional (validate decode) new_validator) of
      Inl e \<Rightarrow> \<not> ok \<and> new = old
    | Inr r \<Rightarrow>
        (let parsed = fst (parse_mib_index (decode (rs_content r) (rs_encoding r)))
         in ok = (rs_status r = 200 \<and> parsed \<noteq> []) \<and> new = (if ok then parsed else old))"
proof -
  obtain res v where s: "session conditional (validate decode) new_validator = (res, v)" by fastforce
  have "validator_ok decode new_validator" by (simp add: validator_ok_def new_validator_def)
  then have ok: "validator_ok decode v" using hook_runs_ok assms(1) s by (metis snd_conv)
  show ?thesis
    using assms(2) parse_response_ok(1) [OF ok] s unfolding refresh_mib_map_def
    by (auto simp: Let_def split: sum.splits prod.splits if_splits) (metis fst_conv)+
qed

definition sample_session :: http_session where
  \<comment> \<open>one live response with two rows, one of them malformed\<close>
  "sample_session conditional hook v =
     hook \<lparr>rs_status = 200, rs_from_cache = False, rs_content = ''IF-MIB,1.3.6.1.2.1.2'', rs_encoding = None\<rparr> v"

theorem refresh_mib_map_outcome_witness:
  "refresh_mib_map (\<lambda>c e. c) sample_session True [] = Inr (True, [(''1.3.6.1.2.1.2'', ''IF-MIB'')])"
proof -
  let ?s = "sample_session True (validate (\<lambda>c e. c)) new_validator"
  have m: "parse_mib_index ''IF-MIB,1.3.6.1.2.1.2'' = ([(''1.3.6.1.2.1.2'', ''IF-MIB'')], 0)" by code_simp
  have hook: "\<forall>v. hook_runs (\<lambda>c e. c) v (snd (sample_session True (validate (\<lambda>c e. c)) v))"
    unfolding sample_session_def by (intro allI hook_runs.call hook_runs.none)
  obtain ok new where ref: "refresh_mib_map (\<lambda>c e. c) sample_session True [] = Inr (ok, new)"
    by (auto simp: refresh_mib_map_def sample_session_def validate_def parse_response_def new_validator_def
        Let_def m)
  have r: "fst ?s = Inr \<lparr>rs_status = 200, rs_from_cache = False,
      rs_content = ''IF-MIB,1.3.6.1.2.1.2'', rs_encoding = None\<rparr>"
    by (simp add: sample_session_def validate_def parse_response_def new_validator_def Let_def m)
  have "ok \<and> new = [(''1.3.6.1.2.1.2'', ''IF-MIB'')]"
    using refresh_mib_map_outcome [OF hook ref] by (simp add: r m Let_def)
  then show ?thesis using ref by simp
qed

end
