(* ===== verification/Common.thy ===== *)
theory Common
  imports PyValue
begin

text \<open>
  Shared helpers of \<^verbatim>\<open>splunk_connect_for_snmp/common\<close>: reading flags and numbers, the
  per-process MongoDB client, waiting for the replica set (\<^verbatim>\<open>common.py\<close>), the cache with a time
  to live (\<^verbatim>\<open>custom_cache.py\<close>), the translations file (\<^verbatim>\<open>custom_translations.py\<close>), and the
  limit on decoded trap varbinds (\<^verbatim>\<open>snmp/trap_varbind_limit.py\<close>).
\<close>

section \<open>Flags and numbers\<close>

definition human_bool :: "pyval \<Rightarrow> bool \<Rightarrow> bool result" where
  "human_bool flag dflt =
     (case flag of
        PNone \<Rightarrow> Inr False
      | PBool b \<Rightarrow> Inr b
      | PStr s \<Rightarrow>
          if str_lower s \<in> {''true'', ''1'', ''t'', ''y'', ''yes''} then Inr True
          else if str_lower s \<in> {''false'', ''0'', ''f'', ''n'', ''no''} then Inr False
          else Inr dflt
      | PBytes s \<Rightarrow> Inr dflt \<comment> \<open>lower-cased bytes equal no string\<close>
      | _ \<Rightarrow> Inl AttributeError)"

definition convert_to_float :: "pyval \<Rightarrow> bool \<Rightarrow> pyval result" where
  "convert_to_float v ignore_error =
     (case py_float v of
        Inr f \<Rightarrow> Inr (PFloat f)
      | Inl ValueError \<Rightarrow> if ignore_error then Inr v else Inl BadlyFormattedFieldError
      | Inl e \<Rightarrow> Inl e)"

section \<open>The limit on decoded trap varbinds\<close>

definition parse_max_trap_varbinds_to_decode :: "pyval \<Rightarrow> string option \<Rightarrow> int \<Rightarrow> int \<Rightarrow> int" where
  \<comment> \<open>\<open>raw\<close> is \<open>None\<close>, a string or an integer; \<open>env\<close> is the environment variable\<close>
  "parse_max_trap_varbinds_to_decode raw env minimum dflt =
     (let text = (case raw of
                    PNone \<Rightarrow> (case env of None \<Rightarrow> str_of_int dflt | Some s \<Rightarrow> s)
                  | PStr s \<Rightarrow> s
                  | PInt i \<Rightarrow> str_of_int i
                  | _ \<Rightarrow> '''');
          value = (case parse_int (str_strip text) of Inl _ \<Rightarrow> dflt | Inr i \<Rightarrow> i)
      in if value < minimum then minimum else value)"

definition py_slice_to :: "int \<Rightarrow> 'a list \<Rightarrow> 'a list" where
  \<comment> \<open>\<open>xs[:n]\<close>\<close>
  "py_slice_to n xs =
     (if 0 \<le> n then take (nat n) xs else take (nat (int (length xs) + n)) xs)"

definition limit_trap_varbind_pairs :: "int \<Rightarrow> 'a list \<Rightarrow> 'a list" where
  "limit_trap_varbind_pairs limit pairs =
     (if limit = 0 \<or> int (length pairs) \<le> limit then pairs else py_slice_to limit pairs)"

text \<open>
  The limit that the environment configures is zero when the variable is absent, not a
  number or negative, and the number otherwise; a zero limit keeps all varbinds of a trap, a
  positive one exactly the first ones up to the limit.
\<close>

theorem trap_varbind_limit_sound:
  "let limit = parse_max_trap_varbinds_to_decode PNone env 0 0 in
   limit = (case env of None \<Rightarrow> 0
            | Some s \<Rightarrow> (case parse_int (str_strip s) of Inl _ \<Rightarrow> 0 | Inr i \<Rightarrow> max 0 i)) \<and>
   limit_trap_varbind_pairs limit pairs = (if limit = 0 then pairs else take (nat limit) pairs)"
proof -
  have "parse_int (str_strip (str_of_int 0)) = Inr 0" by code_simp
  then have "parse_max_trap_varbinds_to_decode PNone env 0 0 =
      (case env of None \<Rightarrow> 0
       | Some s \<Rightarrow> (case parse_int (str_strip s) of Inl _ \<Rightarrow> 0 | Inr i \<Rightarrow> max 0 i))"
    by (auto simp: parse_max_trap_varbinds_to_decode_def Let_def split: option.splits sum.splits)
  moreover have "limit_trap_varbind_pairs n pairs = (if n = 0 then pairs else take (nat n) pairs)"
    if "0 \<le> n" for n
    using that by (auto simp: limit_trap_varbind_pairs_def py_slice_to_def)
  ultimately show ?thesis by (auto simp: Let_def split: option.splits sum.splits)
qed

section \<open>The MongoDB client of a process\<close>

text \<open>
  A client is the process that created it together with a serial number; processes are
  told apart by their process identifiers, as the code does.  The two globals of
  the module exist once per process; a forked child starts with a copy of its parent's.
\<close>

record mongo_client =
  mc_creator :: nat
  mc_serial :: nat

record mongo_globals =
  mg_client :: "mongo_client option"
  mg_pid :: "nat option"

definition get_mongo_client :: "nat \<Rightarrow> nat \<Rightarrow> mongo_globals \<Rightarrow> mongo_client \<times> mongo_globals" where
  "get_mongo_client pid serial g =
     (case mg_client g of
        Some c \<Rightarrow>
          if mg_pid g \<noteq> Some pid
          then (let c' = \<lparr>mc_creator = pid, mc_serial = serial\<rparr>
                in (c', g\<lparr>mg_client := Some c', mg_pid := Some pid\<rparr>))
          else (c, g)
      | None \<Rightarrow> (let c' = \<lparr>mc_creator = pid, mc_serial = serial\<rparr>
                in (c', g\<lparr>mg_client := Some c', mg_pid := Some pid\<rparr>)))"

definition close_mongo_client :: "nat \<Rightarrow> mongo_globals \<Rightarrow> mongo_client option \<times> mongo_globals" where
  \<comment> \<open>the client that is closed, if any\<close>
  "close_mongo_client pid g =
     ((if mg_client g \<noteq> None \<and> mg_pid g = Some pid then mg_client g else None),
      \<lparr>mg_client = None, mg_pid = None\<rparr>)"

text \<open>
  The processes of a worker: the globals of each live process, and what was used or closed by
  which process, so far.
\<close>

record mongo_world =
  mw_globals :: "nat \<Rightarrow> mongo_globals option"
  mw_touched :: "(nat \<times> mongo_client) list"

inductive mongo_step :: "mongo_world \<Rightarrow> mongo_world \<Rightarrow> bool" where
  get: "mw_globals w p = Some g \<Longrightarrow> get_mongo_client p serial g = (c, g') \<Longrightarrow>
    mongo_step w (w\<lparr>mw_globals := (mw_globals w)(p \<mapsto> g'), mw_touched := (p, c) # mw_touched w\<rparr>)"
| close: "mw_globals w p = Some g \<Longrightarrow> close_mongo_client p g = (c, g') \<Longrightarrow>
    mongo_step w (w\<lparr>mw_globals := (mw_globals w)(p \<mapsto> g'),
                    mw_touched := (case c of None \<Rightarrow> [] | Some d \<Rightarrow> [(p, d)]) @ mw_touched w\<rparr>)"
| fork: "mw_globals w p = Some g \<Longrightarrow> mw_globals w q = None \<Longrightarrow>
    mongo_step w (w\<lparr>mw_globals := (mw_globals w)(q \<mapsto> g)\<rparr>)"
| exit: "mongo_step w (w\<lparr>mw_globals := (mw_globals w)(p := None)\<rparr>)"

definition mongo_start :: "nat \<Rightarrow> mongo_world" where
  \<comment> \<open>one process, which has no client yet\<close>
  "mongo_start p = \<lparr>mw_globals = [p \<mapsto> \<lparr>mg_client = None, mg_pid = None\<rparr>], mw_touched = []\<rparr>"

definition mongo_reachable :: "mongo_world \<Rightarrow> bool" where
  "mongo_reachable w \<longleftrightarrow> (\<exists>p. mongo_step\<^sup>*\<^sup>* (mongo_start p) w)"

lemma mongo_reachable_start: "mongo_reachable (mongo_start p)"
  by (auto simp: mongo_reachable_def)

lemma mongo_reachable_step: "mongo_reachable w \<Longrightarrow> mongo_step w w' \<Longrightarrow> mongo_reachable w'"
  by (auto simp: mongo_reachable_def intro: rtranclp.rtrancl_into_rtrancl)

definition globals_ok :: "mongo_globals \<Rightarrow> bool" where
  "globals_ok g \<longleftrightarrow> (case mg_client g of None \<Rightarrow> True | Some c \<Rightarrow> mg_pid g = Some (mc_creator c))"

lemma get_mongo_client_ok:
  assumes "get_mongo_client p n g = (c, g')" "globals_ok g"
  shows "globals_ok g' \<and> mc_creator c = p"
  using assms by (auto simp: get_mongo_client_def globals_ok_def Let_def split: option.splits if_splits)

lemma close_mongo_client_ok:
  assumes "close_mongo_client p g = (c, g')" "globals_ok g"
  shows "globals_ok g' \<and> (c = Some d \<longrightarrow> mc_creator d = p)"
  using assms by (auto simp: close_mongo_client_def globals_ok_def split: if_splits)

definition world_ok :: "mongo_world \<Rightarrow> bool" where
  "world_ok w \<longleftrightarrow> (\<forall>p g. mw_globals w p = Some g \<longrightarrow> globals_ok g) \<and> (\<forall>(p, c) \<in> set (mw_touched w). mc_creator c = p)"

interpretation mongo: stepping mongo_step world_ok
proof
  fix w w' assume "mongo_step w w'" "world_ok w"
  then show "world_ok w'"
    unfolding world_ok_def
    by cases (auto dest: get_mongo_client_ok close_mongo_client_ok split: if_splits option.splits)
qed

text \<open>
  Whatever the order in which the processes of a worker fork, ask for their client and
  close it, no process ever uses or closes a client that another process created.
\<close>

theorem mongo_client_own_process:
  assumes "mongo_reachable w"
  shows "\<forall>(p, c) \<in> set (mw_touched w). mc_creator c = p"
proof -
  have "world_ok (mongo_start p)" for p by (auto simp: world_ok_def mongo_start_def globals_ok_def split: if_splits)
  then have "world_ok w" using assms mongo.inv_reach by (auto simp: mongo_reachable_def)
  then show ?thesis by (simp add: world_ok_def)
qed

theorem mongo_client_own_process_witness:
  "\<exists>w. mongo_reachable w \<and> length (mw_touched w) = 2 \<and> (\<forall>(p, c) \<in> set (mw_touched w). mc_creator c = p)"
proof -
  define g0 where "g0 = \<lparr>mg_client = None, mg_pid = None\<rparr>"
  define g1 where "g1 = \<lparr>mg_client = Some \<lparr>mc_creator = 1, mc_serial = 0\<rparr>, mg_pid = Some 1\<rparr>"
  define g2 where "g2 = \<lparr>mg_client = Some \<lparr>mc_creator = 2, mc_serial = 0\<rparr>, mg_pid = Some 2\<rparr>"
  have g: "get_mongo_client 1 0 g0 = (\<lparr>mc_creator = 1, mc_serial = 0\<rparr>, g1)"
    "get_mongo_client 2 0 g1 = (\<lparr>mc_creator = 2, mc_serial = 0\<rparr>, g2)"
    by (simp_all add: get_mongo_client_def Let_def g0_def g1_def g2_def)
  define w0 where "w0 = \<lparr>mw_globals = [1 \<mapsto> g0], mw_touched = []\<rparr>"
  have 0: "mongo_reachable w0" unfolding w0_def g0_def mongo_start_def [symmetric] by (rule mongo_reachable_start)
  have 1: "mongo_reachable (w0\<lparr>mw_globals := (mw_globals w0)(1 \<mapsto> g1),
      mw_touched := (1, \<lparr>mc_creator = 1, mc_serial = 0\<rparr>) # mw_touched w0\<rparr>)" (is "mongo_reachable ?w1")
    by (rule mongo_reachable_step [OF 0]) (rule mongo_step.get [OF _ g(1)], simp add: w0_def)
  have 2: "mongo_reachable (?w1\<lparr>mw_globals := (mw_globals ?w1)(2 \<mapsto> g1)\<rparr>)" (is "mongo_reachable ?w2")
    by (rule mongo_reachable_step [OF 1]) (rule mongo_step.fork [of _ 1], simp_all add: w0_def)
  have 3: "mongo_reachable (?w2\<lparr>mw_globals := (mw_globals ?w2)(2 \<mapsto> g2),
      mw_touched := (2, \<lparr>mc_creator = 2, mc_serial = 0\<rparr>) # mw_touched ?w2\<rparr>)" (is "mongo_reachable ?w3")
    by (rule mongo_reachable_step [OF 2]) (rule mongo_step.get [OF _ g(2)], simp)
  have "length (mw_touched ?w3) = 2" by (simp add: w0_def)
  with 3 mongo_client_own_process [OF 3] show ?thesis by blast
qed

section \<open>Waiting for the replica set\<close>

text \<open>
  What one attempt to reach the database finds: an exception (of any class), or a server that
  answers, with or without a primary.
\<close>

datatype ping = PingFails | PingOk bool \<comment> \<open>a primary is known\<close>

datatype wait_end = WaitReady | WaitReturns | WaitExits

fun wait_attempts :: "string \<Rightarrow> (nat \<Rightarrow> ping) \<Rightarrow> nat \<Rightarrow> nat \<Rightarrow> nat \<Rightarrow> wait_end \<times> nat" where
  \<comment> \<open>attempts \<open>n\<close> to \<open>max_retries\<close>, \<open>left\<close> of them; with the number of sleeps\<close>
  "wait_attempts uri ping max_retries n 0 = (WaitReturns, 0)"
| "wait_attempts uri ping max_retries n (Suc left) =
     (let sleeps = (if n \<noteq> 1 then 1 else 0);
          later = (case wait_attempts uri ping max_retries (Suc n) left of (r, k) \<Rightarrow> (r, sleeps + k))
      in case ping n of
           PingFails \<Rightarrow> if max_retries \<le> n then (WaitExits, sleeps) else later
         | PingOk primary \<Rightarrow>
             if str_contains uri ''replicaSet='' \<and> \<not> primary then later else (WaitReady, sleeps))"

definition wait_for_mongodb_replicaset ::
  "string option \<Rightarrow> string option \<Rightarrow> (nat \<Rightarrow> ping) \<Rightarrow> nat \<Rightarrow> wait_end \<times> nat" where
  \<comment> \<open>\<open>mode\<close> and \<open>uri\<close> are the environment variables\<close>
  "wait_for_mongodb_replicaset mode uri ping max_retries =
     (let mongo_mode = str_lower (case mode of None \<Rightarrow> ''standalone'' | Some m \<Rightarrow> m) in
      if mongo_mode = ''standalone'' then (WaitReturns, 0)
      else (case uri of
              None \<Rightarrow> (WaitExits, 0)
            | Some u \<Rightarrow> if u = [] then (WaitExits, 0) else wait_attempts u ping max_retries 1 max_retries))"

text \<open>The attempt that ends the wait: the first that succeeds, or the last when it fails.\<close>

definition attempt_ready :: "string \<Rightarrow> ping \<Rightarrow> bool" where
  "attempt_ready uri p =
     (case p of PingFails \<Rightarrow> False | PingOk primary \<Rightarrow> \<not> str_contains uri ''replicaSet='' \<or> primary)"

lemma wait_attempts_result:
  assumes "n + left = Suc max_retries"
  shows "fst (wait_attempts uri ping max_retries n left) =
    (if \<exists>k \<in> {n..max_retries}. attempt_ready uri (ping k) then WaitReady
     else if left \<noteq> 0 \<and> ping max_retries = PingFails then WaitExits else WaitReturns)"
  using assms
proof (induction left arbitrary: n)
  case (Suc left)
  let ?ready = "\<lambda>n. \<exists>k \<in> {n..max_retries}. attempt_ready uri (ping k)"
  have "{n..max_retries} = insert n {Suc n..max_retries}" using Suc.prems by auto
  then have ex: "?ready n \<longleftrightarrow> attempt_ready uri (ping n) \<or> ?ready (Suc n)" by simp
  have later: "fst (case wait_attempts uri ping max_retries (Suc n) left of (r, k) \<Rightarrow> (r, m + k)) =
    (if ?ready (Suc n) then WaitReady
     else if left \<noteq> 0 \<and> ping max_retries = PingFails then WaitExits else WaitReturns)" for m
    using Suc.IH [of "Suc n"] Suc.prems by (cases "wait_attempts uri ping max_retries (Suc n) left") simp
  have last: "left = 0 \<longleftrightarrow> max_retries \<le> n" and none: "max_retries \<le> n \<Longrightarrow> \<not> ?ready (Suc n)"
    and eq: "max_retries \<le> n \<Longrightarrow> max_retries = n" using Suc.prems by auto
  show ?case
  proof (cases "ping n")
    case PingFails
    then have "\<not> attempt_ready uri (ping n)" by (simp add: attempt_ready_def)
    then show ?thesis
      unfolding ex using PingFails later last none eq by (auto simp: Let_def)
  next
    case (PingOk primary)
    show ?thesis
    proof (cases "str_contains uri ''replicaSet='' \<and> \<not> primary")
      case True
      then have "\<not> attempt_ready uri (ping n)" using PingOk by (simp add: attempt_ready_def)
      then show ?thesis
        unfolding ex using True PingOk later last none eq by (auto simp: Let_def)
    next
      case False
      then have "attempt_ready uri (ping n)" using PingOk by (auto simp: attempt_ready_def)
      then show ?thesis unfolding ex using False PingOk by (auto simp: Let_def)
    qed
  qed
qed auto

text \<open>
  C39.  Waiting in replica-set mode succeeds when some attempt finds the database ready, and
  exits when none does and the last one fails; when the last attempt only finds no primary,
  the wait returns as if the database were ready.
\<close>

theorem wait_for_mongodb_outcome:
  assumes "uri \<noteq> []" "str_lower mode \<noteq> ''standalone''"
  shows "fst (wait_for_mongodb_replicaset (Some mode) (Some uri) ping (Suc n)) =
    (if \<exists>k \<in> {1..Suc n}. attempt_ready uri (ping k) then WaitReady
     else if ping (Suc n) = PingFails then WaitExits else WaitReturns)"
proof -
  have "wait_for_mongodb_replicaset (Some mode) (Some uri) ping (Suc n) =
      wait_attempts uri ping (Suc n) 1 (Suc n)"
    using assms unfolding wait_for_mongodb_replicaset_def Let_def by (simp only: option.case if_False)
  moreover have "1 + Suc n = Suc (Suc n)" by simp
  ultimately show ?thesis
    by (simp only: wait_attempts_result nat.distinct not_False_eq_True simp_thms)
qed

theorem wait_for_mongodb_outcome_witness:
  "fst (wait_for_mongodb_replicaset (Some ''replicaset'') (Some ''mongodb://h/?replicaSet=r'')
     (\<lambda>_. PingOk False) (Suc 1)) = WaitReturns"
proof -
  have "\<not> attempt_ready ''mongodb://h/?replicaSet=r'' (PingOk False)"
    by (simp add: attempt_ready_def str_contains_def)
  moreover have "str_lower ''replicaset'' \<noteq> ''standalone''" by code_simp
  ultimately show ?thesis
    using wait_for_mongodb_outcome [of "''mongodb://h/?replicaSet=r''" "''replicaset''" "\<lambda>_. PingOk False" 1]
    by simp
qed

section \<open>A cache with a time to live\<close>

text \<open>
  \<open>ttl_lru_cache\<close>: the number of the current period is one more argument of a function behind
  an LRU cache.  \<open>f t x\<close> is what the function returns at time \<open>t\<close> (in whole ticks since the
  decorator ran) for the arguments \<open>x\<close>; the cache holds its newest entries first.
\<close>

definition ttl_period :: "int \<Rightarrow> int" where
  "ttl_period ttl = (if ttl \<le> 0 then 65536 else ttl)"

definition ttl_hash :: "int \<Rightarrow> nat \<Rightarrow> int" where
  "ttl_hash ttl now = int now div ttl_period ttl"

type_synonym ('x, 'y) ttl_cache = "((int \<times> 'x) \<times> 'y) list"

definition ttl_call ::
  "int \<Rightarrow> nat \<Rightarrow> (nat \<Rightarrow> 'x \<Rightarrow> 'y) \<Rightarrow> nat \<Rightarrow> 'x \<Rightarrow> ('x, 'y) ttl_cache \<Rightarrow> 'y \<times> ('x, 'y) ttl_cache" where
  "ttl_call ttl maxsize f now x cache =
     (let key = (ttl_hash ttl now, x) in
      case map_of cache key of
        Some y \<Rightarrow> (y, (key, y) # filter (\<lambda>e. fst e \<noteq> key) cache)
      | None \<Rightarrow> (let y = f now x in (y, take maxsize ((key, y) # cache))))"

fun ttl_calls ::
  "int \<Rightarrow> nat \<Rightarrow> (nat \<Rightarrow> 'x \<Rightarrow> 'y) \<Rightarrow> (nat \<times> 'x) list \<Rightarrow> ('x, 'y) ttl_cache \<Rightarrow> 'y list \<times> ('x, 'y) ttl_cache" where
  "ttl_calls ttl maxsize f [] cache = ([], cache)"
| "ttl_calls ttl maxsize f ((now, x) # calls) cache =
     (case ttl_call ttl maxsize f now x cache of
        (y, cache') \<Rightarrow>
          (case ttl_calls ttl maxsize f calls cache' of (ys, c) \<Rightarrow> (y # ys, c)))"

definition cache_fresh :: "int \<Rightarrow> (nat \<Rightarrow> 'x \<Rightarrow> 'y) \<Rightarrow> nat \<Rightarrow> ('x, 'y) ttl_cache \<Rightarrow> bool" where
  "cache_fresh ttl f now cache \<longleftrightarrow>
     (\<forall>h x y. ((h, x), y) \<in> set cache \<longrightarrow> (\<exists>t \<le> now. ttl_hash ttl t = h \<and> y = f t x))"

lemma ttl_call_fresh:
  assumes "cache_fresh ttl f t0 cache" "t0 \<le> now" "ttl_call ttl maxsize f now x cache = (y, cache')"
  shows "cache_fresh ttl f now cache'" "\<exists>t \<le> now. ttl_hash ttl t = ttl_hash ttl now \<and> y = f t x"
proof -
  have fr: "cache_fresh ttl f now cache"
    using assms(1,2) unfolding cache_fresh_def by (meson order_trans)
  show "\<exists>t \<le> now. ttl_hash ttl t = ttl_hash ttl now \<and> y = f t x"
    using fr assms(3) unfolding ttl_call_def Let_def cache_fresh_def
    by (fastforce split: option.splits dest!: map_of_SomeD)
  then show "cache_fresh ttl f now cache'"
    using fr assms(3) unfolding ttl_call_def Let_def cache_fresh_def
    by (auto split: option.splits dest!: in_set_takeD)
qed

lemma ttl_period_pos: "0 < ttl_period ttl"
  by (simp add: ttl_period_def)

lemma ttl_hash_close:
  assumes "ttl_hash ttl t = ttl_hash ttl now"
  shows "int now - int t < ttl_period ttl"
proof -
  have eq: "int n = ttl_period ttl * ttl_hash ttl n + int n mod ttl_period ttl" for n
    by (simp add: ttl_hash_def)
  have "int now - int t = int now mod ttl_period ttl - int t mod ttl_period ttl"
    using eq [of now] eq [of t] assms by (metis add_diff_cancel_left)
  moreover have "int now mod ttl_period ttl < ttl_period ttl" "0 \<le> int t mod ttl_period ttl"
    using ttl_period_pos [of ttl] by simp_all
  ultimately show ?thesis by linarith
qed

lemma ttl_calls_fresh:
  assumes "cache_fresh ttl f t0 cache" "sorted (t0 # map fst calls)"
  shows "list_all2 (\<lambda>(now, x) y. \<exists>t \<le> now. int now - int t < ttl_period ttl \<and> y = f t x)
    calls (fst (ttl_calls ttl maxsize f calls cache))"
  using assms
proof (induction calls arbitrary: t0 cache)
  case (Cons call calls)
  obtain now x where c: "call = (now, x)" by (cases call)
  obtain y cache' where y: "ttl_call ttl maxsize f now x cache = (y, cache')" by fastforce
  have "t0 \<le> now" "sorted (now # map fst calls)" using Cons.prems(2) c by auto
  then show ?case
    using Cons.IH [of now cache'] ttl_call_fresh [OF Cons.prems(1) _ y] ttl_hash_close
    by (fastforce simp: c y split: prod.splits)
qed simp

text \<open>
  C40.  A call through the cache returns what the function returned at some moment not later
  than the call and less than one period before it, whatever the earlier calls were.
\<close>

theorem ttl_lru_cache_fresh:
  assumes "sorted (map fst calls)"
  shows "list_all2 (\<lambda>(now, x) y. \<exists>t \<le> now. int now - int t < ttl_period ttl \<and> y = f t x)
    calls (fst (ttl_calls ttl maxsize f calls []))"
  using ttl_calls_fresh [of ttl f 0 "[]" calls] assms by (simp add: cache_fresh_def)

theorem ttl_lru_cache_fresh_witness:
  "list_all2 (\<lambda>(now, x) y. \<exists>t \<le> now. int now - int t < ttl_period 60 \<and> y = t + x)
    [(0, 1), (59, 1), (60, 1)] (fst (ttl_calls 60 8 (\<lambda>t x. t + x) [(0, 1), (59, 1), (60, 1)] []))"
  by (rule ttl_lru_cache_fresh) simp

section \<open>The translations of the configuration\<close>

definition load_custom_translations :: "pyval result \<Rightarrow> pyval result" where
  \<comment> \<open>the argument is what opening and parsing the configuration file gives\<close>
  "load_custom_translations config =
     (case config of
        Inl FileNotFoundError \<Rightarrow> Inr PNone
      | Inl e \<Rightarrow> Inl e
      | Inr c \<Rightarrow> if \<not> py_truthy c then Inr PNone else py_get c ''customTranslations'' PNone)"

end
