(* ===== verification/PyIp.thy ===== *)
theory PyIp
  imports PyString
begin

text \<open>
  The parsing of addresses and networks by the \<open>ipaddress\<close> module, as the sources use it: the
  value of a textual IPv4 or IPv6 address, and the network of a text with an optional prefix
  length or mask.
\<close>

section \<open>IPv4\<close>

definition parse_octet :: "string \<Rightarrow> nat option" where
  "parse_octet s =
     (if s = [] \<or> \<not> list_all is_digit s \<or> 3 < length s \<or> (s \<noteq> ''0'' \<and> hd s = CHR ''0'') then None
      else (let n = nat_of_digits 0 s in if 255 < n then None else Some n))"

definition be_value :: "nat \<Rightarrow> nat list \<Rightarrow> nat" where
  \<comment> \<open>big-endian digits to the given base\<close>
  "be_value b xs = fold (\<lambda>x n. n * b + x) xs 0"

fun all_some :: "'a option list \<Rightarrow> 'a list option" where
  "all_some [] = Some []"
| "all_some (None # xs) = None"
| "all_some (Some x # xs) = map_option ((#) x) (all_some xs)"

definition parse_ipv4 :: "string \<Rightarrow> nat option" where
  "parse_ipv4 s =
     (let parts = str_split ''.'' s in
      if length parts \<noteq> 4 then None
      else map_option (be_value 256) (all_some (map parse_octet parts)))"

section \<open>IPv6\<close>

definition hex_val :: "char \<Rightarrow> nat option" where
  "hex_val c =
     (let n = (of_char c :: nat) in
      if 48 \<le> n \<and> n \<le> 57 then Some (n - 48)
      else if 97 \<le> n \<and> n \<le> 102 then Some (n - 87)
      else if 65 \<le> n \<and> n \<le> 70 then Some (n - 55)
      else None)"

definition parse_hextet :: "string \<Rightarrow> nat option" where
  "parse_hextet s =
     (if s = [] \<or> 4 < length s then None else map_option (be_value 16) (all_some (map hex_val s)))"

text \<open>
  The parts between colons; a dotted tail stands for its two hextets, here \<open>Inr\<close> values.
\<close>

definition ipv6_parts :: "string \<Rightarrow> (string + nat) list option" where
  "ipv6_parts s =
     (let parts = str_split '':'' s in
      if length parts < 3 then None
      else if CHR ''.'' \<in> set (last parts)
      then (case parse_ipv4 (last parts) of
              None \<Rightarrow> None
            | Some v \<Rightarrow> Some (map Inl (butlast parts) @ [Inr (v div 65536), Inr (v mod 65536)]))
      else Some (map Inl parts))"

definition part_value :: "string + nat \<Rightarrow> nat option" where
  "part_value p = (case p of Inl s \<Rightarrow> parse_hextet s | Inr n \<Rightarrow> Some n)"

definition empty_part :: "string + nat \<Rightarrow> bool" where
  "empty_part p = (p = Inl [])"

definition parse_ipv6_body :: "string \<Rightarrow> nat option" where
  "parse_ipv6_body s =
     (if s = [] \<or> 45 < length s then None
      else case ipv6_parts s of
        None \<Rightarrow> None
      | Some parts \<Rightarrow>
          (if 9 < length parts then None
           else (case filter (\<lambda>i. empty_part (parts ! i)) [1..<length parts - 1] of
              [] \<Rightarrow>
                if length parts \<noteq> 8 then None
                else map_option (be_value 65536) (all_some (map part_value parts))
            | [i] \<Rightarrow>
                (let hi = (if empty_part (hd parts) then i - 1 else i);
                     lo = (let n = length parts - i - 1 in if empty_part (last parts) then n - 1 else n)
                 in if empty_part (hd parts) \<and> hi \<noteq> 0 then None
                    else if empty_part (last parts) \<and> lo \<noteq> 0 then None
                    else if 8 < hi + lo + 1 then None
                    else (case (all_some (map part_value (take hi parts)),
                                all_some (map part_value (drop (length parts - lo) parts))) of
                            (Some hs, Some ls) \<Rightarrow>
                              Some (be_value 65536 (hs @ replicate (8 - (hi + lo)) 0 @ ls))
                          | _ \<Rightarrow> None))
            | _ \<Rightarrow> None)))"

definition parse_ipv6 :: "string \<Rightarrow> nat option" where
  \<comment> \<open>with the scope identifier after a percent sign, which does not count for the value\<close>
  "parse_ipv6 s =
     (case str_cut ''%'' s of
        None \<Rightarrow> parse_ipv6_body s
      | Some (a, scope_id) \<Rightarrow>
          if scope_id = [] \<or> CHR ''%'' \<in> set scope_id then None else parse_ipv6_body a)"

datatype ip_addr = V4 nat | V6 nat

definition ip_address :: "string \<Rightarrow> ip_addr result" where
  "ip_address s =
     (if CHR ''/'' \<in> set s then Inl ValueError
      else case parse_ipv4 s of
        Some n \<Rightarrow> Inr (V4 n)
      | None \<Rightarrow> (case parse_ipv6 s of Some n \<Rightarrow> Inr (V6 n) | None \<Rightarrow> Inl ValueError))"

section \<open>Networks\<close>

definition v4_mask_length :: "nat \<Rightarrow> nat option" where
  \<comment> \<open>the length of a netmask, or of a host mask\<close>
  "v4_mask_length m =
     (case filter (\<lambda>p. m = (2 ^ p - 1) * 2 ^ (32 - p)) [0..<33] of
        p # _ \<Rightarrow> Some p
      | [] \<Rightarrow> (case filter (\<lambda>p. m = 2 ^ (32 - p) - 1) [0..<33] of p # _ \<Rightarrow> Some p | [] \<Rightarrow> None))"

definition parse_prefix :: "nat \<Rightarrow> string \<Rightarrow> nat option" where
  "parse_prefix maxlen s =
     (if s \<noteq> [] \<and> list_all is_digit s
      then (let n = nat_of_digits 0 s in if maxlen < n then None else Some n)
      else None)"

record ip_net =
  in_v6 :: bool
  in_base :: nat
  in_prefix :: nat

definition make_net :: "bool \<Rightarrow> nat \<Rightarrow> nat \<Rightarrow> ip_net" where
  \<comment> \<open>host bits are cleared, as with \<open>strict=False\<close>\<close>
  "make_net v6 n p =
     (let hostbits = (if v6 then 128 else 32) - p
      in \<lparr>in_v6 = v6, in_base = n div 2 ^ hostbits * 2 ^ hostbits, in_prefix = p\<rparr>)"

definition ip_network :: "string \<Rightarrow> ip_net result" where
  "ip_network s =
     (let parts = str_split ''/'' s in
      if 2 < length parts then Inl ValueError
      else
        let a = hd parts; m = (if length parts = 2 then Some (last parts) else None);
            v4 = (case parse_ipv4 a of
                    None \<Rightarrow> None
                  | Some n \<Rightarrow>
                      (case m of
                         None \<Rightarrow> Some (make_net False n 32)
                       | Some t \<Rightarrow>
                           (case parse_prefix 32 t of
                              Some p \<Rightarrow> Some (make_net False n p)
                            | None \<Rightarrow>
                                (case parse_ipv4 t of
                                   None \<Rightarrow> None
                                 | Some q \<Rightarrow> map_option (make_net False n) (v4_mask_length q)))));
            v6 = (case parse_ipv6 a of
                    None \<Rightarrow> None
                  | Some n \<Rightarrow>
                      (case m of
                         None \<Rightarrow> Some (make_net True n 128)
                       | Some t \<Rightarrow> map_option (make_net True n) (parse_prefix 128 t)))
        in case v4 of Some net \<Rightarrow> Inr net
           | None \<Rightarrow> (case v6 of Some net \<Rightarrow> Inr net | None \<Rightarrow> Inl ValueError))"

definition net_size :: "ip_net \<Rightarrow> nat" where
  "net_size net = 2 ^ ((if in_v6 net then 128 else 32) - in_prefix net)"

section \<open>Texts of IPv4 addresses\<close>

definition ipv4_str :: "nat \<Rightarrow> string" where
  "ipv4_str n =
     str_join ''.'' (map (\<lambda>d. digits_nat (n div d mod 256)) [16777216, 65536, 256, 1])"

lemma all_some_map: "(\<And>x. x \<in> set xs \<Longrightarrow> f x = Some (g x)) \<Longrightarrow> all_some (map f xs) = Some (map g xs)"
  by (induction xs) auto

lemma parse_octet_digits:
  assumes "n < 256"
  shows "parse_octet (digits_nat n) = Some n"
proof -
  consider "n < 10" | "10 \<le> n" "n < 100" | "100 \<le> n" by linarith
  then show ?thesis
  proof cases
    case 1
    then have "digits_nat n = [digit_char n]" by (simp add: digits_nat.simps)
    moreover have "digit_char n = CHR ''0'' \<Longrightarrow> n = 0"
      using 1 digit_val_digit_char [of n] by (auto simp: digit_val_def)
    moreover have "digit_char 0 = CHR ''0''" "is_digit (CHR ''0'')" "digit_val (CHR ''0'') = 0" by code_simp+
    ultimately show ?thesis using 1 assms by (cases "n = 0") (auto simp: parse_octet_def)
  next
    case 2
    then have d: "digits_nat n = [digit_char (n div 10), digit_char (n mod 10)]"
      by (simp add: digits_nat.simps [of n] digits_nat.simps [of "n div 10"])
    have "n div 10 < 10" "n div 10 \<noteq> 0" using 2 by auto
    then have "digit_char (n div 10) \<noteq> CHR ''0''"
      using digit_val_digit_char [of "n div 10"] by (auto simp: digit_val_def)
    then show ?thesis using 2 assms d nat_of_digits_digits_nat [of n]
      by (simp add: parse_octet_def)
  next
    case 3
    have lt: "n div 10 < 100" "10 \<le> n div 10" "n div 10 div 10 < 10" "n div 10 div 10 \<noteq> 0"
      using 3 assms by auto
    then have d: "digits_nat n = [digit_char (n div 10 div 10), digit_char (n div 10 mod 10), digit_char (n mod 10)]"
      using 3 by (simp add: digits_nat.simps [of n] digits_nat.simps [of "n div 10"] digits_nat.simps [of "n div 10 div 10"])
    have "digit_char (n div 10 div 10) \<noteq> CHR ''0''"
      using digit_val_digit_char [of "n div 10 div 10"] lt by (auto simp: digit_val_def)
    then show ?thesis using lt assms d nat_of_digits_digits_nat [of n]
      by (simp add: parse_octet_def)
  qed
qed

theorem parse_ipv4_str:
  assumes "n < 2 ^ 32"
  shows "parse_ipv4 (ipv4_str n) = Some n"
proof -
  let ?ds = "map (\<lambda>d. n div d mod 256) [16777216, 65536, 256, 1]"
  have no: "CHR ''.'' \<notin> set (digits_nat k)" for k
    using digits_nat_digits [of "CHR ''.''" k] by (auto simp: is_digit_def)
  have "str_split ''.'' (ipv4_str n) = map digits_nat ?ds"
    unfolding ipv4_str_def by (subst str_split_join) (use no in auto)
  moreover have "all_some (map parse_octet (map digits_nat ?ds)) = Some ?ds"
    by (simp add: parse_octet_digits)
  moreover have "be_value 256 ?ds = n"
  proof -
    have e: "n div 65536 = n div 256 div 256" "n div 16777216 = n div 256 div 256 div 256"
      by (simp_all add: div_mult2_eq [symmetric])
    have "n div 256 div 256 div 256 < 256" using assms by (simp add: div_mult2_eq [symmetric])
    then have m: "n div 256 div 256 div 256 mod 256 = n div 256 div 256 div 256" by simp
    have "be_value 256 ?ds =
        ((n div 256 div 256 div 256 * 256 + n div 256 div 256 mod 256) * 256 + n div 256 mod 256) * 256 + n mod 256"
      by (simp only: be_value_def e m list.map fold.simps o_apply id_apply div_by_1 mult_0 add_0)
    also have "\<dots> = n" by (simp only: div_mult_mod_eq)
    finally show ?thesis .
  qed
  ultimately show ?thesis by (simp add: parse_ipv4_def)
qed

interpretation ipv4_text: text_codec ipv4_str "\<lambda>s n. parse_ipv4 s = Some n" "\<lambda>n. n < 2 ^ 32"
  by unfold_locales (auto simp: parse_ipv4_str)

end
