(* ===== verification/Records.thy ===== *)
theory Records
  imports Common PyIp
begin

text \<open>
  The validated records of the configuration:
  \<^verbatim>\<open>splunk_connect_for_snmp/common/inventory_record.py\<close> and \<^verbatim>\<open>common/discovery_record.py\<close>.

  Both are pydantic models.  For every field, in the order of the class, the validator of the
  source runs on a value that is given, and the field's own type check on its result; a
  \<open>ValueError\<close> or \<open>TypeError\<close> marks the field as invalid and the others are still looked at,
  any other exception leaves the constructor at once.  A field that is not given takes its
  default without validation.  Whether a host name resolves is a parameter.
\<close>

section \<open>Fields\<close>

type_synonym kwargs = "(string, pyval) dict"

definition blank :: "pyval \<Rightarrow> bool" where
  \<comment> \<open>\<open>value is None or (isinstance(value, str) and value.strip() == "")\<close>\<close>
  "blank v = (case v of PNone \<Rightarrow> True | PStr s \<Rightarrow> str_strip s = [] | _ \<Rightarrow> False)"

text \<open>The type checks of pydantic for optional strings, integers and booleans.\<close>

definition opt_str :: "pyval \<Rightarrow> pyval result" where
  "opt_str v =
     (case v of
        PNone \<Rightarrow> Inr PNone
      | PStr s \<Rightarrow> Inr (PStr s)
      | PBytes s \<Rightarrow> Inr (PStr s)
      | PBool b \<Rightarrow> Inr (PStr (if b then ''True'' else ''False''))
      | PInt i \<Rightarrow> Inr (PStr (str_of_int i))
      | PFloat _ \<Rightarrow> Inl OtherError \<comment> \<open>its text is not modelled\<close>
      | _ \<Rightarrow> Inl TypeError)"

definition opt_int :: "pyval \<Rightarrow> pyval result" where
  "opt_int v =
     (case v of
        PNone \<Rightarrow> Inr PNone
      | _ \<Rightarrow> (case py_int v of Inr i \<Rightarrow> Inr (PInt i) | Inl _ \<Rightarrow> Inl TypeError))"

definition opt_bool :: "pyval \<Rightarrow> pyval result" where
  "opt_bool v = (case v of PNone \<Rightarrow> Inr PNone | PBool b \<Rightarrow> Inr (PBool b) | _ \<Rightarrow> Inl TypeError)"

definition opt_list :: "pyval \<Rightarrow> pyval result" where
  "opt_list v = (case v of PList xs \<Rightarrow> Inr (PList xs) | PTuple xs \<Rightarrow> Inr (PList xs) | _ \<Rightarrow> Inl TypeError)"

text \<open>
  One field: its name, the default (absent when the field is required), and the validator
  followed by the type check, which may look at the fields validated before it.
\<close>

record field_spec =
  fs_name :: string
  fs_default :: "pyval option"
  fs_check :: "kwargs \<Rightarrow> pyval \<Rightarrow> pyval result"

definition caught :: "pyexn \<Rightarrow> bool" where
  \<comment> \<open>what pydantic turns into a validation error\<close>
  "caught e = (e \<in> {ValueError, TypeError, UnicodeDecodeError})"

fun validate_fields :: "field_spec list \<Rightarrow> kwargs \<Rightarrow> kwargs \<Rightarrow> bool \<Rightarrow> kwargs result" where
  \<comment> \<open>the values so far, and whether a field was invalid\<close>
  "validate_fields [] given vals bad = (if bad then Inl ValidationError else Inr vals)"
| "validate_fields (f # fs) given vals bad =
     (case dict_get given (fs_name f) of
        None \<Rightarrow>
          (case fs_default f of
             None \<Rightarrow> validate_fields fs given vals True
           | Some v \<Rightarrow> validate_fields fs given (dict_set (fs_name f) v vals) bad)
      | Some v \<Rightarrow>
          (case fs_check f vals v of
             Inr w \<Rightarrow> validate_fields fs given (dict_set (fs_name f) w vals) bad
           | Inl e \<Rightarrow> if caught e then validate_fields fs given vals True else Inl e))"

section \<open>The validators of an inventory record\<close>

definition address_validator :: "(string \<Rightarrow> pyval \<Rightarrow> bool) \<Rightarrow> kwargs \<Rightarrow> pyval \<Rightarrow> pyval result" where
  "address_validator resolves vals v =
     (case v of
        PNone \<Rightarrow> Inl ValueError
      | PStr s \<Rightarrow>
          if str_startswith s ''#'' then Inl ValueError
          else (case ip_address s of
                  Inr _ \<Rightarrow> Inr v
                | Inl _ \<Rightarrow> res_bind (dict_item vals ''port'') (\<lambda>p.
                             if resolves s p then Inr v else Inl ValueError))
      | PBytes _ \<Rightarrow> Inl TypeError
      | _ \<Rightarrow> Inl AttributeError)"

definition port_validator :: "pyval \<Rightarrow> pyval result" where
  "port_validator v =
     (if blank v then Inr (PInt 161)
      else res_bind (case v of PBool b \<Rightarrow> Inr (if b then 1 else 0) | PInt i \<Rightarrow> Inr i | _ \<Rightarrow> py_int v) (\<lambda>i.
             if i < 1 \<or> 65535 < i then Inl ValueError
             else Inr (case v of PBool b \<Rightarrow> v | _ \<Rightarrow> PInt i)))"

definition version_validator :: "pyval \<Rightarrow> pyval result" where
  "version_validator v =
     (case v of
        PNone \<Rightarrow> Inr (PStr ''2c'')
      | PStr s \<Rightarrow>
          if str_strip s = [] then Inr (PStr ''2c'')
          else if s \<notin> {''1'', ''2c'', ''3''} then Inl ValueError else Inr v
      | PBytes s \<Rightarrow> Inl ValueError
      | _ \<Rightarrow> Inl AttributeError)"

definition community_secret_security_engine_validator :: "pyval \<Rightarrow> pyval result" where
  "community_secret_security_engine_validator v = (if blank v then Inr PNone else Inr v)"

definition walk_interval_validator :: "pyval \<Rightarrow> pyval result" where
  "walk_interval_validator v =
     (if \<not> py_truthy v then Inr (PInt 42000)
      else res_map (\<lambda>i. if i < 1800 then PInt 1800 else if 604800 < i then PInt 604800 else PInt i)
             (py_int v))"

definition max_oid_to_process_validator :: "pyval \<Rightarrow> pyval result" where
  "max_oid_to_process_validator v =
     (if blank v then Inr PNone
      else res_map (\<lambda>i. if i < 1 then PNone else PInt i) (py_int v))"

definition profiles_validator :: "pyval \<Rightarrow> pyval result" where
  "profiles_validator v =
     (if blank v then Inr (PList [])
      else (case v of PStr s \<Rightarrow> Inr (PList (map PStr (str_split '';'' s))) | _ \<Rightarrow> Inr v))"

definition smart_profiles_validator :: "pyval \<Rightarrow> pyval result" where
  "smart_profiles_validator v = (if blank v then Inr (PBool True) else res_map PBool (human_bool v False))"

definition delete_validator :: "pyval \<Rightarrow> pyval result" where
  "delete_validator v = (if blank v then Inr (PBool False) else res_map PBool (human_bool v False))"

definition group_validator :: "pyval \<Rightarrow> pyval result" where
  "group_validator v = (if blank v then Inr (PBool False) else Inr v)"

definition inventory_fields :: "(string \<Rightarrow> pyval \<Rightarrow> bool) \<Rightarrow> field_spec list" where
  "inventory_fields resolves =
     (let f = (\<lambda>n d val typ. \<lparr>fs_name = n, fs_default = d, fs_check = (\<lambda>_ v. res_bind (val v) typ)\<rparr>) in
      [f ''port'' (Some (PInt 161)) port_validator opt_int,
       \<lparr>fs_name = ''address'', fs_default = Some PNone,
        fs_check = (\<lambda>seen v. res_bind (address_validator resolves seen v) opt_str)\<rparr>,
       f ''version'' (Some PNone) version_validator opt_str,
       f ''community'' (Some PNone) community_secret_security_engine_validator opt_str,
       f ''secret'' (Some PNone) community_secret_security_engine_validator opt_str,
       f ''security_engine'' (Some (PStr [])) community_secret_security_engine_validator opt_str,
       f ''walk_interval'' (Some (PInt 42000)) walk_interval_validator opt_int,
       f ''max_oid_to_process'' (Some PNone) max_oid_to_process_validator opt_int,
       f ''profiles'' None profiles_validator opt_list,
       f ''smart_profiles'' (Some PNone) smart_profiles_validator opt_bool,
       f ''delete'' (Some PNone) delete_validator opt_bool,
       f ''group'' (Some PNone) group_validator opt_str])"

section \<open>The inventory record\<close>

definition ALTERNATIVE_FIELDS :: "(string \<times> string) list" where
  "ALTERNATIVE_FIELDS = [(''securityEngine'', ''security_engine''), (''SmartProfiles'', ''smart_profiles'')]"

definition rename_fields :: "kwargs \<Rightarrow> kwargs" where
  "rename_fields given =
     fold (\<lambda>(old, new) d.
        case dict_get d old of None \<Rightarrow> d | Some v \<Rightarrow> dict_del old (dict_set new v d))
       ALTERNATIVE_FIELDS given"

type_synonym inventory_record = kwargs

definition InventoryRecord :: "(string \<Rightarrow> pyval \<Rightarrow> bool) \<Rightarrow> kwargs \<Rightarrow> inventory_record result" where
  \<comment> \<open>the validated fields by name, which is also what \<open>asdict\<close> returns\<close>
  "InventoryRecord resolves given =
     validate_fields (inventory_fields resolves) (rename_fields given) [] False"

definition rec_field :: "inventory_record \<Rightarrow> string \<Rightarrow> pyval" where
  "rec_field ir n = dict_get_or ir n PNone"

section \<open>The discovery record\<close>

definition py_less :: "pyval \<Rightarrow> int \<Rightarrow> bool result" where
  \<comment> \<open>\<open>v < i\<close>\<close>
  "py_less v i =
     (case v of
        PBool b \<Rightarrow> Inr ((if b then 1 else 0) < i)
      | PInt j \<Rightarrow> Inr (j < i)
      | PFloat FNan \<Rightarrow> Inr False
      | PFloat (FInf neg) \<Rightarrow> Inr neg
      | PFloat (FFin q) \<Rightarrow> Inr (q < of_int i)
      | _ \<Rightarrow> Inl TypeError)"

definition py_less_eq :: "pyval \<Rightarrow> int \<Rightarrow> bool result" where
  "py_less_eq v i =
     (case v of
        PFloat FNan \<Rightarrow> Inr False
      | PFloat (FFin q) \<Rightarrow> Inr (q \<le> of_int i)
      | _ \<Rightarrow> py_less v (i + 1))"

definition network_address_validator :: "pyval \<Rightarrow> pyval result" where
  \<comment> \<open>an integer or its bytes also make a network; here only texts do\<close>
  "network_address_validator v =
     (case v of
        PStr s \<Rightarrow> (case ip_network s of Inl _ \<Rightarrow> Inl ValueError | Inr _ \<Rightarrow> Inr v)
      | _ \<Rightarrow> Inl ValueError)"

definition discovery_port_validator :: "pyval \<Rightarrow> pyval result" where
  \<comment> \<open>\<open>isinstance(value, int) and value >= 1 or value <= 65535\<close>\<close>
  "discovery_port_validator v =
     (if v = PNone then Inr (PInt 161)
      else res_bind (case v of
               PInt i \<Rightarrow> Inr (1 \<le> i) | PBool b \<Rightarrow> Inr b | _ \<Rightarrow> Inr False) (\<lambda>a.
             res_bind (if a then Inr True else py_less_eq v 65535) (\<lambda>ok.
               if ok then Inr v else Inl ValueError)))"

definition frequency_validator :: "pyval \<Rightarrow> pyval result" where
  "frequency_validator v =
     (if v = PNone then Inr (PInt 86400)
      else res_bind (py_less v 21600) (\<lambda>lt. if lt then Inr (PInt 21600) else Inr v))"

definition device_rules_validator :: "pyval \<Rightarrow> pyval result" where
  "device_rules_validator v = (if v = PNone \<or> v = PList [] then Inr PNone else Inr v)"

definition delete_already_discovered_validator :: "pyval \<Rightarrow> pyval result" where
  "delete_already_discovered_validator v =
     (if v = PNone then Inr (PBool False) else res_map PBool (human_bool v False))"

definition opt_dicts :: "pyval \<Rightarrow> pyval result" where
  "opt_dicts v =
     (case v of
        PNone \<Rightarrow> Inr PNone
      | PList xs \<Rightarrow>
          if list_all (\<lambda>x. case x of PDict _ \<Rightarrow> True | _ \<Rightarrow> False) xs then Inr v else Inl TypeError
      | _ \<Rightarrow> Inl TypeError)"

definition discovery_fields :: "field_spec list" where
  "discovery_fields =
     (let f = (\<lambda>n d val typ. \<lparr>fs_name = n, fs_default = Some d, fs_check = (\<lambda>_ v. res_bind (val v) typ)\<rparr>) in
      [f ''discovery_name'' PNone Inr opt_str,
       f ''network_address'' PNone network_address_validator opt_str,
       f ''address'' PNone Inr opt_str,
       f ''port'' (PInt 161) discovery_port_validator opt_int,
       f ''version'' PNone version_validator opt_str,
       f ''community'' PNone community_secret_security_engine_validator opt_str,
       f ''secret'' PNone community_secret_security_engine_validator opt_str,
       f ''security_engine'' (PStr []) community_secret_security_engine_validator opt_str,
       f ''frequency'' PNone frequency_validator opt_int,
       f ''delete_already_discovered'' PNone delete_already_discovered_validator opt_bool,
       f ''device_rules'' PNone device_rules_validator opt_dicts])"

definition DiscoveryRecord :: "kwargs \<Rightarrow> kwargs result" where
  "DiscoveryRecord given = validate_fields discovery_fields given [] False"

section \<open>What a validated record satisfies\<close>

definition field_ok :: "field_spec \<Rightarrow> (pyval \<Rightarrow> bool) \<Rightarrow> bool" where
  \<comment> \<open>every value the field can end with satisfies the predicate\<close>
  "field_ok f P \<longleftrightarrow>
     (\<forall>v. fs_default f = Some v \<longrightarrow> P v) \<and> (\<forall>seen v w. fs_check f seen v = Inr w \<longrightarrow> P w)"

lemma validate_fields_keeps:
  assumes "validate_fields fs given vals bad = Inr res" "k \<notin> fs_name ` set fs"
  shows "dict_get res k = dict_get vals k"
  using assms
  by (induction fs given vals bad rule: validate_fields.induct)
     (auto split: option.splits sum.splits if_splits)

lemma validate_fields_wf:
  "validate_fields fs given vals bad = Inr res \<Longrightarrow> dict_wf vals \<Longrightarrow> dict_wf res"
  by (induction fs given vals bad rule: validate_fields.induct)
     (auto split: option.splits sum.splits if_splits)

lemma inventory_record_wf: "InventoryRecord resolves given = Inr ir \<Longrightarrow> dict_wf ir"
  unfolding InventoryRecord_def by (erule validate_fields_wf) (rule dict_wf_empty)

lemma validate_fields_ok:
  assumes "validate_fields fs given vals bad = Inr res" "distinct (map fs_name fs)"
    and "f \<in> set fs" "field_ok f P"
  shows "\<exists>v. dict_get res (fs_name f) = Some v \<and> P v"
  using assms
proof (induction fs given vals bad rule: validate_fields.induct)
  case (2 g fs given vals bad)
  have no: "\<not> bad' \<Longrightarrow> True" for bad' by simp
  have bad: "validate_fields fs given seen True \<noteq> Inr res" for seen
    by (induction fs arbitrary: seen) (auto split: option.splits sum.splits if_splits)
  obtain w where w: "validate_fields fs given (dict_set (fs_name g) w vals) bad = Inr res"
    "fs_default g = Some w \<or> (\<exists>v. fs_check g vals v = Inr w)"
    using "2.prems"(1) bad by (auto split: option.splits sum.splits if_splits)
  show ?case
  proof (cases "f = g")
    case True
    then have "dict_get res (fs_name f) = Some w"
      using validate_fields_keeps [OF w(1)] "2.prems"(2) by simp
    moreover have "P w" using True w(2) "2.prems"(4) by (auto simp: field_ok_def)
    ultimately show ?thesis by blast
  next
    case False
    then show ?thesis
      using "2.IH" "2.prems" bad by (auto split: option.splits sum.splits if_splits)
  qed
qed simp

definition int_in :: "int \<Rightarrow> int \<Rightarrow> pyval \<Rightarrow> bool" where
  "int_in a b v = (case v of PInt i \<Rightarrow> a \<le> i \<and> i \<le> b | _ \<Rightarrow> False)"

definition version_ok :: "pyval \<Rightarrow> bool" where
  "version_ok v \<longleftrightarrow> v \<in> {PNone, PStr ''1'', PStr ''2c'', PStr ''3''}"

definition address_ok :: "(string \<Rightarrow> pyval \<Rightarrow> bool) \<Rightarrow> pyval \<Rightarrow> bool" where
  \<comment> \<open>absent, an IP address or a name that resolves\<close>
  "address_ok resolves v \<longleftrightarrow>
     (case v of
        PNone \<Rightarrow> True
      | PStr s \<Rightarrow> \<not> str_startswith s ''#'' \<and> (is_ok (ip_address s) \<or> (\<exists>p. resolves s p))
      | _ \<Rightarrow> False)"

definition max_oid_ok :: "pyval \<Rightarrow> bool" where
  "max_oid_ok v \<longleftrightarrow> (case v of PNone \<Rightarrow> True | PInt i \<Rightarrow> 1 \<le> i | _ \<Rightarrow> False)"

definition is_plist :: "pyval \<Rightarrow> bool" where
  "is_plist v = (case v of PList _ \<Rightarrow> True | _ \<Rightarrow> False)"

lemma opt_int_simps [simp]:
  "opt_int (PInt i) = Inr (PInt i)" "opt_int PNone = Inr PNone"
  "opt_int (PBool b) = Inr (PInt (if b then 1 else 0))"
  by (simp_all add: opt_int_def py_int_def)

lemma opt_str_simps [simp]: "opt_str (PStr s) = Inr (PStr s)" "opt_str PNone = Inr PNone"
  by (simp_all add: opt_str_def)

lemma inventory_fields_ok:
  "field_ok (inventory_fields resolves ! 0) (int_in 1 65535)"
  "field_ok (inventory_fields resolves ! 1) (address_ok resolves)"
  "field_ok (inventory_fields resolves ! 2) version_ok"
  "field_ok (inventory_fields resolves ! 6) (int_in 1800 604800)"
  "field_ok (inventory_fields resolves ! 7) max_oid_ok"
  "field_ok (inventory_fields resolves ! 8) is_plist"
proof -
  show "field_ok (inventory_fields resolves ! 0) (int_in 1 65535)"
    by (auto simp: inventory_fields_def field_ok_def int_in_def port_validator_def Let_def res_splits
        split: pyval.splits if_splits)
  show "field_ok (inventory_fields resolves ! 1) (address_ok resolves)"
    by (auto simp: inventory_fields_def field_ok_def address_ok_def address_validator_def Let_def res_splits
        split: pyval.splits if_splits sum.splits)
  show "field_ok (inventory_fields resolves ! 2) version_ok"
    by (auto simp: inventory_fields_def field_ok_def version_ok_def version_validator_def Let_def res_splits
        split: pyval.splits if_splits)
  show "field_ok (inventory_fields resolves ! 6) (int_in 1800 604800)"
    by (auto simp: inventory_fields_def field_ok_def int_in_def walk_interval_validator_def Let_def res_splits
        split: if_splits)
  show "field_ok (inventory_fields resolves ! 7) max_oid_ok"
    by (auto simp: inventory_fields_def field_ok_def max_oid_ok_def max_oid_to_process_validator_def
        Let_def res_splits split: if_splits)
  show "field_ok (inventory_fields resolves ! 8) is_plist"
    by (auto simp: inventory_fields_def field_ok_def is_plist_def opt_list_def Let_def res_splits
        split: pyval.splits)
qed

lemma inventory_field_names:
  "map fs_name (inventory_fields resolves) =
     [''port'', ''address'', ''version'', ''community'', ''secret'', ''security_engine'', ''walk_interval'',
      ''max_oid_to_process'', ''profiles'', ''smart_profiles'', ''delete'', ''group'']"
  by (simp add: inventory_fields_def)

lemma inventory_record_field:
  assumes "InventoryRecord resolves given = Inr ir" "i < 12" "field_ok (inventory_fields resolves ! i) P"
  shows "P (rec_field ir (map fs_name (inventory_fields resolves) ! i))"
proof -
  have len: "length (inventory_fields resolves) = 12" by (simp add: inventory_fields_def)
  have "distinct (map fs_name (inventory_fields resolves))" unfolding inventory_field_names by simp
  then show ?thesis
    using validate_fields_ok [OF assms(1) [unfolded InventoryRecord_def] _ _ assms(3)] assms(2) len
    by (auto simp: rec_field_def dict_get_or_def)
qed

lemma validate_fields_outcome:
  assumes "validate_fields fs given vals bad = Inr res" "distinct (map fs_name fs)" "f \<in> set fs"
  shows "case dict_get given (fs_name f) of
      None \<Rightarrow> dict_get res (fs_name f) = fs_default f \<and> fs_default f \<noteq> None
    | Some v \<Rightarrow> \<exists>seen w. fs_check f seen v = Inr w \<and> dict_get res (fs_name f) = Some w"
  using assms
proof (induction fs given vals bad rule: validate_fields.induct)
  case (2 g fs given vals bad)
  have bad: "validate_fields fs given seen True \<noteq> Inr res" for seen
    by (induction fs arbitrary: seen) (auto split: option.splits sum.splits if_splits)
  show ?case
  proof (cases "f = g")
    case True
    have keep: "dict_get res (fs_name g) = Some w" if "validate_fields fs given (dict_set (fs_name g) w vals) bad = Inr res" for w
      using validate_fields_keeps [OF that] "2.prems"(2) by simp
    show ?thesis
    proof (cases "dict_get given (fs_name g)")
      case None
      then show ?thesis using "2.prems"(1) bad keep True by (cases "fs_default g") simp_all
    next
      case (Some v)
      then obtain w where "fs_check g vals v = Inr w" "validate_fields fs given (dict_set (fs_name g) w vals) bad = Inr res"
        using "2.prems"(1) bad by (auto split: sum.splits if_splits)
      then show ?thesis using keep Some True by auto
    qed
  next
    case False
    then show ?thesis
      using "2.IH" "2.prems" bad by (auto split: option.splits sum.splits if_splits)
  qed
qed simp

lemma rename_fields_get:
  "k \<notin> {''securityEngine'', ''security_engine'', ''SmartProfiles'', ''smart_profiles''} \<Longrightarrow>
    dict_get (rename_fields given) k = dict_get given k"
  by (simp add: rename_fields_def ALTERNATIVE_FIELDS_def split: option.split)

lemma inventory_record_outcome:
  assumes "InventoryRecord resolves given = Inr ir" "i < 12"
    and "fs_name (inventory_fields resolves ! i) = n"
    and "n \<notin> {''securityEngine'', ''security_engine'', ''SmartProfiles'', ''smart_profiles''}"
  shows "case dict_get given n of
      None \<Rightarrow> fs_default (inventory_fields resolves ! i) = Some (rec_field ir n)
    | Some v \<Rightarrow> \<exists>seen. fs_check (inventory_fields resolves ! i) seen v = Inr (rec_field ir n)"
proof -
  have "distinct (map fs_name (inventory_fields resolves))" unfolding inventory_field_names by simp
  moreover have "inventory_fields resolves ! i \<in> set (inventory_fields resolves)"
    using assms(2) by (intro nth_mem) (simp add: inventory_fields_def)
  ultimately show ?thesis
    using validate_fields_outcome [OF assms(1) [unfolded InventoryRecord_def], of "inventory_fields resolves ! i"]
      rename_fields_get [OF assms(4), of given] assms(3)
    by (auto simp: rec_field_def dict_get_or_def split: option.splits)
qed


definition sample_given :: kwargs where
  "sample_given = [(''address'', PStr ''h''), (''walk_interval'', PInt 60), (''profiles'', PNone)]"

definition valid_sample :: inventory_record where
  "valid_sample = [(''port'', PInt 161), (''address'', PStr ''h''), (''version'', PNone), (''community'', PNone),
     (''secret'', PNone), (''security_engine'', PStr []), (''walk_interval'', PInt 1800),
     (''max_oid_to_process'', PNone), (''profiles'', PList []), (''smart_profiles'', PNone), (''delete'', PNone),
     (''group'', PNone)]"

lemma sample_given_valid: "InventoryRecord (\<lambda>_ _. True) sample_given = Inr valid_sample"
proof -
  have h: "ip_address ''h'' = Inl ValueError" by code_simp
  show ?thesis
    unfolding InventoryRecord_def rename_fields_def ALTERNATIVE_FIELDS_def sample_given_def valid_sample_def
      inventory_fields_def Let_def
    by (simp add: dict_get_Cons address_validator_def h str_startswith_def dict_item_def blank_def py_truthy_def
        walk_interval_validator_def py_int_def profiles_validator_def opt_list_def res_splits dict_set_def)
qed

definition full_given :: kwargs where
  "full_given = [(''address'', PStr ''h''), (''version'', PStr ''3''), (''walk_interval'', PInt 60), (''profiles'', PNone)]"

lemma full_given_valid: "is_ok (InventoryRecord (\<lambda>_ _. True) full_given)"
proof -
  have h: "ip_address ''h'' = Inl ValueError" "str_strip ''3'' \<noteq> []" by code_simp+
  show ?thesis
    unfolding InventoryRecord_def rename_fields_def ALTERNATIVE_FIELDS_def full_given_def
      inventory_fields_def Let_def
    by (simp add: dict_get_Cons address_validator_def h str_startswith_def dict_item_def blank_def py_truthy_def
        walk_interval_validator_def version_validator_def py_int_def profiles_validator_def opt_list_def res_splits)
qed


text \<open>
  The port of a discovery record is not bounded: its validator lets every integer
  through, because the comparison with the upper bound alone is enough for it.
\<close>

theorem discovery_port_unbounded:
  "discovery_port_validator (PInt i) = Inr (PInt i)"
proof -
  have "py_less_eq (PInt i) 65535 = Inr (i < 65536)" by (simp add: py_less_eq_def py_less_def)
  then show ?thesis by (cases "1 \<le> i") (simp_all add: discovery_port_validator_def)
qed

text \<open>
  Validators are not run on a field that is left out.  A discovery without a period or a version has
  none of them, although the validators and the documentation name 86400 seconds and 2c.
\<close>

lemma validate_fields_default:
  assumes "validate_fields fs given vals bad = Inr res" "distinct (map fs_name fs)" "f \<in> set fs"
    and "dict_get given (fs_name f) = None" "fs_default f = Some v"
  shows "dict_get res (fs_name f) = Some v"
  using assms(1-4)
proof (induction fs given vals bad rule: validate_fields.induct)
  case (2 g fs given vals bad)
  show ?case
  proof (cases "f = g")
    case True
    then have "validate_fields fs given (dict_set (fs_name g) v vals) bad = Inr res"
      using "2.prems"(1,4) assms(5) by simp
    from validate_fields_keeps [OF this] show ?thesis using True "2.prems"(2) by simp
  next
    case False
    then show ?thesis
      using "2.IH" "2.prems" by (auto split: option.splits sum.splits if_splits)
  qed
qed simp

theorem discovery_defaults_not_validated:
  assumes "DiscoveryRecord given = Inr rec"
  shows "dict_get given ''frequency'' = None \<Longrightarrow> rec_field rec ''frequency'' = PNone"
    and "dict_get given ''version'' = None \<Longrightarrow> rec_field rec ''version'' = PNone"
proof -
  have names: "distinct (map fs_name discovery_fields)" by (simp add: discovery_fields_def Let_def)
  have nth: "discovery_fields ! 8 \<in> set discovery_fields" "discovery_fields ! 4 \<in> set discovery_fields"
    by (simp_all add: discovery_fields_def Let_def)
  note d = validate_fields_default [OF assms [unfolded DiscoveryRecord_def] names]
  show "dict_get given ''frequency'' = None \<Longrightarrow> rec_field rec ''frequency'' = PNone"
    using d [OF nth(1), of PNone] by (simp add: discovery_fields_def Let_def rec_field_def dict_get_or_def)
  show "dict_get given ''version'' = None \<Longrightarrow> rec_field rec ''version'' = PNone"
    using d [OF nth(2), of PNone] by (simp add: discovery_fields_def Let_def rec_field_def dict_get_or_def)
qed

end
