(* ===== verification/Collections.thy ===== *)
theory Collections
  imports Varbinds
begin

text \<open>
  The configuration kept in MongoDB: the managers of the groups, the profiles and the engine
  identifiers (\<^verbatim>\<open>splunk_connect_for_snmp/common/collection_manager.py\<close>) and the JSON schemas that
  they validate against (\<^verbatim>\<open>common/collections_schemas.py\<close>).

  A collection is the list of its documents in the order they are found.  The library
  \<open>jsonschema\<close> is a parameter, \<open>valid schema value\<close>; \<open>json_schema_rule\<close> states what its
  documentation says of the keywords that occur here.  What reading the configuration file
  gives is a parameter too: the parsed YAML or the exception of opening it.
\<close>

section \<open>The schemas\<close>

definition jobj :: "(string \<times> pyval) list \<Rightarrow> string list \<Rightarrow> pyval" where
  \<comment> \<open>an object schema with the given properties, those required, and no others\<close>
  "jobj props required =
     PDict [(''type'', PStr ''object''), (''properties'', PDict props),
            (''required'', PList (map PStr required)), (''additionalProperties'', PBool False)]"

definition jtype :: "string \<Rightarrow> pyval" where
  "jtype t = PDict [(''type'', PStr t)]"

definition jenum :: "string list \<Rightarrow> pyval" where
  "jenum xs = PDict [(''type'', PStr ''string''), (''enum'', PList (map PStr xs))]"

definition jtypes :: "string list \<Rightarrow> pyval" where
  "jtypes ts = PDict [(''type'', PList (map PStr ts))]"

definition jarray :: "pyval \<Rightarrow> pyval" where
  "jarray items = PDict [(''type'', PStr ''array''), (''items'', items)]"

definition varbinds_type :: pyval where
  "varbinds_type = jarray (jarray (jtypes [''integer'', ''string'']))"

definition standard_profile_schema :: pyval where
  "standard_profile_schema =
     jobj [(''frequency'', jtype ''integer''), (''varBinds'', varbinds_type)] [''frequency'', ''varBinds'']"

definition walk_profile_schema :: pyval where
  "walk_profile_schema =
     jobj [(''varBinds'', varbinds_type),
           (''condition'', jobj [(''type'', jenum [''walk''])] [''type''])]
       [''condition'', ''varBinds'']"

definition base_profile_schema :: pyval where
  "base_profile_schema =
     jobj [(''frequency'', jtype ''integer''), (''varBinds'', varbinds_type),
           (''condition'', jobj [(''type'', jenum [''base'', ''mandatory''])] [''type''])]
       [''condition'', ''varBinds'', ''frequency'']"

definition smart_profile_schema :: pyval where
  "smart_profile_schema =
     jobj [(''frequency'', jtype ''integer''), (''varBinds'', varbinds_type),
           (''condition'', jobj [(''type'', jenum [''field'']), (''field'', jtype ''string''),
                                 (''patterns'', jarray (jtype ''string''))]
                             [''type'', ''field'', ''patterns''])]
       [''condition'', ''varBinds'', ''frequency'']"

definition conditional_profile_schema :: pyval where
  "conditional_profile_schema =
     jobj [(''frequency'', jtype ''integer''), (''varBinds'', varbinds_type),
           (''conditions'', jarray
              (jobj [(''field'', jtype ''string''),
                     (''operation'', jenum [''lt'', ''gt'', ''regex'', ''in'', ''equals'']),
                     (''value'', jtypes [''number'', ''string'', ''array'']),
                     (''negate_operation'', jtypes [''boolean'', ''string''])]
                 [''field'', ''operation'', ''value'']))]
       [''conditions'', ''varBinds'', ''frequency'']"

definition get_all_profile_schemas :: "pyval list" where
  "get_all_profile_schemas =
     [standard_profile_schema, walk_profile_schema, base_profile_schema, smart_profile_schema,
      conditional_profile_schema]"

definition group_schema :: pyval where
  "group_schema =
     jarray (jobj [(''address'', jtype ''string''), (''port'', jtype ''integer''),
                   (''community'', jtype ''string''), (''secret'', jtype ''string''),
                   (''version'', jtype ''string''), (''security_engine'', jtype ''string''),
                   (''max_oid_to_process'', jtype ''integer'')] [''address''])"

definition get_all_group_schemas :: "pyval list" where
  "get_all_group_schemas = [group_schema]"

definition engine_id_record_schema :: pyval where
  "engine_id_record_schema =
     jobj [(''security_engine_id'',
              PDict [(''type'', PStr ''string''), (''pattern'', PStr ''^[0-9a-fA-F]+$'')]),
           (''host'', jtype ''string'')]
       [''security_engine_id'', ''host'']"

section \<open>What the schemas mean\<close>

type_synonym validator_fn = "pyval \<Rightarrow> pyval \<Rightarrow> bool"

definition has_type :: "string \<Rightarrow> pyval \<Rightarrow> bool" where
  \<comment> \<open>a float with an integral value is an integer; a boolean is not a number\<close>
  "has_type t v =
     (case v of
        PNone \<Rightarrow> t = ''null''
      | PBool _ \<Rightarrow> t = ''boolean''
      | PInt _ \<Rightarrow> t = ''integer'' \<or> t = ''number''
      | PFloat f \<Rightarrow> t = ''number'' \<or> t = ''integer'' \<and> (case f of FFin q \<Rightarrow> q = of_int \<lfloor>q\<rfloor> | _ \<Rightarrow> False)
      | PStr _ \<Rightarrow> t = ''string''
      | PList _ \<Rightarrow> t = ''array''
      | PDict _ \<Rightarrow> t = ''object''
      | _ \<Rightarrow> False)"

definition type_ok :: "pyval \<Rightarrow> pyval \<Rightarrow> bool" where
  "type_ok t v =
     (case t of PStr s \<Rightarrow> has_type s v
      | PList ts \<Rightarrow> (\<exists>x \<in> set ts. case x of PStr s \<Rightarrow> has_type s v | _ \<Rightarrow> False)
      | _ \<Rightarrow> True)"

text \<open>
  A value is valid when it meets every keyword of the schema: the type; one of the values of
  \<open>enum\<close>; for an object the schemas of its properties, the required properties, and no others
  when \<open>additionalProperties\<close> is false; for an array the schema of its items.  \<open>pat\<close> decides
  the patterns.
\<close>

definition json_schema_rule :: "(string \<Rightarrow> string \<Rightarrow> bool) \<Rightarrow> validator_fn \<Rightarrow> bool" where
  "json_schema_rule pat valid \<longleftrightarrow>
     (\<forall>s v. valid (PDict s) v \<longleftrightarrow>
        (case dict_get s ''type'' of None \<Rightarrow> True | Some t \<Rightarrow> type_ok t v) \<and>
        (case dict_get s ''enum'' of Some (PList xs) \<Rightarrow> (\<exists>x \<in> set xs. py_eq x v) | _ \<Rightarrow> True) \<and>
        (case (dict_get s ''pattern'', v) of (Some (PStr p), PStr t) \<Rightarrow> pat p t | _ \<Rightarrow> True) \<and>
        (case (dict_get s ''items'', v) of (Some i, PList xs) \<Rightarrow> (\<forall>x \<in> set xs. valid i x) | _ \<Rightarrow> True) \<and>
        (case (dict_get s ''required'', v) of
           (Some (PList rs), PDict d) \<Rightarrow>
             (\<forall>r \<in> set rs. case r of PStr k \<Rightarrow> dict_has d k | _ \<Rightarrow> True)
         | _ \<Rightarrow> True) \<and>
        (case (dict_get s ''properties'', v) of
           (Some (PDict ps), PDict d) \<Rightarrow>
             (\<forall>(k, sub) \<in> set ps. case dict_get d k of None \<Rightarrow> True | Some x \<Rightarrow> valid sub x)
         | _ \<Rightarrow> True) \<and>
        (case (dict_get s ''additionalProperties'', dict_get s ''properties'', v) of
           (Some (PBool False), Some (PDict ps), PDict d) \<Rightarrow> set (dict_keys d) \<subseteq> set (dict_keys ps)
         | _ \<Rightarrow> True))"

section \<open>Reading and replacing a collection\<close>

type_synonym doc = "(string, pyval) dict"

definition return_collection_once :: "doc list \<Rightarrow> doc" where
  "return_collection_once docs = fold (\<lambda>item d. dict_update d item) docs []"

fun return_collection_tries :: "nat \<Rightarrow> (nat \<Rightarrow> doc list) \<Rightarrow> nat \<Rightarrow> doc" where
  "return_collection_tries n reads 0 = []"
| "return_collection_tries n reads (Suc left) =
     (let els = return_collection_once (reads n) in
      if els \<noteq> [] then els else return_collection_tries (Suc n) reads left)"

definition return_collection :: "(nat \<Rightarrow> doc list) \<Rightarrow> doc" where
  \<comment> \<open>\<open>reads k\<close> is what the \<open>k\<close>-th query finds\<close>
  "return_collection reads = return_collection_tries 0 reads 3"

definition return_element :: "string \<Rightarrow> doc list \<Rightarrow> doc list" where
  \<comment> \<open>the documents that have the field, as all callers ask\<close>
  "return_element field_name docs = filter (\<lambda>d. dict_has d field_name) docs"

definition update_collection :: "doc \<Rightarrow> doc list \<Rightarrow> doc list list" where
  \<comment> \<open>the collection after each command sent; no command is given the session of the
      transaction, so each takes effect, and is seen, on its own\<close>
  "update_collection elements docs =
     (let elements_to_insert = map (\<lambda>(k, v). [(k, v)]) elements
      in if elements_to_insert \<noteq> [] then [[], elements_to_insert] else [[]])"

fun any_valid :: "validator_fn \<Rightarrow> pyval list \<Rightarrow> pyval \<Rightarrow> bool" where
  "any_valid valid [] body = False"
| "any_valid valid (s # ss) body = (if valid s body then True else any_valid valid ss body)"

definition validate_elements :: "validator_fn \<Rightarrow> pyval list \<Rightarrow> doc \<Rightarrow> doc" where
  "validate_elements valid schemas elements =
     (let invalid = filter (\<lambda>k. \<not> any_valid valid schemas (the (dict_get elements k))) (dict_keys elements)
      in fold dict_del invalid elements)"

definition update_all :: "validator_fn \<Rightarrow> pyval list \<Rightarrow> pyval result \<Rightarrow> doc list \<Rightarrow> doc list list result" where
  \<comment> \<open>the third argument is what \<open>gather_elements\<close> returned\<close>
  "update_all valid schemas gathered docs =
     res_bind gathered (\<lambda>els.
       case els of
         PNone \<Rightarrow> Inr (update_collection [] docs)
       | PDict d \<Rightarrow> Inr (update_collection (validate_elements valid schemas d) docs)
       | _ \<Rightarrow> Inl AttributeError)"

section \<open>Gathering groups and profiles\<close>

definition gather_groups :: "bool \<Rightarrow> doc list \<Rightarrow> pyval result \<Rightarrow> pyval result" where
  "gather_groups config_from_mongo groups_ui config =
     (if config_from_mongo then Inr (PDict (return_collection_once groups_ui))
      else (case config of
              Inl FileNotFoundError \<Rightarrow> Inr (PDict [])
            | Inl e \<Rightarrow> Inl e
            | Inr c \<Rightarrow> res_bind (py_in ''groups'' c) (\<lambda>present.
                if present then py_get c ''groups'' (PDict []) else Inr (PDict []))))"

definition assign_profiles_to_dict :: "doc \<Rightarrow> string \<Rightarrow> pyval \<Rightarrow> doc result" where
  "assign_profiles_to_dict active key profile =
     (if dict_has active key
      then res_bind (py_get profile ''enabled'' (PBool True)) (\<lambda>en.
             Inr (if \<not> py_truthy en then dict_del key active else dict_set key profile active))
      else Inr (dict_set key profile active))"

fun assign_all :: "doc \<Rightarrow> (string \<times> pyval) list \<Rightarrow> doc result" where
  "assign_all active [] = Inr active"
| "assign_all active ((k, p) # rest) =
     res_bind (assign_profiles_to_dict active k p) (\<lambda>a. assign_all a rest)"

definition merge_profiles_from_config_file :: "pyval result \<Rightarrow> doc \<Rightarrow> doc result" where
  "merge_profiles_from_config_file config active =
     (case config of
        Inl FileNotFoundError \<Rightarrow> Inr active
      | Inl e \<Rightarrow> Inl e
      | Inr c \<Rightarrow> res_bind (py_in ''profiles'' c) (\<lambda>present.
          if \<not> present then Inr active
          else res_bind (py_get c ''profiles'' (PDict [])) (\<lambda>ps.
                 case ps of PDict d \<Rightarrow> assign_all active d | _ \<Rightarrow> Inl AttributeError)))"

definition merge_profiles_from_ui :: "doc list \<Rightarrow> doc \<Rightarrow> doc result" where
  "merge_profiles_from_ui docs active =
     res_bind (res_list (\<lambda>d. case d of [] \<Rightarrow> Inl IndexError | kv # _ \<Rightarrow> Inr kv) docs) (assign_all active)"

definition gather_profiles :: "bool \<Rightarrow> doc list \<Rightarrow> doc list \<Rightarrow> pyval result \<Rightarrow> pyval result" where
  \<comment> \<open>\<open>shared\<close>: the parsed files of the package's profiles directory, in listing order\<close>
  "gather_profiles config_from_mongo shared profiles_ui config =
     res_map PDict
       (let active = fold (\<lambda>file a. fold (\<lambda>(k, p). dict_set k p) file a) shared [] in
        if config_from_mongo then merge_profiles_from_ui profiles_ui active
        else merge_profiles_from_config_file config active)"

section \<open>Engine identifiers\<close>

record engine_ids =
  ei_docs :: "(string \<times> string) list"   \<comment> \<open>host and identifier of each document\<close>
  ei_cached :: "string list"             \<comment> \<open>the set \<open>_cached_engine_ids\<close>\<close>

definition new_engine_ids :: "(string \<times> string) list \<Rightarrow> engine_ids" where
  "new_engine_ids docs = \<lparr>ei_docs = docs, ei_cached = remdups (map snd docs)\<rparr>"

definition save_engine_id :: "validator_fn \<Rightarrow> string \<Rightarrow> string \<Rightarrow> engine_ids \<Rightarrow> engine_ids" where
  "save_engine_id valid host security_engine_id m =
     (if security_engine_id \<in> set (ei_cached m) then m
      else if \<not> valid engine_id_record_schema
                 (PDict [(''host'', PStr host), (''security_engine_id'', PStr security_engine_id)])
      then m
      else m\<lparr>ei_docs := (if security_engine_id \<in> snd ` set (ei_docs m) then ei_docs m
                         else ei_docs m @ [(host, security_engine_id)]),
             ei_cached := security_engine_id # ei_cached m\<rparr>)"

definition get_engine_ids_for_host :: "string \<Rightarrow> engine_ids \<Rightarrow> (string \<times> string) list" where
  "get_engine_ids_for_host host m = filter (\<lambda>(h, _). h = host) (ei_docs m)"

definition get_unique_engine_ids :: "engine_ids \<Rightarrow> string set" where
  "get_unique_engine_ids m = set (ei_cached m)"

section \<open>Correctness\<close>

lemma return_collection_once_singletons:
  assumes "dict_wf els"
  shows "return_collection_once (map (\<lambda>(k, v). [(k, v)]) els) = els"
proof -
  have "fold (\<lambda>item d. dict_update d item) (map (\<lambda>(k, v). [(k, v)]) els) acc = dict_update acc els" for acc
    by (induction els arbitrary: acc) auto
  then show ?thesis using assms by (simp add: return_collection_once_def)
qed

lemma any_valid_iff: "any_valid valid ss b \<longleftrightarrow> (\<exists>s \<in> set ss. valid s b)"
  by (induction ss) auto

lemma validate_elements_get:
  assumes "dict_wf els"
  shows "dict_wf (validate_elements valid ss els)"
    and "dict_get (validate_elements valid ss els) k =
      (case dict_get els k of None \<Rightarrow> None | Some b \<Rightarrow> if any_valid valid ss b then Some b else None)"
  using assms
  by (auto simp: validate_elements_def Let_def pd.wf_fold_del pd.get_fold_del dict_get_None_iff
      dest: dict_get_key split: option.splits)

text \<open>
  C19.  Replacing a collection by validated elements and reading it back gives, under every
  name, exactly the elements that are valid for some schema; the reader that comes between the
  two commands of a replacement finds the collection empty.
\<close>

theorem update_all_roundtrip:
  assumes "dict_wf els" "validate_elements valid ss els \<noteq> []"
  shows "\<exists>s. update_all valid ss (Inr (PDict els)) docs = Inr [[], s] \<and>
    (\<forall>k. dict_get (return_collection (\<lambda>_. s)) k =
       (case dict_get els k of None \<Rightarrow> None
        | Some b \<Rightarrow> if \<exists>sc \<in> set ss. valid sc b then Some b else None)) \<and>
    return_collection (\<lambda>_. []) = []"
proof -
  let ?v = "validate_elements valid ss els"
  let ?s = "map (\<lambda>(k, v). [(k, v)]) ?v"
  have "return_collection_once ?s = ?v"
    using validate_elements_get(1) [OF assms(1)] by (rule return_collection_once_singletons)
  then have "return_collection (\<lambda>_. ?s) = ?v"
    using assms(2) by (simp add: return_collection_def numeral_3_eq_3)
  moreover have "return_collection (\<lambda>_. []) = []"
    by (simp add: return_collection_def numeral_3_eq_3 return_collection_once_def)
  ultimately show ?thesis
    using assms(2) validate_elements_get(2) [OF assms(1)]
    by (intro exI [of _ ?s]) (auto simp: update_all_def update_collection_def any_valid_iff split: option.splits)
qed

theorem update_all_roundtrip_witness:
  "\<exists>s. update_all (\<lambda>s b. b \<noteq> PNone) [PNone] (Inr (PDict [(''a'', PInt 1), (''b'', PNone)])) [] = Inr [[], s] \<and>
    dict_get (return_collection (\<lambda>_. s)) ''b'' = None"
proof -
  have 1: "dict_wf [(''a'', PInt 1), (''b'', PNone)]" by (simp add: dict_wf_def)
  have 2: "validate_elements (\<lambda>s b. b \<noteq> PNone) [PNone] [(''a'', PInt 1), (''b'', PNone)] \<noteq> []"
    by (simp add: validate_elements_def dict_keys_def dict_get_def dict_del_def)
  obtain s where s: "update_all (\<lambda>s b. b \<noteq> PNone) [PNone] (Inr (PDict [(''a'', PInt 1), (''b'', PNone)])) [] = Inr [[], s]"
    "\<forall>k. dict_get (return_collection (\<lambda>_. s)) k =
       (case dict_get [(''a'', PInt 1), (''b'', PNone)] k of None \<Rightarrow> None
        | Some b \<Rightarrow> if \<exists>sc \<in> set [PNone :: pyval]. b \<noteq> PNone then Some b else None)"
    using update_all_roundtrip [OF 1 2, of "[]"] by blast
  then have "dict_get (return_collection (\<lambda>_. s)) ''b'' = None" by (simp add: dict_get_def)
  with s(1) show ?thesis by blast
qed

text \<open>
  The bodies that the profile schemas accept: every one has varbinds, a list of lists of
  strings and integers.
\<close>

lemma rule_props:
  assumes "json_schema_rule pat valid" "valid (jobj ps req) v"
  shows "\<exists>d. v = PDict d \<and> (\<forall>k \<in> set req. dict_has d k) \<and>
    (\<forall>(k, sub) \<in> set ps. case dict_get d k of None \<Rightarrow> True | Some x \<Rightarrow> valid sub x) \<and>
    set (dict_keys d) \<subseteq> fst ` set ps"
proof -
  have eq: "valid (jobj ps req) v \<longleftrightarrow>
    has_type ''object'' v \<and>
    (case v of PDict d \<Rightarrow> (\<forall>k \<in> set req. dict_has d k) \<and>
      (\<forall>(k, sub) \<in> set ps. case dict_get d k of None \<Rightarrow> True | Some x \<Rightarrow> valid sub x) \<and>
      set (dict_keys d) \<subseteq> fst ` set ps | _ \<Rightarrow> True)"
    using assms(1) unfolding json_schema_rule_def jobj_def
    by (simp add: dict_get_def type_ok_def dict_keys_def split: pyval.splits)
  show ?thesis using assms(2) unfolding eq by (cases v) (auto simp: has_type_def)
qed

lemma rule_array:
  assumes "json_schema_rule pat valid" "valid (jarray i) v"
  shows "\<exists>xs. v = PList xs \<and> (\<forall>x \<in> set xs. valid i x)"
proof -
  have "has_type ''array'' v \<and> (case v of PList xs \<Rightarrow> \<forall>x \<in> set xs. valid i x | _ \<Rightarrow> True)"
    using assms unfolding json_schema_rule_def jarray_def
    by (simp add: dict_get_def type_ok_def split: pyval.splits)
  then show ?thesis by (cases v) (auto simp: has_type_def)
qed

lemma rule_types:
  assumes "json_schema_rule pat valid" "valid (jtypes ts) v"
  shows "\<exists>t \<in> set ts. has_type t v"
  using assms unfolding json_schema_rule_def jtypes_def
  by (auto simp: dict_get_def type_ok_def)

fun no_floats :: "pyval \<Rightarrow> bool" where
  "no_floats (PFloat f) = False"
| "no_floats (PList xs) = (\<forall>x \<in> set xs. no_floats x)"
| "no_floats (PTuple xs) = (\<forall>x \<in> set xs. no_floats x)"
| "no_floats (PDict d) = (\<forall>x \<in> snd ` set d. no_floats x)"
| "no_floats _ = True"

lemma varbinds_readable:
  assumes rule: "json_schema_rule pat valid" and v: "valid varbinds_type v" and no: "no_floats v"
  shows "\<exists>vbs. read_varbinds v = Inr (Some vbs)"
proof -
  obtain xs where xs: "v = PList xs" "\<forall>x \<in> set xs. valid (jarray (jtypes [''integer'', ''string''])) x"
    using rule_array [OF rule] v by (auto simp: varbinds_type_def)
  have "\<exists>y. read_varbind x = Inr y" if x: "x \<in> set xs" for x
  proof -
    obtain ys where ys: "x = PList ys" "\<forall>y \<in> set ys. valid (jtypes [''integer'', ''string'']) y"
      using rule_array [OF rule] xs(2) x by blast
    have "\<exists>z. read_vbelem y = Inr z" if y: "y \<in> set ys" for y
    proof -
      have "has_type ''integer'' y \<or> has_type ''string'' y"
        using rule_types [OF rule] ys(2) y by fastforce
      moreover have "\<nexists>f. y = PFloat f" using no x y xs(1) ys(1) by force
      ultimately show ?thesis by (cases y) (auto simp: has_type_def)
    qed
    then show ?thesis using ys(1) by (auto intro: res_list_ok)
  qed
  then obtain zs where "res_list read_varbind xs = Inr zs" using res_list_ok by blast
  then show ?thesis using xs(1) by simp
qed

definition profile_shape :: "pyval \<Rightarrow> bool" where
  \<comment> \<open>an object schema that requires varbinds and describes the condition as an object\<close>
  "profile_shape s \<longleftrightarrow>
     (\<exists>ps req. s = jobj ps req \<and> (''varBinds'', varbinds_type) \<in> set ps \<and> ''varBinds'' \<in> set req \<and>
        (''condition'' \<in> fst ` set ps \<longrightarrow> (\<exists>cps creq. (''condition'', jobj cps creq) \<in> set ps)))"

lemma profile_shapeI:
  "(''varBinds'', varbinds_type) \<in> set ps \<Longrightarrow> ''varBinds'' \<in> set req \<Longrightarrow>
     (''condition'' \<in> fst ` set ps \<Longrightarrow> \<exists>cps creq. (''condition'', jobj cps creq) \<in> set ps) \<Longrightarrow>
     profile_shape (jobj ps req)"
  unfolding profile_shape_def by blast

lemma ex_jobj: "\<exists>ps req. jobj ps req = jobj qs r"
  by blast

lemma profile_schemas_shape: "s \<in> set get_all_profile_schemas \<Longrightarrow> profile_shape s"
  by (auto simp: get_all_profile_schemas_def standard_profile_schema_def walk_profile_schema_def
      base_profile_schema_def smart_profile_schema_def conditional_profile_schema_def ex_jobj
      intro!: profile_shapeI)

text \<open>
  A profile that any of the profile schemas accepts can be read: it has varbinds that are
  lists of strings and integers (unless they are floats with integral values, which the
  schemas let through), and its condition, if it has one, has a type.
\<close>

theorem valid_profile_readable:
  assumes "json_schema_rule pat valid" "any_valid valid get_all_profile_schemas body"
    and "no_floats body"
  shows "\<exists>pb vbs. read_body body = Inr pb \<and> pb_varbinds pb = Some vbs"
proof -
  obtain ps req where s: "valid (jobj ps req) body" "(''varBinds'', varbinds_type) \<in> set ps"
      "''varBinds'' \<in> set req" "''condition'' \<in> fst ` set ps \<longrightarrow>
         (\<exists>cps creq. (''condition'', jobj cps creq) \<in> set ps)"
    using assms(2) profile_schemas_shape unfolding any_valid_iff profile_shape_def by blast
  obtain d where d: "body = PDict d" "\<forall>k \<in> set req. dict_has d k"
      "\<forall>(k, sub) \<in> set ps. case dict_get d k of None \<Rightarrow> True | Some x \<Rightarrow> valid sub x"
      "set (dict_keys d) \<subseteq> fst ` set ps"
    using rule_props [OF assms(1) s(1)] by blast
  obtain v where v: "dict_get d ''varBinds'' = Some v" "valid varbinds_type v"
    using d(2,3) s(2,3) by (fastforce simp: dict_has_def split: option.splits)
  have "no_floats v" using assms(3) d(1) dict_get_SomeD [OF v(1)] by force
  then obtain vbs where vbs: "read_varbinds v = Inr (Some vbs)"
    using varbinds_readable [OF assms(1) v(2)] by blast
  have "\<exists>c. dict_get_or d ''condition'' (PDict []) = PDict c"
  proof (cases "dict_get d ''condition''")
    case None
    then show ?thesis by (simp add: dict_get_or_def)
  next
    case (Some c)
    then obtain cps creq where "(''condition'', jobj cps creq) \<in> set ps"
      using s(4) d(4) dict_get_key [OF Some] by blast
    then have "valid (jobj cps creq) c" using d(3) Some by fastforce
    then show ?thesis using rule_props [OF assms(1)] Some by (fastforce simp: dict_get_or_def)
  qed
  then show ?thesis using vbs v(1) by (auto simp: read_body_def d(1) dict_get_or_def)
qed

text \<open>A validator that follows the rule, for the witnesses.\<close>

lemma size_dict_get: "dict_get s k = Some x \<Longrightarrow> size x < size (PDict s)"
  using size_list_mem [of "(k, x)" s "size_prod (\<lambda>_. 0) size"] dict_get_SomeD [of s k x] by simp

function json_valid :: "(string \<Rightarrow> string \<Rightarrow> bool) \<Rightarrow> validator_fn" where
  "json_valid pat (PDict s) v =
        ((case dict_get s ''type'' of None \<Rightarrow> True | Some t \<Rightarrow> type_ok t v) \<and>
        (case dict_get s ''enum'' of Some (PList xs) \<Rightarrow> (\<exists>x \<in> set xs. py_eq x v) | _ \<Rightarrow> True) \<and>
        (case (dict_get s ''pattern'', v) of (Some (PStr p), PStr t) \<Rightarrow> pat p t | _ \<Rightarrow> True) \<and>
        (case (dict_get s ''items'', v) of (Some i, PList xs) \<Rightarrow> (\<forall>x \<in> set xs. json_valid pat i x) | _ \<Rightarrow> True) \<and>
        (case (dict_get s ''required'', v) of
           (Some (PList rs), PDict d) \<Rightarrow>
             (\<forall>r \<in> set rs. case r of PStr k \<Rightarrow> dict_has d k | _ \<Rightarrow> True)
         | _ \<Rightarrow> True) \<and>
        (case (dict_get s ''properties'', v) of
           (Some (PDict ps), PDict d) \<Rightarrow>
             (\<forall>(k, sub) \<in> set ps. case dict_get d k of None \<Rightarrow> True | Some x \<Rightarrow> json_valid pat sub x)
         | _ \<Rightarrow> True) \<and>
        (case (dict_get s ''additionalProperties'', dict_get s ''properties'', v) of
           (Some (PBool False), Some (PDict ps), PDict d) \<Rightarrow> set (dict_keys d) \<subseteq> set (dict_keys ps)
         | _ \<Rightarrow> True))"
| "json_valid pat PNone v = True" | "json_valid pat (PBool b) v = b" | "json_valid pat (PInt i) v = True"
| "json_valid pat (PFloat f) v = True" | "json_valid pat (PStr t) v = True"
| "json_valid pat (PBytes t) v = True" | "json_valid pat (PList xs) v = True"
| "json_valid pat (PTuple xs) v = True"
  by pat_completeness auto

termination
proof (relation "measure (\<lambda>(pat, s, v). size s)", goal_cases)
  case (2 pat s v z i y xs x)
  then show ?case by (auto dest!: size_dict_get [OF sym])
next
  case (3 pat s v z y w ps d p k sub x)
  then have "Some (PDict ps) = dict_get s ''properties''" "(k, sub) \<in> set ps" by auto
  then show ?case
    using size_dict_get [OF sym, of "PDict ps" s] size_list_mem [of "(k, sub)" ps "size_prod (\<lambda>_. 0) size"]
    by fastforce
qed simp

lemma json_valid_rule: "json_schema_rule pat (json_valid pat)"
  by (simp add: json_schema_rule_def)

theorem valid_profile_readable_witness:
  "\<exists>pb vbs. read_body (PDict [(''frequency'', PInt 60), (''varBinds'', PList [PList [PStr ''IF-MIB'']])]) = Inr pb
     \<and> pb_varbinds pb = Some vbs"
proof (rule valid_profile_readable [OF json_valid_rule [of "\<lambda>_ _. True"]])
  show "any_valid (json_valid (\<lambda>_ _. True)) get_all_profile_schemas
      (PDict [(''frequency'', PInt 60), (''varBinds'', PList [PList [PStr ''IF-MIB'']])])"
    by (simp add: any_valid_iff get_all_profile_schemas_def standard_profile_schema_def jobj_def jtype_def
        varbinds_type_def jarray_def jtypes_def dict_get_def type_ok_def has_type_def dict_has_def dict_keys_def)
  show "no_floats (PDict [(''frequency'', PInt 60), (''varBinds'', PList [PList [PStr ''IF-MIB'']])])" by simp
qed

definition ids_ok :: "engine_ids \<Rightarrow> bool" where
  \<comment> \<open>no identifier twice, and the set of known ones is that of the documents\<close>
  "ids_ok m \<longleftrightarrow> distinct (map snd (ei_docs m)) \<and> set (ei_cached m) = snd ` set (ei_docs m)"

lemma save_engine_id_step:
  assumes "ids_ok m"
  shows "ids_ok (save_engine_id valid h e m)"
    and "prefix (ei_docs m) (ei_docs (save_engine_id valid h e m))"
    and "set (ei_cached m) \<subseteq> set (ei_cached (save_engine_id valid h e m))"
    and "valid engine_id_record_schema (PDict [(''host'', PStr h), (''security_engine_id'', PStr e)]) \<Longrightarrow>
         e \<in> set (ei_cached (save_engine_id valid h e m))"
  using assms by (auto simp: save_engine_id_def ids_ok_def)

text \<open>
  Whatever identifiers are saved for whatever hosts, the collection never holds an identifier twice and keeps what it held, and every
  identifier counts as known once it was saved as a valid record.
\<close>

theorem save_engine_ids_unique:
  assumes "distinct (map snd docs)"
  shows "let m = fold (\<lambda>(h, e). save_engine_id valid h e) saves (new_engine_ids docs) in
    distinct (map snd (ei_docs m)) \<and> prefix docs (ei_docs m) \<and>
    get_unique_engine_ids m = snd ` set (ei_docs m) \<and>
    (\<forall>(h, e) \<in> set saves.
       valid engine_id_record_schema (PDict [(''host'', PStr h), (''security_engine_id'', PStr e)]) \<longrightarrow>
       e \<in> get_unique_engine_ids m)"
proof -
  define m where "m = fold (\<lambda>(h, e). save_engine_id valid h e) saves (new_engine_ids docs)"
  have "ids_ok m \<and> prefix docs (ei_docs m) \<and>
      (\<forall>(h, e) \<in> set saves.
         valid engine_id_record_schema (PDict [(''host'', PStr h), (''security_engine_id'', PStr e)]) \<longrightarrow>
         e \<in> set (ei_cached m))"
    unfolding m_def
  proof (induction saves rule: rev_induct)
    case Nil
    then show ?case using assms by (simp add: new_engine_ids_def ids_ok_def)
  next
    case (snoc he saves)
    obtain h e where he: "he = (h, e)" by (cases he)
    let ?m = "fold (\<lambda>(h, e). save_engine_id valid h e) saves (new_engine_ids docs)"
    have ok: "ids_ok ?m" and pre: "prefix docs (ei_docs ?m)"
      and known: "\<And>p. p \<in> set saves \<Longrightarrow> (case p of (h, e) \<Rightarrow>
         valid engine_id_record_schema (PDict [(''host'', PStr h), (''security_engine_id'', PStr e)]) \<longrightarrow>
         e \<in> set (ei_cached ?m))"
      using snoc by blast+
    note st = save_engine_id_step [OF ok]
    have eq: "fold (\<lambda>(h, e). save_engine_id valid h e) (saves @ [he]) (new_engine_ids docs) =
        save_engine_id valid h e ?m" by (simp add: he)
    have "\<forall>p \<in> set (saves @ [he]). case p of (h', e') \<Rightarrow>
         valid engine_id_record_schema (PDict [(''host'', PStr h'), (''security_engine_id'', PStr e')]) \<longrightarrow>
         e' \<in> set (ei_cached (save_engine_id valid h e ?m))"
    proof
      fix p
      assume "p \<in> set (saves @ [he])"
      then consider "p \<in> set saves" | "p = (h, e)" by (auto simp: he)
      then show "case p of (h', e') \<Rightarrow>
         valid engine_id_record_schema (PDict [(''host'', PStr h'), (''security_engine_id'', PStr e')]) \<longrightarrow>
         e' \<in> set (ei_cached (save_engine_id valid h e ?m))"
        by cases (use known [of p] st(3,4) in \<open>auto split: prod.splits\<close>)
    qed
    then show ?case
      unfolding eq using st(1) prefix_order.trans [OF pre st(2)] by (intro conjI)
  qed
  then show ?thesis unfolding Let_def m_def [symmetric] ids_ok_def get_unique_engine_ids_def
    by (elim conjE) (intro conjI; assumption)
qed

theorem save_engine_ids_unique_witness:
  "distinct (map snd (ei_docs (fold (\<lambda>(h, e). save_engine_id (\<lambda>_ _. True) h e)
     [(''a'', ''01''), (''b'', ''01'')] (new_engine_ids [(''c'', ''02'')]))))"
proof -
  have d: "distinct (map snd [(''c'', ''02'')])" by simp
  show ?thesis by (rule save_engine_ids_unique [OF d, unfolded Let_def, THEN conjunct1])
qed

end
