(* ===== verification/TaskMgr.thy ===== *)
theory TaskMgr
  imports PyValue
begin

text \<open>
  The periodic tasks: their definitions
  (\<^verbatim>\<open>splunk_connect_for_snmp/common/task_generator.py\<close>), the manager that keeps them in the
  RedBeat scheduler (\<^verbatim>\<open>customtaskmanager.py\<close>), and the migration of the database between
  versions (\<^verbatim>\<open>common/schema_migration.py\<close>).

  The scheduler is outside of this repository.  What its store holds is a parameter:
  \<open>scan pattern\<close> are the keys that match a pattern, \<open>from_key key\<close> is the entry under a key,
  given by its attributes, or the exception of loading it.  What is done to it is the list of
  the commands sent.
\<close>

section \<open>Task definitions\<close>

type_synonym task_data = "(string, pyval) dict"

definition WALK_TASK :: string where "WALK_TASK = ''splunk_connect_for_snmp.snmp.tasks.walk''"
definition POLL_TASK :: string where "POLL_TASK = ''splunk_connect_for_snmp.snmp.tasks.poll''"
definition DISCOVERY_TASK :: string where
  "DISCOVERY_TASK = ''splunk_connect_for_snmp.discovery.tasks.discovery''"

definition signature :: "string \<Rightarrow> string \<Rightarrow> int \<Rightarrow> pyval" where
  \<comment> \<open>a Celery signature with its queue and priority\<close>
  "signature task queue priority =
     PDict [(''task'', PStr task), (''queue'', PStr queue), (''priority'', PInt priority)]"

definition enrich_sig :: pyval where
  "enrich_sig = signature ''splunk_connect_for_snmp.enrich.tasks.enrich'' ''poll'' 4"

definition prepare_send_sig :: pyval where
  \<comment> \<open>chains are tuples, groups are lists\<close>
  "prepare_send_sig =
     PTuple [signature ''splunk_connect_for_snmp.splunk.tasks.prepare'' ''send'' 1,
             signature ''splunk_connect_for_snmp.splunk.tasks.send'' ''send'' 0]"

definition schedule_of :: "pyval \<Rightarrow> pyval" where
  \<comment> \<open>Celery's \<open>schedule(period)\<close>, an object that is known by its period and is never \<open>None\<close>\<close>
  "schedule_of period = PTuple [PStr ''schedule'', period]"

definition generate_task_definition :: "string \<Rightarrow> pyval \<Rightarrow> pyval \<Rightarrow> task_data" where
  \<comment> \<open>the application is given by a name\<close>
  "generate_task_definition target schedule_period host_group =
     [(''target'', PStr target), (''args'', PList []),
      (''kwargs'', PDict ([(''address'', PStr target)] @
                          (if py_truthy host_group then [(''group'', host_group)] else []))),
      (''schedule'', schedule_of schedule_period), (''enabled'', PBool True), (''app'', PStr ''app'')]"

definition set_kwargs :: "(string \<times> pyval) list \<Rightarrow> task_data \<Rightarrow> task_data" where
  \<comment> \<open>\<open>task_data["kwargs"].update(kwargs)\<close>\<close>
  "set_kwargs kw d =
     dict_set ''kwargs'' (case dict_get d ''kwargs'' of Some (PDict k) \<Rightarrow> PDict (dict_update k kw) | _ \<Rightarrow> PDict kw) d"

definition WALK_CHAIN_OF_TASKS :: "int \<Rightarrow> pyval" where
  "WALK_CHAIN_OF_TASKS expiry =
     PDict [(''expires'', PInt expiry),
            (''link'', PTuple [enrich_sig,
               PList [signature ''splunk_connect_for_snmp.inventory.tasks.inventory_setup_poller'' ''poll'' 3,
                      prepare_send_sig]])]"

definition walk_name :: "string \<Rightarrow> string" where
  "walk_name target = ''sc4snmp;'' @ target @ '';walk''"

definition walk_task_definition :: "int \<Rightarrow> string \<Rightarrow> pyval \<Rightarrow> pyval \<Rightarrow> pyval \<Rightarrow> task_data" where
  "walk_task_definition expiry target schedule_period host_group profile =
     set_kwargs [(''profile'', profile), (''chain_of_tasks_expiry_time'', PInt expiry)]
       (fold (\<lambda>(k, v). dict_set k v)
          [(''name'', PStr (walk_name target)), (''task'', PStr WALK_TASK),
           (''options'', WALK_CHAIN_OF_TASKS expiry), (''run_immediately'', PBool True)]
          (generate_task_definition target schedule_period host_group))"

definition poll_name :: "string \<Rightarrow> int \<Rightarrow> string" where
  "poll_name target period = ''sc4snmp;'' @ target @ '';'' @ str_of_int period @ '';poll''"

definition poll_run_immediately :: "int \<Rightarrow> bool" where
  "poll_run_immediately period = (300 < period)"

definition POLL_CHAIN_OF_TASKS :: "pyval \<Rightarrow> pyval" where
  "POLL_CHAIN_OF_TASKS expiry =
     PDict [(''expires'', expiry), (''link'', PTuple [enrich_sig, prepare_send_sig])]"

definition poll_task_definition ::
  "string \<Rightarrow> int \<Rightarrow> pyval \<Rightarrow> string list \<Rightarrow> pyval \<Rightarrow> task_data" where
  "poll_task_definition target period host_group profiles expiry =
     set_kwargs [(''profiles'', PList (map PStr profiles)), (''frequency'', PInt period), (''priority'', PInt 2)]
       (fold (\<lambda>(k, v). dict_set k v)
          [(''name'', PStr (poll_name target period)), (''task'', PStr POLL_TASK),
           (''options'', POLL_CHAIN_OF_TASKS expiry),
           (''run_immediately'', PBool (poll_run_immediately period))]
          (generate_task_definition target (PInt period) host_group))"

definition discovery_task_definition :: "int \<Rightarrow> (string, pyval) dict \<Rightarrow> task_data" where
  \<comment> \<open>for a validated discovery record\<close>
  "discovery_task_definition expiry rec =
     fold (\<lambda>(k, v). dict_set k v)
       [(''name'', PStr (''sc4snmp;'' @
            (case dict_get rec ''discovery_name'' of Some (PStr s) \<Rightarrow> s | _ \<Rightarrow> ''None'') @ '';discovery'')),
        (''task'', PStr DISCOVERY_TASK), (''run_immediately'', PBool True),
        (''options'', PDict [(''queue'', PStr ''discovery''), (''expires'', PInt expiry)]),
        (''kwargs'', PDict rec)]
       (generate_task_definition
          (case dict_get rec ''network_address'' of Some (PStr s) \<Rightarrow> s | _ \<Rightarrow> ''None'')
          (dict_get_or rec ''frequency'' PNone) PNone)"

section \<open>The manager\<close>

datatype tcmd =
    TcDelete string              \<comment> \<open>delete the entry of this name\<close>
  | TcSave task_data             \<comment> \<open>save the entry with these attributes\<close>
  | TcReschedule string
  | TcRunImmediately string
  | TcDeleteTarget string        \<comment> \<open>\<open>delete_schedules_by_target\<close>\<close>

type_synonym scan_fn = "string \<Rightarrow> string list"
type_synonym from_key_fn = "string \<Rightarrow> task_data result"

definition load_schedules :: "scan_fn \<Rightarrow> from_key_fn \<Rightarrow> string \<Rightarrow> task_data list result" where
  \<comment> \<open>keys without a definition or with invalid JSON are skipped\<close>
  "load_schedules scan from_key match =
     res_map somes
       (res_list (\<lambda>key. case from_key key of
            Inr e \<Rightarrow> Inr (Some e)
          | Inl KeyError \<Rightarrow> Inr None
          | Inl ValueError \<Rightarrow> Inr None
          | Inl e \<Rightarrow> Inl e) (scan match))"

definition get_all_schedules :: "scan_fn \<Rightarrow> from_key_fn \<Rightarrow> task_data list result" where
  "get_all_schedules scan from_key = load_schedules scan from_key ''redbeat:sc4snmp;*''"

definition get_schedules_by_target :: "scan_fn \<Rightarrow> from_key_fn \<Rightarrow> string \<Rightarrow> task_data list result" where
  "get_schedules_by_target scan from_key target = load_schedules scan from_key (''*'' @ target @ '';*'')"

definition attr_str :: "string \<Rightarrow> task_data \<Rightarrow> string" where
  "attr_str k e = (case dict_get e k of Some (PStr s) \<Rightarrow> s | _ \<Rightarrow> [])"

definition delete_all_tasks_of_type :: "scan_fn \<Rightarrow> from_key_fn \<Rightarrow> string \<Rightarrow> tcmd list result" where
  "delete_all_tasks_of_type scan from_key task =
     res_map (\<lambda>es. map (\<lambda>e. TcDelete (attr_str ''name'' e)) (filter (\<lambda>e. attr_str ''task'' e = task) es))
       (get_all_schedules scan from_key)"

definition delete_unused_poll_tasks ::
  "scan_fn \<Rightarrow> from_key_fn \<Rightarrow> string \<Rightarrow> string list \<Rightarrow> tcmd list result" where
  "delete_unused_poll_tasks scan from_key target activeschedules =
     res_map (\<lambda>es. map (\<lambda>e. TcDelete (attr_str ''name'' e))
          (filter (\<lambda>e. attr_str ''task'' e = POLL_TASK \<and> attr_str ''name'' e \<notin> set activeschedules) es))
       (get_schedules_by_target scan from_key target)"

definition delete_unused_discovery_tasks ::
  "scan_fn \<Rightarrow> from_key_fn \<Rightarrow> string list \<Rightarrow> tcmd list result" where
  "delete_unused_discovery_tasks scan from_key activeschedules =
     res_map (\<lambda>es. map (\<lambda>e. TcDelete (attr_str ''name'' e))
          (filter (\<lambda>e. attr_str ''task'' e = DISCOVERY_TASK \<and> attr_str ''name'' e \<notin> set activeschedules) es))
       (get_all_schedules scan from_key)"

definition expires_of :: "task_data \<Rightarrow> pyval" where
  "expires_of e =
     (case dict_get e ''options'' of Some (PDict opts) \<Rightarrow> dict_get_or opts ''expires'' PNone | _ \<Rightarrow> PNone)"

definition get_chain_of_task_expiries :: "scan_fn \<Rightarrow> from_key_fn \<Rightarrow> string list \<Rightarrow> pyval list result" where
  "get_chain_of_task_expiries scan from_key task_types =
     res_map (\<lambda>es. filter (\<lambda>x. x \<noteq> PNone)
         (map expires_of (filter (\<lambda>e. attr_str ''task'' e \<in> set task_types) es)))
       (get_all_schedules scan from_key)"

fun delete_types :: "scan_fn \<Rightarrow> from_key_fn \<Rightarrow> string list \<Rightarrow> tcmd list result" where
  "delete_types scan from_key [] = Inr []"
| "delete_types scan from_key (t # ts) =
     res_bind (delete_all_tasks_of_type scan from_key t) (\<lambda>a.
     res_map (\<lambda>b. a @ b) (delete_types scan from_key ts))"

definition did_expiry_time_change ::
  "scan_fn \<Rightarrow> from_key_fn \<Rightarrow> int \<Rightarrow> string list \<Rightarrow> (bool \<times> tcmd list) result" where
  "did_expiry_time_change scan from_key new_expiry_time task_types =
     res_bind (get_chain_of_task_expiries scan from_key task_types) (\<lambda>expiry_times.
       if expiry_times = [] \<or> (\<forall>x \<in> set expiry_times. py_eq x (PInt new_expiry_time))
       then Inr (False, [])
       else res_map (\<lambda>cmds. (True, cmds)) (delete_types scan from_key task_types))"

definition delete_all_poll_tasks :: "scan_fn \<Rightarrow> from_key_fn \<Rightarrow> tcmd list result" where
  "delete_all_poll_tasks scan from_key = delete_all_tasks_of_type scan from_key POLL_TASK"

definition rerun_all_walks :: "scan_fn \<Rightarrow> from_key_fn \<Rightarrow> tcmd list result" where
  "rerun_all_walks scan from_key =
     res_map (\<lambda>es. concat (map (\<lambda>e.
          let n = attr_str ''name'' e in [TcRunImmediately n, TcSave e, TcReschedule n])
          (filter (\<lambda>e. attr_str ''task'' e = WALK_TASK) es)))
       (get_all_schedules scan from_key)"

definition delete_all_tasks_of_host :: "string \<Rightarrow> tcmd list" where
  "delete_all_tasks_of_host target = [TcDeleteTarget target]"

definition args_list :: "string list" where
  "args_list = [''target'', ''args'', ''kwargs'', ''run_immediately'', ''schedule'', ''enabled'']"

definition REQUIRED_NEW_TASK_FIELDS :: "string list" where
  "REQUIRED_NEW_TASK_FIELDS = [''name'', ''task'', ''schedule'', ''app'']"

definition manage_task :: "from_key_fn \<Rightarrow> task_data \<Rightarrow> tcmd list result" where
  "manage_task from_key task_data =
     (let task_name = (case dict_get task_data ''name'' of Some (PStr s) \<Rightarrow> s | _ \<Rightarrow> ''None'') in
      case from_key (''redbeat:'' @ task_name) of
        Inr periodic_document \<Rightarrow>
          Inr [TcSave (fold (\<lambda>arg e. case dict_get task_data arg of None \<Rightarrow> e | Some v \<Rightarrow> dict_set arg v e)
                 args_list periodic_document)]
      | Inl KeyError \<Rightarrow>
          if filter (\<lambda>f. dict_get_or task_data f PNone = PNone) REQUIRED_NEW_TASK_FIELDS \<noteq> [] then Inr []
          else Inr (TcSave task_data #
                    (if py_truthy (dict_get_or task_data ''run_immediately'' PNone)
                     then [TcReschedule task_name] else []))
      | Inl e \<Rightarrow> Inl e)"

definition walk_task_exists :: "from_key_fn \<Rightarrow> string \<Rightarrow> bool result" where
  "walk_task_exists from_key target =
     (case from_key (''redbeat:'' @ walk_name target) of
        Inr _ \<Rightarrow> Inr True
      | Inl KeyError \<Rightarrow> Inr False
      | Inl e \<Rightarrow> Inl e)"

section \<open>What managing a task may do\<close>

text \<open>
  The callers that manage one task after the other rely on this: managing a task never deletes
  one, so that only the cleanup that follows does.
\<close>

locale task_sink =
  fixes manage :: "task_data \<Rightarrow> tcmd list result"
  assumes manage_keeps: "manage td = Inr cmds \<Longrightarrow> TcDelete n \<notin> set cmds"
begin

lemma manage_all_keeps: "res_list manage tds = Inr css \<Longrightarrow> TcDelete n \<notin> set (concat css)"
  by (induction tds arbitrary: css) (auto simp: res_splits dest: manage_keeps)

end

interpretation sink: task_sink "manage_task from_key" for from_key
  by unfold_locales (auto simp: manage_task_def Let_def split: sum.splits pyexn.splits if_splits)

section \<open>Migration of the database\<close>

text \<open>The commands that the migrations send, to the database and through the task manager.\<close>

datatype migration =
    DeleteAllPollTasks | RerunAllWalks | UnsetTargetAttributes | DropAttributes
  | IndexAttributes | MoveSchedules | DropSchedules | UngroupInventory | IndexEngineIds
  | SaveVersion int

definition CURRENT_SCHEMA_VERSION :: int where "CURRENT_SCHEMA_VERSION = 6"

definition fetch_schema_version :: "(string, pyval) dict option \<Rightarrow> int result" where
  \<comment> \<open>the argument is the document found, if any; a version that is not a number breaks the
      comparison\<close>
  "fetch_schema_version d =
     (case d of
        None \<Rightarrow> Inr 0
      | Some doc \<Rightarrow> res_bind (dict_item doc ''version'') (\<lambda>v.
          case v of PInt i \<Rightarrow> Inr i | PBool b \<Rightarrow> Inr (if b then 1 else 0) | _ \<Rightarrow> Inl TypeError))"

definition migrate_to_version :: "int \<Rightarrow> migration list result" where
  \<comment> \<open>the functions looked up by name\<close>
  "migrate_to_version n =
     (if n = 1 then Inr [DeleteAllPollTasks, UnsetTargetAttributes, RerunAllWalks]
      else if n = 2 then Inr [DeleteAllPollTasks, DropAttributes, RerunAllWalks]
      else if n = 3 then Inr [IndexAttributes]
      else if n = 4 then Inr [MoveSchedules, DropSchedules]
      else if n = 5 then Inr [UngroupInventory]
      else if n = 6 then Inr [IndexEngineIds]
      else Inl AttributeError)"

definition migrate_database :: "(string, pyval) dict option \<Rightarrow> migration list \<times> pyexn option" where
  \<comment> \<open>the commands sent, and the exception that stopped it, if any\<close>
  "migrate_database d =
     (case fetch_schema_version d of
        Inl e \<Rightarrow> ([], Some e)
      | Inr previous \<Rightarrow>
          if previous < CURRENT_SCHEMA_VERSION
          then (case res_list (\<lambda>x. migrate_to_version (x + 1)) [previous..CURRENT_SCHEMA_VERSION - 1] of
                  Inr steps \<Rightarrow> (concat steps @ [SaveVersion CURRENT_SCHEMA_VERSION], None)
                | Inl e \<Rightarrow> ([], Some e))
          else ([], None))"

definition transform_mongodb_periodic_to_redbeat ::
  "int \<Rightarrow> from_key_fn \<Rightarrow> (string, pyval) dict list \<Rightarrow> tcmd list list result" where
  \<comment> \<open>over the schedules of walks that are found\<close>
  "transform_mongodb_periodic_to_redbeat expiry from_key schedules =
     res_list (\<lambda>obj.
       res_bind (py_get (dict_get_or obj ''interval'' PNone) ''every'' PNone) (\<lambda>walk_interval.
       res_bind (py_get (dict_get_or obj ''kwargs'' PNone) ''profile'' PNone) (\<lambda>profile.
         manage_task from_key
           (walk_task_definition expiry (attr_str ''target'' obj) walk_interval PNone profile)))) schedules"

section \<open>Properties of the manager\<close>

lemma fold_args_get:
  "dict_get (fold (\<lambda>arg e. case dict_get td arg of None \<Rightarrow> e | Some v \<Rightarrow> dict_set arg v e) args e0) k =
     (if k \<in> set args \<and> dict_has td k then dict_get td k else dict_get e0 k)"
  by (induction args arbitrary: e0) (auto simp: dict_has_def split: option.splits)

text \<open>
  Managing a task that exists saves it with its target, arguments, schedule and flags
  replaced by those given, and with everything else (its name, its task, its options with the
  expiry) as it was; a task that does not exist is saved as given, and rescheduled when it is
  to run at once, unless a required field is missing.
\<close>

theorem manage_task_effect:
  assumes "dict_get td ''name'' = Some (PStr n)"
  shows "case from_key (''redbeat:'' @ n) of
      Inr old \<Rightarrow> \<exists>e. manage_task from_key td = Inr [TcSave e] \<and>
        (\<forall>k. dict_get e k = (if k \<in> set args_list \<and> dict_has td k then dict_get td k else dict_get old k))
    | Inl KeyError \<Rightarrow>
        manage_task from_key td =
          Inr (if \<exists>f \<in> set REQUIRED_NEW_TASK_FIELDS. dict_get_or td f PNone = PNone then []
               else if py_truthy (dict_get_or td ''run_immediately'' PNone) then [TcSave td, TcReschedule n]
               else [TcSave td])
    | Inl e \<Rightarrow> manage_task from_key td = Inl e"
proof (cases "from_key (''redbeat:'' @ n)")
  case (Inl e)
  then show ?thesis
    using assms by (cases e) (simp_all add: manage_task_def filter_empty_conv)
next
  case (Inr old)
  then show ?thesis
    using assms fold_args_get [of td args_list old] by (simp add: manage_task_def)
qed

theorem manage_task_effect_witness:
  "manage_task (\<lambda>_. Inl KeyError) (walk_task_definition 60 ''10.0.0.1:161'' (PInt 3600) PNone PNone) =
     Inr [TcSave (walk_task_definition 60 ''10.0.0.1:161'' (PInt 3600) PNone PNone),
          TcReschedule ''sc4snmp;10.0.0.1:161;walk'']"
proof -
  let ?td = "walk_task_definition 60 ''10.0.0.1:161'' (PInt 3600) PNone PNone"
  have n: "dict_get ?td ''name'' = Some (PStr ''sc4snmp;10.0.0.1:161;walk'')"
    and r: "dict_get_or ?td ''run_immediately'' PNone = PBool True"
    and f: "\<not> (\<exists>f \<in> set REQUIRED_NEW_TASK_FIELDS. dict_get_or ?td f PNone = PNone)"
    by (simp_all add: walk_task_definition_def set_kwargs_def walk_name_def dict_get_or_def
        REQUIRED_NEW_TASK_FIELDS_def schedule_of_def generate_task_definition_def dict_get_def WALK_CHAIN_OF_TASKS_def
        dict_set_def update_conv' py_truthy_def)
  show ?thesis using manage_task_effect [OF n, of "\<lambda>_. Inl KeyError"] r f by (simp add: py_truthy_def)
qed

lemma delete_types_cmds:
  assumes "get_all_schedules scan from_key = Inr es"
  shows "\<exists>cmds. delete_types scan from_key ts = Inr cmds \<and>
    set cmds = {TcDelete (attr_str ''name'' e) | e. e \<in> set es \<and> attr_str ''task'' e \<in> set ts}"
proof (induction ts)
  case (Cons t ts)
  then obtain cmds where "delete_types scan from_key ts = Inr cmds"
    "set cmds = {TcDelete (attr_str ''name'' e) | e. e \<in> set es \<and> attr_str ''task'' e \<in> set ts}" by blast
  then show ?case using assms by (auto simp: delete_all_tasks_of_type_def)
qed simp

text \<open>
  The expiry time counts as changed exactly when some loadable task of the given types
  has another one; then every task of those types is deleted, and no other command is sent.
\<close>

theorem did_expiry_time_change_effect:
  assumes "get_all_schedules scan from_key = Inr es"
  shows "\<exists>changed cmds. did_expiry_time_change scan from_key new ts = Inr (changed, cmds) \<and>
    changed = (\<exists>e \<in> set es. attr_str ''task'' e \<in> set ts \<and> expires_of e \<noteq> PNone \<and>
                            \<not> py_eq (expires_of e) (PInt new)) \<and>
    set cmds = (if changed
                then {TcDelete (attr_str ''name'' e) | e. e \<in> set es \<and> attr_str ''task'' e \<in> set ts} else {})"
proof -
  let ?xs = "filter (\<lambda>x. x \<noteq> PNone) (map expires_of (filter (\<lambda>e. attr_str ''task'' e \<in> set ts) es))"
  have get: "get_chain_of_task_expiries scan from_key ts = Inr ?xs"
    using assms by (simp add: get_chain_of_task_expiries_def)
  define changed where "changed \<longleftrightarrow> (\<exists>e \<in> set es. attr_str ''task'' e \<in> set ts \<and> expires_of e \<noteq> PNone \<and>
                            \<not> py_eq (expires_of e) (PInt new))"
  have "(?xs = [] \<or> (\<forall>x \<in> set ?xs. py_eq x (PInt new))) \<longleftrightarrow> \<not> changed"
    by (auto simp: changed_def filter_empty_conv)
  then have eq: "did_expiry_time_change scan from_key new ts =
      (if \<not> changed then Inr (False, []) else res_map (\<lambda>cmds. (True, cmds)) (delete_types scan from_key ts))"
    unfolding did_expiry_time_change_def get by simp
  obtain cmds where "delete_types scan from_key ts = Inr cmds"
    "set cmds = {TcDelete (attr_str ''name'' e) | e. e \<in> set es \<and> attr_str ''task'' e \<in> set ts}"
    using delete_types_cmds [OF assms] by blast
  then show ?thesis unfolding changed_def [symmetric] eq by (cases changed) auto
qed

definition sample_entry :: "string \<Rightarrow> string \<Rightarrow> int \<Rightarrow> task_data" where
  "sample_entry name task expires =
     [(''name'', PStr name), (''task'', PStr task), (''options'', PDict [(''expires'', PInt expires)])]"

theorem did_expiry_time_change_effect_witness:
  "\<exists>cmds. did_expiry_time_change (\<lambda>_. [''k'']) (\<lambda>_. Inr (sample_entry ''w'' WALK_TASK 60)) 90 [WALK_TASK]
      = Inr (True, cmds) \<and> set cmds = {TcDelete ''w''}"
proof -
  have g: "get_all_schedules (\<lambda>_. [''k'']) (\<lambda>_. Inr (sample_entry ''w'' WALK_TASK 60)) =
      Inr [sample_entry ''w'' WALK_TASK 60]"
    by (simp add: get_all_schedules_def load_schedules_def)
  have a: "attr_str ''task'' (sample_entry ''w'' WALK_TASK 60) = WALK_TASK"
    "attr_str ''name'' (sample_entry ''w'' WALK_TASK 60) = ''w''"
    "expires_of (sample_entry ''w'' WALK_TASK 60) = PInt 60"
    by (simp_all add: attr_str_def sample_entry_def dict_get_def expires_of_def dict_get_or_def)
  show ?thesis using did_expiry_time_change_effect [OF g, of 90 "[WALK_TASK]"] by (auto simp: a)
qed

lemma delete_unused_poll_tasks_spares:
  "delete_unused_poll_tasks scan from_key target active = Inr cmds \<Longrightarrow> TcDelete n \<in> set cmds \<Longrightarrow> n \<notin> set active"
  by (auto simp: delete_unused_poll_tasks_def res_splits)

text \<open>
  What the store promises for the pattern of a target, whose text has no special characters: a
  key matches when it contains the target followed by a semicolon, wherever that is.
\<close>

definition scan_by_target :: "scan_fn \<Rightarrow> string list \<Rightarrow> bool" where
  "scan_by_target scan keys \<longleftrightarrow>
     (\<forall>target. (\<forall>c \<in> set target. c \<notin> {CHR ''*'', CHR ''?'', CHR ''['', CHR '']'', CHR 0x5C}) \<longrightarrow>
        set (scan (''*'' @ target @ '';*'')) = {k \<in> set keys. str_contains k (target @ '';'')})"

lemma str_contains_app: "str_contains (a @ b @ c) b"
proof (induction a)
  case Nil
  show ?case by (cases b; cases c) (auto simp: str_contains_def)
next
  case (Cons x a)
  then show ?case by (auto simp: str_contains_def split: option.splits)
qed

text \<open>
  Deleting the unused poll tasks of a target also deletes those of every other host whose
  address ends with the text of that target: the pattern is not anchored at the start of the
  address.
\<close>

theorem delete_unused_poll_tasks_other_host:
  assumes "scan_by_target scan keys"
    and "\<forall>c \<in> set target. c \<notin> {CHR ''*'', CHR ''?'', CHR ''['', CHR '']'', CHR 0x5C}"
    and "''redbeat:'' @ poll_name (pre @ target) period \<in> set keys"
    and "from_key (''redbeat:'' @ poll_name (pre @ target) period) = Inr e"
    and "attr_str ''task'' e = POLL_TASK" "attr_str ''name'' e = poll_name (pre @ target) period"
    and "poll_name (pre @ target) period \<notin> set active"
    and "delete_unused_poll_tasks scan from_key target active = Inr cmds"
  shows "TcDelete (poll_name (pre @ target) period) \<in> set cmds"
proof -
  let ?k = "''redbeat:'' @ poll_name (pre @ target) period"
  have "?k = (''redbeat:sc4snmp;'' @ pre) @ (target @ '';'') @ (str_of_int period @ '';poll'')"
    by (simp add: poll_name_def)
  then have "str_contains ?k (target @ '';'')" using str_contains_app by metis
  then have k: "?k \<in> set (scan (''*'' @ target @ '';*''))"
    using assms(1-3) unfolding scan_by_target_def by blast
  obtain es where es: "res_list (\<lambda>key. case from_key key of
            Inr e \<Rightarrow> Inr (Some e)
          | Inl KeyError \<Rightarrow> Inr None
          | Inl ValueError \<Rightarrow> Inr None
          | Inl e \<Rightarrow> Inl e) (scan (''*'' @ target @ '';*'')) = Inr es"
    "cmds = map (\<lambda>e. TcDelete (attr_str ''name'' e))
      (filter (\<lambda>e. attr_str ''task'' e = POLL_TASK \<and> attr_str ''name'' e \<notin> set active) (somes es))"
    using assms(8) unfolding delete_unused_poll_tasks_def get_schedules_by_target_def load_schedules_def
    by (auto simp: res_splits)
  have "Some e \<in> set es" using res_list_image [OF es(1) k] assms(4) by simp
  then have "e \<in> set (somes es)" by (induction es rule: somes.induct) auto
  then show ?thesis using assms(5-7) es(2) by force
qed

lemma load_schedules_all:
  assumes "\<And>key. from_key key = Inr e"
  shows "load_schedules scan from_key p = Inr (map (\<lambda>_. e) (scan p))"
proof -
  have "res_list (\<lambda>key. Inr (Some e) :: task_data option result) ks = Inr (map (\<lambda>_. Some e) ks)" for ks :: "string list"
    by (induction ks) auto
  moreover have "somes (map (\<lambda>_. Some e) ks) = map (\<lambda>_. e) ks" for ks :: "string list"
    by (induction ks) auto
  ultimately show ?thesis unfolding load_schedules_def assms by simp
qed

theorem delete_unused_poll_tasks_other_host_witness:
  "\<exists>scan. \<exists>cmds.
     delete_unused_poll_tasks scan (\<lambda>_. Inr (sample_entry (poll_name (''1'' @ ''0:161'') 60) POLL_TASK 60)) ''0:161'' [] = Inr cmds \<and>
     TcDelete (poll_name (''1'' @ ''0:161'') 60) \<in> set cmds"
proof -
  define n where "n = poll_name (''1'' @ ''0:161'') 60"
  define keys where "keys = [''redbeat:'' @ n]"
  define scan where "scan = (\<lambda>pat. filter (\<lambda>k. str_contains k (butlast (tl pat))) keys)"
  define e where "e = sample_entry n POLL_TASK 60"
  have law: "scan_by_target scan keys"
    by (simp add: scan_by_target_def scan_def butlast_append)
  have a: "attr_str ''task'' e = POLL_TASK" "attr_str ''name'' e = n"
    by (simp_all add: attr_str_def sample_entry_def dict_get_def e_def)
  obtain cmds where c: "delete_unused_poll_tasks scan (\<lambda>_. Inr e) ''0:161'' [] = Inr cmds"
    unfolding delete_unused_poll_tasks_def get_schedules_by_target_def
    by (simp only: load_schedules_all [OF refl] res_map_simps sum.inject ex_simps)
  have k: "''redbeat:'' @ poll_name (''1'' @ ''0:161'') 60 \<in> set keys"
    by (simp only: keys_def n_def list.set insert_iff simp_thms)
  have "TcDelete (poll_name (''1'' @ ''0:161'') 60) \<in> set cmds"
    by (rule delete_unused_poll_tasks_other_host [OF law _ k _ a(1) a(2) [unfolded n_def] _ c])
       (simp_all only: refl list.set empty_iff simp_thms, simp)
  with c show ?thesis unfolding e_def n_def by blast
qed

text \<open>
  A database of an older version gets the migrations of every later version in order and
  then the current version number; one that has the current version is left alone.
\<close>

theorem migrate_database_steps:
  assumes "0 \<le> v" "v < CURRENT_SCHEMA_VERSION"
  shows "\<exists>steps. list_all2 (\<lambda>n s. migrate_to_version n = Inr s) [v + 1..CURRENT_SCHEMA_VERSION] steps \<and>
    migrate_database (Some [(''version'', PInt v)]) = (concat steps @ [SaveVersion CURRENT_SCHEMA_VERSION], None) \<and>
    migrate_database (Some [(''version'', PInt CURRENT_SCHEMA_VERSION)]) = ([], None)"
proof -
  have ok: "\<exists>s. migrate_to_version (x + 1) = Inr s" if "x \<in> set [v..CURRENT_SCHEMA_VERSION - 1]" for x
  proof -
    have "x \<in> {0, 1, 2, 3, 4, 5}" using that assms(1) by (auto simp: CURRENT_SCHEMA_VERSION_def)
    then show ?thesis by (auto simp: migrate_to_version_def)
  qed
  obtain steps where steps: "res_list (\<lambda>x. migrate_to_version (x + 1)) [v..CURRENT_SCHEMA_VERSION - 1] = Inr steps"
    using res_list_ok [of "[v..CURRENT_SCHEMA_VERSION - 1]" "\<lambda>x. migrate_to_version (x + 1)", OF ok] by blast
  have "[v + 1..CURRENT_SCHEMA_VERSION] = map (\<lambda>x. x + 1) [v..CURRENT_SCHEMA_VERSION - 1]"
    by (simp add: map_add_upto)
  moreover have "list_all2 (\<lambda>x s. migrate_to_version (x + 1) = Inr s) xs ss"
    if "res_list (\<lambda>x. migrate_to_version (x + 1)) xs = Inr ss" for xs ss
    using that by (induction xs arbitrary: ss) (auto simp: res_splits)
  ultimately show ?thesis
    using steps assms(2)
    by (intro exI [of _ steps])
       (simp add: migrate_database_def fetch_schema_version_def dict_item_def dict_get_def list.rel_map)
qed

theorem migrate_database_steps_witness:
  "migrate_database (Some [(''version'', PInt 4)]) = ([UngroupInventory, IndexEngineIds, SaveVersion 6], None)"
proof -
  obtain steps where s: "list_all2 (\<lambda>n s. migrate_to_version n = Inr s) [4 + 1..CURRENT_SCHEMA_VERSION] steps"
    "migrate_database (Some [(''version'', PInt 4)]) = (concat steps @ [SaveVersion CURRENT_SCHEMA_VERSION], None)"
    using migrate_database_steps [of 4] by (auto simp: CURRENT_SCHEMA_VERSION_def)
  have "[4 + 1..CURRENT_SCHEMA_VERSION] = [5, 6]" by (simp add: CURRENT_SCHEMA_VERSION_def upto.simps)
  then have "steps = [[UngroupInventory], [IndexEngineIds]]"
    using s(1) by (auto simp: list_all2_Cons1 migrate_to_version_def)
  then show ?thesis using s(2) by (simp add: CURRENT_SCHEMA_VERSION_def)
qed

end
