(* ===== verification/Inventory.thy ===== *)
theory Inventory
  imports Records Collections TaskMgr
begin

text \<open>
  The loading of the inventory: expanding its lines into hosts
  (\<^verbatim>\<open>splunk_connect_for_snmp/common/inventory_processor.py\<close>) and writing each host to the
  database and the scheduler (\<^verbatim>\<open>inventory/loader.py\<close>).

  A line is the dictionary of its columns; the cells beyond the last column are left out.  The
  effects on the database and the scheduler are lists of commands; the answers they get (what
  an upsert changed, whether a walk task exists) are parameters.
\<close>

section \<open>Keys of hosts\<close>

definition transform_key_to_address :: "string \<Rightarrow> (string \<times> int) result" where
  "transform_key_to_address target =
     (case str_rcut (CHR '':'') target of
        None \<Rightarrow> Inr (target, 161)
      | Some (address, port) \<Rightarrow> res_map (\<lambda>p. (address, p)) (parse_int port))"

definition transform_address_to_key :: "string \<Rightarrow> pyval \<Rightarrow> string result" where
  "transform_address_to_key address port =
     (if \<not> py_truthy port then Inr (address @ '':161'')
      else res_bind (py_int port) (\<lambda>p.
        if p = 161 then Inr (address @ '':161'')
        else res_map (\<lambda>t. address @ '':'' @ t) (py_str port)))"

definition gen_walk_task :: "int \<Rightarrow> inventory_record \<Rightarrow> pyval \<Rightarrow> pyval \<Rightarrow> task_data result" where
  "gen_walk_task expiry ir profile grp =
     res_bind (py_str (rec_field ir ''address'')) (\<lambda>a.
     res_map (\<lambda>target. walk_task_definition expiry target (rec_field ir ''walk_interval'') grp profile)
       (transform_address_to_key a (rec_field ir ''port'')))"

section \<open>Hosts of deleted groups\<close>

definition get_groups_keys :: "pyval \<Rightarrow> string \<Rightarrow> (string, pyval) dict \<Rightarrow> string list result" where
  "get_groups_keys list_of_groups group_name inventory_group_port_mapping =
     (let group_port = dict_get_or inventory_group_port_mapping group_name (PInt 161) in
      res_bind (py_iter list_of_groups) (res_list (\<lambda>element.
        res_bind (py_get element ''address'' PNone) (\<lambda>address.
        res_bind (py_get element ''port'' group_port) (\<lambda>port.
        res_bind (py_str address) (\<lambda>a. transform_address_to_key a port))))))"

fun return_hosts_from_deleted_groups ::
  "(string, pyval) dict \<Rightarrow> (string, pyval) dict \<Rightarrow> (string, pyval) dict \<Rightarrow> string list result" where
  \<comment> \<open>by recursion over the previous groups; the order of the hosts that left a group is that
      of a set, here the order of the group\<close>
  "return_hosts_from_deleted_groups [] new_groups ports = Inr []"
| "return_hosts_from_deleted_groups ((group_name, members) # previous) new_groups ports =
     res_bind (get_groups_keys members group_name ports) (\<lambda>previous_groups_keys.
     res_bind (case dict_get new_groups group_name of
         None \<Rightarrow> Inr previous_groups_keys
       | Some new_members \<Rightarrow>
           res_map (\<lambda>new_groups_keys. remdups (filter (\<lambda>h. h \<notin> set new_groups_keys) previous_groups_keys))
             (get_groups_keys new_members group_name ports)) (\<lambda>deleted.
     res_map (\<lambda>rest. deleted @ rest) (return_hosts_from_deleted_groups previous new_groups ports)))"

section \<open>The inventory processor\<close>

definition ALLOWED_KEYS_VALUES :: "string list" where
  "ALLOWED_KEYS_VALUES =
     [''address'', ''port'', ''community'', ''secret'', ''version'', ''security_engine'', ''securityEngine'',
      ''max_oid_to_process'']"

type_synonym source_record = "(string, pyval) dict"

record inventory_processor =
  inventory_records :: "source_record list"
  hosts_from_groups :: "(string, bool) dict"
  inventory_group_port_mapping :: "(string, pyval) dict"
  single_hosts :: "source_record list"

definition new_processor :: inventory_processor where
  "new_processor = \<lparr>inventory_records = [], hosts_from_groups = [], inventory_group_port_mapping = [],
     single_hosts = []\<rparr>"

definition host_group_object :: "source_record \<Rightarrow> (string, pyval) dict \<Rightarrow> string \<Rightarrow> source_record" where
  \<comment> \<open>the line with the allowed keys of the member, and the name of its group\<close>
  "host_group_object source_object group_object group_name =
     dict_set ''group'' (PStr group_name)
       (fold (\<lambda>(k, v) r. if k \<in> set ALLOWED_KEYS_VALUES then dict_set k v r else r) group_object source_object)"

definition host_key :: "source_record \<Rightarrow> string result" where
  \<comment> \<open>the address and the own port, if any, of a member of a group or of a single host\<close>
  "host_key r =
     res_bind (dict_item r ''address'') (\<lambda>av.
     res_bind (py_str av) (\<lambda>address.
       transform_address_to_key address (dict_get_or r ''port'' PNone)))"

definition add_group_member ::
  "source_record \<Rightarrow> string \<Rightarrow> pyval \<Rightarrow> inventory_processor \<Rightarrow> inventory_processor result" where
  "add_group_member source_object group_name member s =
     (case member of
        PDict group_object \<Rightarrow>
          res_map (\<lambda>host.
              s\<lparr>hosts_from_groups := dict_set host True (hosts_from_groups s),
                inventory_records := inventory_records s @
                  [host_group_object source_object group_object group_name]\<rparr>)
            (host_key group_object)
      | _ \<Rightarrow> Inl AttributeError)"

definition get_group_hosts ::
  "doc list \<Rightarrow> source_record \<Rightarrow> string \<Rightarrow> inventory_processor \<Rightarrow> inventory_processor result" where
  "get_group_hosts groups source_object group_name s =
     (case return_element group_name groups of
        [] \<Rightarrow> Inr (s\<lparr>single_hosts := single_hosts s @ [source_object]\<rparr>)
      | d # _ \<Rightarrow>
          res_bind (dict_item source_object ''port'') (\<lambda>port.
          res_bind (case d of [] \<Rightarrow> Inl IndexError | (_, members) # _ \<Rightarrow> py_iter members) (\<lambda>members.
            res_fold (add_group_member source_object group_name) members
              (s\<lparr>inventory_group_port_mapping :=
                   dict_set group_name (if py_truthy port then port else PInt 161)
                     (inventory_group_port_mapping s)\<rparr>))))"

definition process_line :: "doc list \<Rightarrow> source_record \<Rightarrow> inventory_processor \<Rightarrow> inventory_processor result" where
  "process_line groups source_record s =
     res_bind (dict_item source_record ''address'') (\<lambda>av.
       case av of
         PStr address \<Rightarrow>
           if str_startswith address ''#'' then Inr s
           else (case address of
                   [] \<Rightarrow> Inl IndexError
                 | c # _ \<Rightarrow>
                     if is_digit c then Inr (s\<lparr>single_hosts := single_hosts s @ [source_record]\<rparr>)
                     else get_group_hosts groups source_record address s)
       | _ \<Rightarrow> Inl AttributeError)"

definition keep_single :: "(string, bool) dict \<Rightarrow> source_record \<Rightarrow> source_record list \<Rightarrow> source_record list result" where
  "keep_single from_groups source_record acc =
     res_map (\<lambda>host. if dict_get from_groups host = None then acc @ [source_record] else acc)
       (host_key source_record)"

definition get_all_hosts ::
  "doc list \<Rightarrow> source_record list \<Rightarrow> (source_record list \<times> (string, pyval) dict) result" where
  \<comment> \<open>the second argument is what was read: the collection of the UI or the rows of the file (none
      when the file is a directory)\<close>
  "get_all_hosts groups ir_reader =
     res_bind (res_fold (process_line groups) ir_reader new_processor) (\<lambda>s.
     res_map (\<lambda>rs. (rs, inventory_group_port_mapping s))
       (res_fold (keep_single (hosts_from_groups s)) (single_hosts s) (inventory_records s)))"

section \<open>The inventory record manager\<close>

datatype inv_cmd =
    ITask tcmd                            \<comment> \<open>a command to the scheduler\<close>
  | IDeleteInventory string int           \<comment> \<open>\<open>inventory.delete_one\<close> by address and port\<close>
  | IDeleteTargets string | IDeleteAttributes string
  | IUpsertInventory inventory_record     \<comment> \<open>\<open>inventory.update_one(\<dots>, upsert=True)\<close>\<close>
  | IDeleteUi "(string, pyval) dict"      \<comment> \<open>\<open>inventory_ui.delete_one\<close> of this filter\<close>

text \<open>The answer to the upsert: matched and modified documents and the identifier inserted.\<close>

record upsert_status =
  matched_count :: int
  modified_count :: int
  upserted_id :: pyval

text \<open>What the manager relies on outside of it: the settings, and the answers of the database and of
  the scheduler.  These depend on the commands that were sent before.\<close>

record inv_env =
  enable_full_walk :: bool
  config_from_mongo :: bool
  chain_expiry :: int
  upsert_answers :: "inv_cmd list \<Rightarrow> inventory_record \<Rightarrow> upsert_status"
  entries_of_key :: "inv_cmd list \<Rightarrow> from_key_fn"
  sent_cmds :: "inv_cmd list"             \<comment> \<open>the commands sent so far\<close>
  name_resolves :: "string \<Rightarrow> pyval \<Rightarrow> bool"

definition upsert_answer :: "inv_env \<Rightarrow> inventory_record \<Rightarrow> upsert_status" where
  \<comment> \<open>the answer to the upsert that is sent next\<close>
  "upsert_answer env = upsert_answers env (sent_cmds env)"

definition entry_of_key :: "inv_env \<Rightarrow> from_key_fn" where
  "entry_of_key env = entries_of_key env (sent_cmds env)"

definition after_cmds :: "inv_env \<Rightarrow> inv_cmd list \<Rightarrow> inv_env" where
  "after_cmds env cmds = env\<lparr>sent_cmds := sent_cmds env @ cmds\<rparr>"

lemma after_cmds_simps [simp]:
  "enable_full_walk (after_cmds env cmds) = enable_full_walk env"
  "config_from_mongo (after_cmds env cmds) = config_from_mongo env"
  "chain_expiry (after_cmds env cmds) = chain_expiry env"
  "upsert_answers (after_cmds env cmds) = upsert_answers env"
  "entries_of_key (after_cmds env cmds) = entries_of_key env"
  "sent_cmds (after_cmds env cmds) = sent_cmds env @ cmds"
  "name_resolves (after_cmds env cmds) = name_resolves env"
  "after_cmds (after_cmds env cmds) cmds' = after_cmds env (cmds @ cmds')"
  "after_cmds env [] = env"
  by (simp_all add: after_cmds_def)

definition delete_record :: "string \<Rightarrow> inv_cmd list result" where
  "delete_record target =
     res_map (\<lambda>(address, port).
        map ITask (delete_all_tasks_of_host target) @
        [IDeleteInventory address port, IDeleteTargets target, IDeleteAttributes target])
       (transform_key_to_address target)"

definition walk_condition :: "doc \<Rightarrow> pyval \<Rightarrow> bool result" where
  \<comment> \<open>\<open>runtime_profiles.get(p, {}).get("condition", {}).get("type") == "walk"\<close>\<close>
  "walk_condition runtime_profiles p =
     res_bind (py_str p) (\<lambda>name.
     res_bind (py_get (dict_get_or runtime_profiles name (PDict [])) ''condition'' (PDict [])) (\<lambda>c.
     res_map (\<lambda>t. t = PStr ''walk'') (py_get c ''type'' PNone)))"

definition return_walk_profile :: "bool \<Rightarrow> doc \<Rightarrow> string list \<Rightarrow> pyval result" where
  "return_walk_profile full runtime_profiles inventory_profiles =
     (if full then Inr PNone
      else res_map (\<lambda>flags.
             let walk_profiles = map fst (filter snd (zip inventory_profiles flags)) in
             if walk_profiles \<noteq> [] \<and> last walk_profiles \<noteq> [] then PStr (last walk_profiles)
             else PStr ''WalkProfile'')
           (res_list (\<lambda>p. walk_condition runtime_profiles (PStr p)) inventory_profiles))"

definition update_walk_interval ::
  "pyval \<Rightarrow> source_record \<Rightarrow> inventory_record \<Rightarrow> inventory_record result" where
  \<comment> \<open>assigning a field of the record does not validate it\<close>
  "update_walk_interval walk_profile new_source_record ir =
     (if py_truthy walk_profile
      then res_bind (dict_item new_source_record ''walk_interval'') (\<lambda>w.
           res_map (\<lambda>i. dict_set ''walk_interval'' (PInt i) ir) (py_int w))
      else Inr ir)"

definition needs_walk_task :: "inv_env \<Rightarrow> bool \<Rightarrow> inventory_record \<Rightarrow> bool result" where
  \<comment> \<open>whether \<open>update\<close> goes on to the walk task after the upsert\<close>
  "needs_walk_task env expiry_time_changed ir =
     (let status = upsert_answer env ir in
      if matched_count status = 0 then Inr True
      else if modified_count status = 1 \<and> upserted_id status = PNone then Inr True
      else res_bind (py_str (rec_field ir ''address'')) (\<lambda>a.
           res_bind (transform_address_to_key a (rec_field ir ''port'')) (\<lambda>target.
             if expiry_time_changed then Inr True
             else res_map Not (walk_task_exists (entry_of_key env) target))))"

definition update_record ::
  "inv_env \<Rightarrow> inventory_record \<Rightarrow> source_record \<Rightarrow> doc \<Rightarrow> bool \<Rightarrow> inv_cmd list \<times> pyexn option" where
  \<comment> \<open>the commands sent, and the exception that stopped it, if any\<close>
  "update_record env ir0 new_source_record runtime_profiles expiry_time_changed =
     (case (res_bind (dict_item new_source_record ''profiles'') (\<lambda>ps.
            res_bind (case ps of PStr s \<Rightarrow> Inr (str_split '';'' s) | PBytes _ \<Rightarrow> Inl TypeError | _ \<Rightarrow> Inl AttributeError) (\<lambda>profiles.
            res_bind (return_walk_profile (enable_full_walk env) runtime_profiles profiles) (\<lambda>walk_profile.
            res_map (\<lambda>ir. (walk_profile, ir)) (update_walk_interval walk_profile new_source_record ir0))))) of
        Inl e \<Rightarrow> ([], Some e)
      | Inr (walk_profile, ir) \<Rightarrow>
          (case res_bind (needs_walk_task env expiry_time_changed ir) (\<lambda>go.
                  if \<not> go then Inr []
                  else res_bind (gen_walk_task (chain_expiry env) ir walk_profile
                                   (dict_get_or new_source_record ''group'' PNone))
                         (manage_task (entry_of_key env))) of
             Inl e \<Rightarrow> ([IUpsertInventory ir], Some e)
           | Inr cmds \<Rightarrow> (IUpsertInventory ir # map ITask cmds, None)))"

section \<open>Managing the records\<close>

definition delete_from_ui_inventory :: "bool \<Rightarrow> inventory_record \<Rightarrow> inv_cmd list" where
  "delete_from_ui_inventory from_mongo ir =
     (if from_mongo
      then (if rec_field ir ''group'' = PNone
            then [IDeleteUi [(''address'', rec_field ir ''address''), (''port'', rec_field ir ''port'')]]
            else [IDeleteUi [(''address'', rec_field ir ''group'')]])
      else [])"

definition manage_line ::
  "inv_env \<Rightarrow> doc \<Rightarrow> bool \<Rightarrow> source_record \<Rightarrow> inv_cmd list \<times> pyexn option" where
  \<comment> \<open>the body of the \<open>try\<close>\<close>
  "manage_line env config_profiles expiry_time_changed line =
     (case InventoryRecord (name_resolves env) line of
        Inl e \<Rightarrow> ([], Some e)
      | Inr ir \<Rightarrow>
          (case res_bind (py_str (rec_field ir ''address'')) (\<lambda>a.
                  transform_address_to_key a (rec_field ir ''port'')) of
             Inl e \<Rightarrow> ([], Some e)
           | Inr target \<Rightarrow>
               if py_truthy (rec_field ir ''delete'')
               then (case delete_record target of
                       Inl e \<Rightarrow> ([], Some e)
                     | Inr cmds \<Rightarrow> (cmds @ delete_from_ui_inventory (config_from_mongo env) ir, None))
               else update_record env ir line config_profiles expiry_time_changed))"

definition manage_failure :: "inv_env \<Rightarrow> source_record \<Rightarrow> inv_cmd list \<times> pyexn option" where
  \<comment> \<open>the body of the \<open>except\<close>\<close>
  "manage_failure env line =
     (case (if \<not> config_from_mongo env then Inr []
            else res_bind (dict_item line ''delete'') (\<lambda>d.
                   if \<not> py_truthy d then Inr []
                   else res_bind (dict_item line ''address'') (\<lambda>a.
                        res_map (\<lambda>p. [IDeleteUi [(''address'', a), (''port'', p)]]) (dict_item line ''port'')))) of
        Inl e \<Rightarrow> ([], Some e)
      | Inr cmds \<Rightarrow>
          (case res_bind (dict_item line ''address'') (\<lambda>a.
                res_bind (dict_item line ''port'') (\<lambda>p.
                res_bind (py_str a) (\<lambda>address. transform_address_to_key address p))) of
             Inl e \<Rightarrow> (cmds, Some e)
           | Inr _ \<Rightarrow> (cmds, None)))"

fun manage_lines ::
  "inv_env \<Rightarrow> doc \<Rightarrow> bool \<Rightarrow> source_record list \<Rightarrow> bool \<Rightarrow> inv_cmd list \<times> bool result" where
  "manage_lines env config_profiles changed [] errors = ([], Inr errors)"
| "manage_lines env config_profiles changed (line # lines) errors =
     (case manage_line env config_profiles changed line of
        (cmds, None) \<Rightarrow>
          (case manage_lines (after_cmds env cmds) config_profiles changed lines errors of (c, r) \<Rightarrow> (cmds @ c, r))
      | (cmds, Some _) \<Rightarrow>
          (case manage_failure env line of
             (cmds', Some e) \<Rightarrow> (cmds @ cmds', Inl e)
           | (cmds', None) \<Rightarrow>
               (case manage_lines (after_cmds env (cmds @ cmds')) config_profiles changed lines True of
                  (c, r) \<Rightarrow> (cmds @ cmds' @ c, r))))"

fun delete_hosts :: "string list \<Rightarrow> inv_cmd list \<times> pyexn option" where
  "delete_hosts [] = ([], None)"
| "delete_hosts (host # hosts) =
     (case delete_record host of
        Inl e \<Rightarrow> ([], Some e)
      | Inr cmds \<Rightarrow> (case delete_hosts hosts of (c, e) \<Rightarrow> (cmds @ c, e)))"

definition manage_inventory_records ::
  "inv_env \<Rightarrow> doc \<Rightarrow> bool \<Rightarrow> string list \<Rightarrow> bool \<Rightarrow> source_record list \<Rightarrow> inv_cmd list \<times> bool result" where
  "manage_inventory_records env config_profiles expiry_time_changed hosts_to_delete errors lines =
     (case delete_hosts hosts_to_delete of
        (cmds, Some e) \<Rightarrow> (cmds, Inl e)
      | (cmds, None) \<Rightarrow>
          (case manage_lines (after_cmds env cmds) config_profiles expiry_time_changed lines errors of
             (c, r) \<Rightarrow> (cmds @ c, r)))"

section \<open>The collections of the user interface\<close>

definition INVENTORY_KEYS_TRANSFORM :: "(string \<times> string) list" where
  "INVENTORY_KEYS_TRANSFORM = [(''securityEngine'', ''security_engine''), (''SmartProfiles'', ''smart_profiles'')]"

definition BOOLEAN_INVENTORY_FIELDS :: "string list" where
  "BOOLEAN_INVENTORY_FIELDS = [''delete'', ''smart_profiles'']"

definition assign_inventory_line :: "source_record \<Rightarrow> source_record result" where
  \<comment> \<open>the body of the loop of \<open>assign_inventory_values\<close>, without the last test\<close>
  "assign_inventory_line line0 =
     (let line = fold (\<lambda>(old, new) d. case dict_get d old of None \<Rightarrow> d
                   | Some v \<Rightarrow> dict_set new v (dict_del old d)) INVENTORY_KEYS_TRANSFORM line0 in
      res_bind (res_fold (\<lambda>field d.
          res_bind (dict_item d field) (\<lambda>v. res_map (\<lambda>b. dict_set field (PBool b) d) (human_bool v False)))
        BOOLEAN_INVENTORY_FIELDS line) (\<lambda>line.
      res_bind (let p = dict_get_or line ''port'' (PInt 161) in if py_truthy p then py_int p else Inr 161) (\<lambda>port.
      res_bind (dict_item line ''walk_interval'') (\<lambda>w.
      res_bind (py_int w) (\<lambda>walk_interval.
      res_bind (let m = dict_get_or line ''max_oid_to_process'' PNone in
                if \<not> py_truthy m then Inr PNone
                else res_bind (py_str m) (\<lambda>t. if str_strip t = [] then Inr PNone else res_map PInt (py_int m))) (\<lambda>max_oid.
        Inr (dict_set ''walk_interval'' (PInt (max walk_interval 1800))
              (dict_set ''port'' (PInt port) (dict_set ''max_oid_to_process'' max_oid line)))))))))"

definition assign_inventory_values :: "source_record list \<Rightarrow> source_record list result" where
  \<comment> \<open>the documents inserted\<close>
  "assign_inventory_values ir_reader =
     res_map concat (res_list (\<lambda>line0.
        res_bind (assign_inventory_line line0) (\<lambda>line.
        res_bind (dict_item line ''address'') (\<lambda>a.
          case a of PStr s \<Rightarrow> Inr (if str_startswith s ''#'' then [] else [line]) | _ \<Rightarrow> Inl AttributeError)))
      ir_reader)"

definition add_groups_and_profiles_from_config_runtime :: "pyval result \<Rightarrow> (doc list \<times> doc list) result" where
  \<comment> \<open>the documents inserted into the two collections\<close>
  "add_groups_and_profiles_from_config_runtime config =
     (case config of
        Inl FileNotFoundError \<Rightarrow> Inr ([], [])
      | Inl e \<Rightarrow> Inl e
      | Inr c \<Rightarrow>
          res_bind (py_in ''groups'' c) (\<lambda>g.
          res_bind (if g then py_get c ''groups'' (PDict []) else Inr (PDict [])) (\<lambda>groups.
          res_bind (py_in ''profiles'' c) (\<lambda>p.
          res_bind (if p then py_get c ''profiles'' (PDict []) else Inr (PDict [])) (\<lambda>profiles.
            case (groups, profiles) of
              (PDict gs, PDict ps) \<Rightarrow>
                Inr (map (\<lambda>(k, v). [(k, v)]) gs, map (\<lambda>(k, v). [(k, v)]) (dict_update [] ps))
            | _ \<Rightarrow> Inl AttributeError)))))"

datatype ui_cmd =
    SetUsedUi bool | InsertInventoryUi "source_record list" | InsertGroupsUi "doc list"
  | InsertProfilesUi "doc list" | DropInventoryUi | DropGroupsUi | DropProfilesUi

definition configure_ui_database ::
  "bool \<Rightarrow> doc option \<Rightarrow> source_record list result \<Rightarrow> pyval result \<Rightarrow> ui_cmd list \<times> pyexn option" where
  "configure_ui_database from_mongo used_ui_doc inventory config =
     (case (case used_ui_doc of None \<Rightarrow> Inr False | Some d \<Rightarrow>
              if d = [] then Inr False else res_map py_truthy (dict_item d ''used_ui'')) of
        Inl e \<Rightarrow> ([], Some e)
      | Inr used_ui \<Rightarrow>
          if from_mongo \<and> \<not> used_ui
          then (case res_bind inventory assign_inventory_values of
                  Inl e \<Rightarrow> ([SetUsedUi True], Some e)
                | Inr docs \<Rightarrow>
                    (case add_groups_and_profiles_from_config_runtime config of
                       Inl e \<Rightarrow> ([SetUsedUi True, InsertInventoryUi docs], Some e)
                     | Inr (groups_list, profiles_list) \<Rightarrow>
                         ([SetUsedUi True, InsertInventoryUi docs] @
                          (if groups_list \<noteq> [] then [InsertGroupsUi groups_list] else []) @
                          (if profiles_list \<noteq> [] then [InsertProfilesUi profiles_list] else []), None)))
          else if \<not> from_mongo \<and> used_ui
          then ([SetUsedUi False, DropInventoryUi, DropGroupsUi, DropProfilesUi], None)
          else ([], None))"

fun ui_docs_after :: "ui_cmd list \<Rightarrow> doc list \<times> doc list \<times> doc list \<Rightarrow> doc list \<times> doc list \<times> doc list" where
  \<comment> \<open>the collections of inventory, groups and profiles after the commands\<close>
  "ui_docs_after [] s = s"
| "ui_docs_after (InsertInventoryUi ds # cs) (i, g, p) = ui_docs_after cs (i @ ds, g, p)"
| "ui_docs_after (InsertGroupsUi ds # cs) (i, g, p) = ui_docs_after cs (i, g @ ds, p)"
| "ui_docs_after (InsertProfilesUi ds # cs) (i, g, p) = ui_docs_after cs (i, g, p @ ds)"
| "ui_docs_after (DropInventoryUi # cs) (i, g, p) = ui_docs_after cs ([], g, p)"
| "ui_docs_after (DropGroupsUi # cs) (i, g, p) = ui_docs_after cs (i, [], p)"
| "ui_docs_after (DropProfilesUi # cs) (i, g, p) = ui_docs_after cs (i, g, [])"
| "ui_docs_after (SetUsedUi b # cs) s = ui_docs_after cs s"

section \<open>Loading\<close>

record load_env =
  le_inv :: inv_env
  le_version :: "doc option"              \<comment> \<open>the schema version found\<close>
  le_used_ui :: "doc option"
  le_config :: "pyval result"             \<comment> \<open>the parsed configuration file\<close>
  le_inventory :: "source_record list result"   \<comment> \<open>the rows of the inventory file\<close>
  le_ui :: "doc list \<times> doc list \<times> doc list"     \<comment> \<open>inventory, groups and profiles of the UI\<close>
  le_groups :: "doc list"
  le_profiles :: "doc list"
  le_shared :: "doc list"                 \<comment> \<open>the profiles shipped with the package\<close>
  le_valid :: validator_fn
  le_scan :: scan_fn                      \<comment> \<open>the scheduler, after the migration\<close>
  le_from_key :: from_key_fn

datatype load_cmd =
    LMigrate migration | LUi ui_cmd | LTask tcmd
  | LProfiles "doc list" | LGroups "doc list"   \<comment> \<open>the documents of the collection are now these\<close>
  | LInv inv_cmd

definition load :: "load_env \<Rightarrow> (load_cmd, bool) effect" where
  "load env =
     (let inv = le_inv env; from_mongo = config_from_mongo inv in
      eff_bind (eff_of LMigrate (migrate_database (le_version env))) (\<lambda>_.
      eff_bind (eff_of LUi (configure_ui_database from_mongo (le_used_ui env) (le_inventory env) (le_config env))) (\<lambda>ui.
      (case ui_docs_after ui (le_ui env) of (inventory_ui, groups_ui, profiles_ui) \<Rightarrow>
      eff_bind (case did_expiry_time_change (le_scan env) (le_from_key env) (chain_expiry inv) [WALK_TASK, POLL_TASK] of
                  Inl e \<Rightarrow> ([], Inl e) | Inr (changed, cmds) \<Rightarrow> (map LTask cmds, Inr changed)) (\<lambda>expiry_time_changed.
      let previous_groups = return_collection (\<lambda>_. le_groups env) in
      eff_bind (case update_all (le_valid env) get_all_profile_schemas
                       (gather_profiles from_mongo (le_shared env) profiles_ui (le_config env)) (le_profiles env) of
                  Inl e \<Rightarrow> ([], Inl e) | Inr states \<Rightarrow> (map LProfiles states, Inr (last states))) (\<lambda>profile_docs.
      eff_bind (case update_all (le_valid env) get_all_group_schemas
                       (gather_groups from_mongo groups_ui (le_config env)) (le_groups env) of
                  Inl e \<Rightarrow> ([], Inl e) | Inr states \<Rightarrow> (map LGroups states, Inr (last states))) (\<lambda>group_docs.
      let config_profiles = return_collection (\<lambda>_. profile_docs);
          new_groups = return_collection (\<lambda>_. group_docs) in
      eff_bind ([], res_bind (if from_mongo then Inr inventory_ui else le_inventory env) (get_all_hosts group_docs))
        (\<lambda>(inventory_lines, ports).
      eff_bind ([], return_hosts_from_deleted_groups previous_groups new_groups ports) (\<lambda>hosts_to_delete.
      case manage_inventory_records inv config_profiles expiry_time_changed hosts_to_delete False inventory_lines of
        (cmds, r) \<Rightarrow> (map LInv cmds, r))))))))))"

section \<open>The key of a host\<close>

lemma digit_run_chars: "digit_run t = Some ds \<Longrightarrow> c \<in> set t \<Longrightarrow> is_digit c \<or> c = CHR ''_''"
  by (induction t arbitrary: ds rule: digit_run.induct) (auto split: if_splits)

lemma set_str_strip: "c \<in> set s \<Longrightarrow> c \<in> set (str_strip s) \<or> is_space c"
proof -
  assume c: "c \<in> set s"
  have drop: "x \<in> set xs \<Longrightarrow> x \<in> set (dropWhile is_space xs) \<or> is_space x" for x xs
    by (induction xs) auto
  show ?thesis
    using drop [OF c] drop [of c "rev (dropWhile is_space s)"]
    by (auto simp: str_strip_def str_lstrip_def str_rstrip_def)
qed

lemma split_sign_keeps:
  "split_sign s = (neg, t) \<Longrightarrow> c \<in> set s \<Longrightarrow> c \<noteq> CHR ''-'' \<Longrightarrow> c \<noteq> CHR ''+'' \<Longrightarrow> c \<in> set t"
  by (cases s) (auto simp: split_sign_def split: if_splits)

lemma parse_int_no_colon: "parse_int s = Inr i \<Longrightarrow> CHR '':'' \<notin> set s"
proof
  assume p: "parse_int s = Inr i" and c: "CHR '':'' \<in> set s"
  have "CHR '':'' \<in> set (str_strip s)" using set_str_strip [OF c] by (auto simp: is_space_def)
  moreover obtain neg t where t: "split_sign (str_strip s) = (neg, t)" by fastforce
  ultimately have "CHR '':'' \<in> set t" using split_sign_keeps [OF t, of "CHR '':''"] by simp
  then show False
    using p t by (auto simp: parse_int_def is_digit_def dest: digit_run_chars split: option.splits)
qed

lemma parse_int_161 [simp]: "parse_int ''161'' = Inr 161"
  by code_simp

definition port_number :: "pyval \<Rightarrow> int result" where
  "port_number p = (if py_truthy p then py_int p else Inr 161)"

lemma key_splits:
  assumes "transform_address_to_key address port = Inr key"
    and "port = PNone \<or> (\<exists>i. port = PInt i) \<or> (\<exists>s. port = PStr s)"
  shows "\<exists>i. port_number port = Inr i \<and> transform_key_to_address key = Inr (address, i)"
proof -
  have short: "transform_key_to_address (address @ '':161'') = Inr (address, 161)"
    using str_rcut_app [of "CHR '':''" "''161''" address] by (simp add: transform_key_to_address_def)
  show ?thesis
  proof (cases "py_truthy port")
    case False
    then show ?thesis using assms(1) short by (auto simp: transform_address_to_key_def port_number_def)
  next
    case True
    then obtain i where i: "py_int port = Inr i"
      using assms(1) by (auto simp: transform_address_to_key_def res_splits)
    obtain t where t: "py_str port = Inr t" "parse_int t = Inr i"
      using assms(2) i by (auto simp: py_str_def py_int_def parse_int_str_of_int)
    have "str_rcut (CHR '':'') (address @ CHR '':'' # t) = Some (address, t)"
      using parse_int_no_colon [OF t(2)] by (rule str_rcut_app)
    then have "transform_key_to_address (address @ '':'' @ t) = Inr (address, i)"
      using t by (simp add: transform_key_to_address_def)
    then show ?thesis
      using True i t short assms(1)
      by (auto simp: transform_address_to_key_def port_number_def split: if_splits)
  qed
qed

text \<open>
  C23.  The key of a host determines its address and port: splitting the key that was made of an
  address (also one with colons) and a port given as a number, as digits or not at all gives
  back the address and the number of the port.
\<close>

theorem key_roundtrip:
  assumes "transform_address_to_key address port = Inr key"
    and "port = PNone \<or> (\<exists>i. port = PInt i) \<or> (\<exists>s. port = PStr s)"
  shows "\<exists>i. port_number port = Inr i \<and> transform_key_to_address key = Inr (address, i)"
  using assms by (rule key_splits)

theorem key_roundtrip_witness:
  "transform_address_to_key ''::1'' (PStr ''162'') = Inr ''::1:162'' \<and>
   transform_key_to_address ''::1:162'' = Inr (''::1'', 162)"
proof -
  have p: "parse_int ''162'' = Inr 162" by code_simp
  have k: "transform_address_to_key ''::1'' (PStr ''162'') = Inr ''::1:162''"
    by (simp add: transform_address_to_key_def py_truthy_def py_int_def p py_str_def)
  show ?thesis using key_roundtrip [OF k] k by (auto simp: port_number_def py_truthy_def py_int_def p)
qed

section \<open>Expanding the lines\<close>

text \<open>
  What the lines stand for: the group that a line names, with the members of its document, and
  the records of the hosts of the groups and of the single hosts.
\<close>

definition line_group :: "doc list \<Rightarrow> source_record \<Rightarrow> (string \<times> source_record list) option" where
  "line_group groups line =
     (case dict_get line ''address'' of
        Some (PStr (c # name)) \<Rightarrow>
          if c = CHR ''#'' \<or> is_digit c then None
          else (case return_element (c # name) groups of
                  ((_, members) # _) # _ \<Rightarrow>
                    Some (c # name, case py_iter members of
                       Inr ms \<Rightarrow> concat (map (\<lambda>m. case m of PDict d \<Rightarrow> [d] | _ \<Rightarrow> []) ms) | Inl _ \<Rightarrow> [])
                | _ \<Rightarrow> None)
      | _ \<Rightarrow> None)"

definition group_records :: "doc list \<Rightarrow> source_record \<Rightarrow> source_record list" where
  "group_records groups line =
     (case line_group groups line of None \<Rightarrow> []
      | Some (g, ms) \<Rightarrow> map (\<lambda>m. host_group_object line m g) ms)"

definition group_keys :: "doc list \<Rightarrow> source_record \<Rightarrow> string result list" where
  "group_keys groups line = (case line_group groups line of None \<Rightarrow> [] | Some (g, ms) \<Rightarrow> map host_key ms)"

definition commented :: "source_record \<Rightarrow> bool" where
  "commented line \<longleftrightarrow> (\<exists>s. dict_get line ''address'' = Some (PStr (CHR ''#'' # s)))"

definition single_line :: "doc list \<Rightarrow> source_record \<Rightarrow> bool" where
  "single_line groups line \<longleftrightarrow> \<not> commented line \<and> line_group groups line = None"

definition in_hosts :: "inventory_processor \<Rightarrow> string \<Rightarrow> bool" where
  "in_hosts s h \<longleftrightarrow> dict_get (hosts_from_groups s) h \<noteq> None"

lemma add_members:
  assumes "res_fold (add_group_member line g) members s = Inr s'"
  shows "\<exists>ds. members = map PDict ds \<and>
    inventory_records s' = inventory_records s @ map (\<lambda>m. host_group_object line m g) ds \<and>
    single_hosts s' = single_hosts s \<and>
    (\<forall>h. in_hosts s' h \<longleftrightarrow> in_hosts s h \<or> Inr h \<in> set (map host_key ds))"
  using assms
proof (induction rule: res_fold_induct)
  case (Cons x xs s t u)
  then obtain d h where d: "x = PDict d" "host_key d = Inr h"
    "t = s\<lparr>hosts_from_groups := dict_set h True (hosts_from_groups s),
           inventory_records := inventory_records s @ [host_group_object line d g]\<rparr>"
    by (auto simp: add_group_member_def res_splits split: pyval.splits)
  obtain ds where "xs = map PDict ds"
    "inventory_records u = inventory_records t @ map (\<lambda>m. host_group_object line m g) ds"
    "single_hosts u = single_hosts t"
    "\<forall>h. in_hosts u h \<longleftrightarrow> in_hosts t h \<or> Inr h \<in> set (map host_key ds)" using Cons.IH by blast
  with d show ?case by (intro exI [of _ "d # ds"]) (auto simp: in_hosts_def)
qed simp

lemma concat_PDict [simp]:
  "concat (map ((\<lambda>m. case m of PDict d \<Rightarrow> [d] | _ \<Rightarrow> []) \<circ> PDict) ds) = ds"
  by (induction ds) auto

lemma process_line_effect:
  assumes "process_line groups line s = Inr s'"
  shows "inventory_records s' = inventory_records s @ group_records groups line"
    and "single_hosts s' = single_hosts s @ (if single_line groups line then [line] else [])"
    and "in_hosts s' h \<longleftrightarrow> in_hosts s h \<or> Inr h \<in> set (group_keys groups line)"
proof -
  obtain a where a: "dict_get line ''address'' = Some (PStr a)"
    using assms by (auto simp: process_line_def res_splits dict_item_def split: option.splits pyval.splits)
  have "inventory_records s' = inventory_records s @ group_records groups line \<and>
    single_hosts s' = single_hosts s @ (if single_line groups line then [line] else []) \<and>
    (in_hosts s' h \<longleftrightarrow> in_hosts s h \<or> Inr h \<in> set (group_keys groups line))"
  proof (cases a)
    case Nil
    then show ?thesis using assms a by (simp add: process_line_def dict_item_def str_startswith_def)
  next
    case (Cons c name)
    consider "c = CHR ''#''" | "c \<noteq> CHR ''#''" "is_digit c"
      | "c \<noteq> CHR ''#''" "\<not> is_digit c" "return_element a groups = []"
      | d ds where "c \<noteq> CHR ''#''" "\<not> is_digit c" "return_element a groups = d # ds"
      by (cases "return_element a groups") auto
    then show ?thesis
    proof cases
      case (4 d ds)
      then obtain k ms rest its where m: "d = (k, ms) # rest" "py_iter ms = Inr its"
        and f: "res_fold (add_group_member line a) its
          (s\<lparr>inventory_group_port_mapping :=
               dict_set a (case dict_get line ''port'' of Some p \<Rightarrow> if py_truthy p then p else PInt 161)
                 (inventory_group_port_mapping s)\<rparr>) = Inr s'"
        using assms a Cons
        by (auto simp: process_line_def dict_item_def str_startswith_def get_group_hosts_def res_splits
            split: list.splits option.splits)
      obtain ms' where ms': "its = map PDict ms'"
        "inventory_records s' = inventory_records s @ map (\<lambda>m. host_group_object line m a) ms'"
        "single_hosts s' = single_hosts s"
        "\<forall>h. in_hosts s' h \<longleftrightarrow> in_hosts s h \<or> Inr h \<in> set (map host_key ms')"
        using add_members [OF f] by (auto simp: in_hosts_def)
      have "line_group groups line = Some (a, ms')"
        using a Cons 4 m ms'(1) by (simp add: line_group_def)
      then show ?thesis
        using ms'(2-4) by (simp add: group_records_def group_keys_def single_line_def)
    qed (use assms a Cons in \<open>auto simp: process_line_def dict_item_def str_startswith_def get_group_hosts_def
          group_records_def group_keys_def single_line_def commented_def line_group_def in_hosts_def
          split: if_splits\<close>)
  qed
  then show "inventory_records s' = inventory_records s @ group_records groups line"
    and "single_hosts s' = single_hosts s @ (if single_line groups line then [line] else [])"
    and "in_hosts s' h \<longleftrightarrow> in_hosts s h \<or> Inr h \<in> set (group_keys groups line)" by blast+
qed

lemma process_lines_effect:
  assumes "res_fold (process_line groups) lines s = Inr s'"
  shows "inventory_records s' = inventory_records s @ concat (map (group_records groups) lines) \<and>
    single_hosts s' = single_hosts s @ filter (single_line groups) lines \<and>
    (\<forall>h. in_hosts s' h \<longleftrightarrow> in_hosts s h \<or> (\<exists>l \<in> set lines. Inr h \<in> set (group_keys groups l)))"
  using assms
proof (induction rule: res_fold_induct)
  case (Cons x xs s t u)
  note e = process_line_effect [OF Cons.hyps(1)]
  show ?case using Cons.IH e by auto
qed simp

lemma keep_single_effect:
  assumes "res_fold (keep_single from_groups) xs acc = Inr rs"
  shows "rs = acc @ filter (\<lambda>r. \<exists>h. host_key r = Inr h \<and> dict_get from_groups h = None) xs"
  using assms
  by (induction rule: res_fold_induct) (auto simp: keep_single_def res_splits split: if_splits)

definition member_record :: "source_record \<Rightarrow> string \<Rightarrow> source_record \<Rightarrow> source_record \<Rightarrow> bool" where
  \<comment> \<open>the record of a member: its own address, port, credentials and limit where it has them, the name of
     the group, and everything else from the line\<close>
  "member_record line g member r \<longleftrightarrow>
     (\<forall>k. dict_get r k =
        (if k = ''group'' then Some (PStr g)
         else if k \<in> {''address'', ''port'', ''community'', ''secret'', ''version'', ''security_engine'',
                      ''securityEngine'', ''max_oid_to_process''} \<and> dict_get (rev member) k \<noteq> None
         then dict_get (rev member) k
         else dict_get line k))"

lemma host_group_object_record: "member_record line g member (host_group_object line member g)"
proof -
  have keys: "set ALLOWED_KEYS_VALUES = {''address'', ''port'', ''community'', ''secret'', ''version'', ''security_engine'',
      ''securityEngine'', ''max_oid_to_process''}"
    by (simp add: ALLOWED_KEYS_VALUES_def)
  have copied: "dict_get (fold (\<lambda>(k, v) r. if k \<in> set ALLOWED_KEYS_VALUES then dict_set k v r else r) m r) k =
      (if k \<in> set ALLOWED_KEYS_VALUES \<and> dict_get (rev m) k \<noteq> None then dict_get (rev m) k else dict_get r k)" for m r k
  proof (induction m arbitrary: r)
    case (Cons p m)
    obtain j v where p: "p = (j, v)" by fastforce
    have "dict_get (rev (p # m)) k = (case dict_get (rev m) k of None \<Rightarrow> if k = j then Some v else None | Some w \<Rightarrow> Some w)"
      by (auto simp: p dict_get_def map_add_def split: option.split)
    then show ?case
      using Cons.IH [of r] Cons.IH [of "dict_set j v r"] by (cases "dict_get (rev m) k") (auto simp: p)
  qed simp
  show ?thesis
    unfolding member_record_def host_group_object_def
    by (rule allI) (simp only: dict_get_set copied keys [symmetric])
qed

text \<open>
  C4.  Expanding the inventory lists, in the order of the lines, one record for every member of
  every group that a line names, with the address, port, credentials and limit of the member where
  it has them, the name of the group, and whatever else the line has, but nothing else of the
  member; and then the lines of single hosts (addresses, and names that are no group) whose key is
  not the key of a member of a listed group; lines that are commented out give nothing.
\<close>

theorem get_all_hosts_records:
  assumes "get_all_hosts groups lines = Inr (records, ports)"
  shows "\<exists>rss. records = concat rss @
      filter (\<lambda>l. \<exists>h. host_key l = Inr h \<and> (\<forall>l' \<in> set lines. Inr h \<notin> set (group_keys groups l')))
        (filter (single_line groups) lines) \<and>
    list_all2 (\<lambda>line rs. case line_group groups line of
         None \<Rightarrow> rs = []
       | Some (g, members) \<Rightarrow> list_all2 (member_record line g) members rs) lines rss"
proof -
  obtain s where s: "res_fold (process_line groups) lines new_processor = Inr s"
    "res_fold (keep_single (hosts_from_groups s)) (single_hosts s) (inventory_records s) = Inr records"
    using assms by (auto simp: get_all_hosts_def res_splits)
  have recs: "inventory_records s = concat (map (group_records groups) lines)"
    "single_hosts s = filter (single_line groups) lines"
    and hosts: "\<forall>h. in_hosts s h \<longleftrightarrow> (\<exists>l \<in> set lines. Inr h \<in> set (group_keys groups l))"
    using process_lines_effect [OF s(1)] by (simp_all add: new_processor_def in_hosts_def)
  have none: "dict_get (hosts_from_groups s) h = None \<longleftrightarrow>
      (\<forall>l \<in> set lines. Inr h \<notin> set (group_keys groups l))" for h
    using hosts unfolding in_hosts_def by (metis (no_types, lifting))
  have "list_all2 (member_record line g) members (map (\<lambda>m. host_group_object line m g) members)" for line g members
    by (simp add: list_all2_map2 list_all2_refl host_group_object_record)
  then have "list_all2 (\<lambda>line rs. case line_group groups line of
         None \<Rightarrow> rs = []
       | Some (g, members) \<Rightarrow> list_all2 (member_record line g) members rs) lines (map (group_records groups) lines)"
    by (auto simp: list_all2_map2 group_records_def split: option.split intro!: list_all2_refl)
  then show ?thesis
    using keep_single_effect [OF s(2)] unfolding recs none
    by (intro exI [of _ "map (group_records groups) lines"]) simp
qed

definition sample_member :: source_record where
  \<comment> \<open>its walk interval does not count\<close>
  "sample_member = [(''address'', PStr ''7''), (''walk_interval'', PInt 1)]"

definition sample_group_line :: source_record where
  "sample_group_line = [(''address'', PStr ''g''), (''port'', PStr []), (''community'', PStr ''c'')]"

definition sample_groups :: "doc list" where
  "sample_groups = [[(''g'', PList [PDict sample_member])]]"

definition sample_lines :: "source_record list" where
  "sample_lines = [[(''address'', PStr ''7''), (''port'', PStr [])], [(''address'', PStr ''#9''), (''port'', PStr [])],
     sample_group_line]"

theorem get_all_hosts_records_witness:
  "\<exists>r ports. get_all_hosts sample_groups sample_lines = Inr ([r], ports) \<and>
     member_record sample_group_line ''g'' sample_member r"
proof -
  note defs = sample_groups_def sample_lines_def sample_member_def sample_group_line_def
  have k: "host_key sample_member = Inr ''7:161''"
    "host_key [(''address'', PStr ''7''), (''port'', PStr [])] = Inr ''7:161''"
    by (simp_all add: host_key_def dict_item_def dict_get_def dict_get_or_def py_str_def
        transform_address_to_key_def py_truthy_def sample_member_def)
  have ret: "return_element ''g'' sample_groups = sample_groups"
    by (simp add: defs return_element_def dict_has_def dict_get_def)
  have d: "is_digit (CHR ''7'')" "\<not> is_digit (CHR ''g'')" by (simp_all add: is_digit_def)
  have "is_ok (get_all_hosts sample_groups sample_lines)"
    using ret k unfolding defs
    by (simp add: get_all_hosts_def process_line_def dict_item_def dict_get_Cons str_startswith_def d
        get_group_hosts_def py_iter_def add_group_member_def keep_single_def res_splits new_processor_def)
  then obtain rs ports where r: "get_all_hosts sample_groups sample_lines = Inr (rs, ports)"
    by (auto simp: res_splits)
  have g: "line_group sample_groups sample_group_line = Some (''g'', [sample_member])"
    using ret by (simp add: line_group_def dict_get_Cons d py_iter_def sample_groups_def sample_group_line_def)
  have n: "line_group sample_groups [(''address'', PStr ''7''), (''port'', PStr [])] = None"
    "line_group sample_groups [(''address'', PStr ''#9''), (''port'', PStr [])] = None"
    by (simp_all add: line_group_def dict_get_Cons d)
  have c: "\<not> commented [(''address'', PStr ''7''), (''port'', PStr [])]"
    "commented [(''address'', PStr ''#9''), (''port'', PStr [])]"
    by (simp_all add: commented_def dict_get_Cons)
  obtain rss where rss: "rs = concat rss @
      filter (\<lambda>l. \<exists>h. host_key l = Inr h \<and> (\<forall>l' \<in> set sample_lines. Inr h \<notin> set (group_keys sample_groups l')))
        (filter (single_line sample_groups) sample_lines)"
    "list_all2 (\<lambda>line rs. case line_group sample_groups line of
         None \<Rightarrow> rs = []
       | Some (g, members) \<Rightarrow> list_all2 (member_record line g) members rs) sample_lines rss"
    using get_all_hosts_records [OF r] by blast
  have "filter (\<lambda>l. \<exists>h. host_key l = Inr h \<and> (\<forall>l' \<in> set sample_lines. Inr h \<notin> set (group_keys sample_groups l')))
        (filter (single_line sample_groups) sample_lines) = []"
    by (simp add: sample_lines_def group_keys_def single_line_def g n c k)
  moreover obtain m where "concat rss = [m]" "member_record sample_group_line ''g'' sample_member m"
    using rss(2) by (auto simp: sample_lines_def list_all2_Cons1 g n)
  ultimately show ?thesis using r rss(1) by auto
qed

section \<open>Hosts that left their group\<close>

text \<open>
  C25.  The hosts removed from the inventory are exactly the keys of the members of the previous
  groups that are not among the keys of the members of the new group of the same name, or
  whose group is gone.
\<close>

theorem deleted_group_hosts:
  assumes "return_hosts_from_deleted_groups previous new_groups ports = Inr hosts"
  shows "h \<in> set hosts \<longleftrightarrow>
    (\<exists>g ms ks. (g, ms) \<in> set previous \<and> get_groups_keys ms g ports = Inr ks \<and> h \<in> set ks \<and>
       (case dict_get new_groups g of
          None \<Rightarrow> True
        | Some ms' \<Rightarrow> \<exists>ks'. get_groups_keys ms' g ports = Inr ks' \<and> h \<notin> set ks'))"
  using assms
proof (induction previous new_groups ports arbitrary: hosts rule: return_hosts_from_deleted_groups.induct)
  case (2 g ms previous new_groups ports)
  from "2.prems" obtain ks del rest where r: "get_groups_keys ms g ports = Inr ks"
    "return_hosts_from_deleted_groups previous new_groups ports = Inr rest" "hosts = del @ rest"
    "(case dict_get new_groups g of None \<Rightarrow> Inr ks
      | Some new_members \<Rightarrow> res_map (\<lambda>nk. remdups (filter (\<lambda>h. h \<notin> set nk) ks))
          (get_groups_keys new_members g ports)) = Inr del"
    by (auto simp: res_splits)
  have "h \<in> set del \<longleftrightarrow> h \<in> set ks \<and>
       (case dict_get new_groups g of
          None \<Rightarrow> True
        | Some ms' \<Rightarrow> \<exists>ks'. get_groups_keys ms' g ports = Inr ks' \<and> h \<notin> set ks')"
    using r(4) by (auto simp: res_splits split: option.splits)
  then show ?case using "2.IH" [OF r(2)] r(1,3) by auto
qed simp

theorem deleted_group_hosts_witness:
  "\<exists>hosts. return_hosts_from_deleted_groups [(''g'', PList [PDict [(''address'', PStr ''a'')]])] [] [] = Inr hosts \<and>
     ''a:161'' \<in> set hosts"
proof -
  have k: "get_groups_keys (PList [PDict [(''address'', PStr ''a'')]]) ''g'' [] = Inr [''a:161'']"
    by (simp add: get_groups_keys_def py_iter_def dict_get_or_def dict_get_Cons py_str_def
        transform_address_to_key_def py_truthy_def py_int_def)
  then have r: "return_hosts_from_deleted_groups [(''g'', PList [PDict [(''address'', PStr ''a'')]])] [] [] =
      Inr [''a:161'']" by simp
  show ?thesis using deleted_group_hosts [OF r, of "''a:161''"] r k by auto
qed

section \<open>Writing a record\<close>

definition upsert_unchanged :: "upsert_status \<Rightarrow> bool" where
  "upsert_unchanged st \<longleftrightarrow> matched_count st \<noteq> 0 \<and> (modified_count st \<noteq> 1 \<or> upserted_id st \<noteq> PNone)"

definition record_key :: "inventory_record \<Rightarrow> string result" where
  "record_key ir = res_bind (py_str (rec_field ir ''address'')) (\<lambda>a. transform_address_to_key a (rec_field ir ''port''))"

lemma needs_walk_task_iff:
  "needs_walk_task env changed ir = Inr go \<longleftrightarrow>
     (if upsert_unchanged (upsert_answer env ir)
      then \<exists>target. record_key ir = Inr target \<and>
             (if changed then go else \<exists>ex. walk_task_exists (entry_of_key env) target = Inr ex \<and> go = (\<not> ex))
      else go)"
  by (auto simp: needs_walk_task_def upsert_unchanged_def record_key_def Let_def res_splits)

lemma walk_definition_fields:
  "filter (\<lambda>f. dict_get_or (walk_task_definition expiry target period grp profile) f PNone = PNone)
     REQUIRED_NEW_TASK_FIELDS = []"
  by (simp add: schedule_of_def walk_task_definition_def set_kwargs_def dict_get_or_def REQUIRED_NEW_TASK_FIELDS_def
      generate_task_definition_def dict_get_Cons)

definition is_walk_profile :: "doc \<Rightarrow> string \<Rightarrow> bool" where
  \<comment> \<open>the condition of the profile has the type \<open>walk\<close>\<close>
  "is_walk_profile profiles p \<longleftrightarrow>
     (\<exists>prof c. dict_get profiles p = Some (PDict prof) \<and> dict_get prof ''condition'' = Some (PDict c) \<and>
        dict_get c ''type'' = Some (PStr ''walk''))"

definition chosen_walk_profile :: "bool \<Rightarrow> doc \<Rightarrow> source_record \<Rightarrow> pyval \<Rightarrow> bool" where
  \<comment> \<open>none for a full walk; otherwise the last walk profile that the line lists, or the default\<close>
  "chosen_walk_profile full profiles line profile \<longleftrightarrow>
     (if full then profile = PNone
      else \<exists>s. dict_get line ''profiles'' = Some (PStr s) \<and>
        (let walks = filter (is_walk_profile profiles) (str_split '';'' s) in
         profile = PStr (if walks = [] \<or> last walks = [] then ''WalkProfile'' else last walks)))"

lemma return_walk_profile_chosen:
  assumes "return_walk_profile full profiles (str_split '';'' s) = Inr profile" "dict_get line ''profiles'' = Some (PStr s)"
  shows "chosen_walk_profile full profiles line profile"
proof (cases full)
  case True
  then show ?thesis using assms(1) by (simp add: return_walk_profile_def chosen_walk_profile_def)
next
  case False
  have one: "b = is_walk_profile profiles p" if "walk_condition profiles (PStr p) = Inr b" for p b
    using that
    by (auto simp: walk_condition_def is_walk_profile_def py_str_def py_get_def dict_get_or_def res_splits
        split: pyval.splits option.splits)
  have all: "flags = map (is_walk_profile profiles) ps"
    if "res_list (\<lambda>p. walk_condition profiles (PStr p)) ps = Inr flags" for ps flags
    using that by (induction ps arbitrary: flags) (auto simp: res_splits dest: one)
  have pick: "map fst (filter snd (zip ps (map f ps))) = filter f ps" for f :: "string \<Rightarrow> bool" and ps
    by (induction ps) simp_all
  obtain flags where flags: "res_list (\<lambda>p. walk_condition profiles (PStr p)) (str_split '';'' s) = Inr flags"
    and profile: "profile = (let walk_profiles = map fst (filter snd (zip (str_split '';'' s) flags)) in
             if walk_profiles \<noteq> [] \<and> last walk_profiles \<noteq> [] then PStr (last walk_profiles)
             else PStr ''WalkProfile'')"
    using assms(1) False by (auto simp: return_walk_profile_def res_splits)
  have "profile = PStr (if filter (is_walk_profile profiles) (str_split '';'' s) = [] \<or>
        last (filter (is_walk_profile profiles) (str_split '';'' s)) = [] then ''WalkProfile''
      else last (filter (is_walk_profile profiles) (str_split '';'' s)))"
    unfolding profile all [OF flags] pick Let_def by simp
  then show ?thesis
    using False assms(2) unfolding chosen_walk_profile_def by (simp add: Let_def)
qed

definition walk_entry ::
  "inv_env \<Rightarrow> string \<Rightarrow> pyval \<Rightarrow> pyval \<Rightarrow> pyval \<Rightarrow> task_data result \<Rightarrow> task_data \<Rightarrow> bool" where
  \<comment> \<open>the walk task of the host with the given interval, profile and group: a new entry is complete, an
      existing one keeps its name, its task and its options\<close>
  "walk_entry env target interval profile grp old e \<longleftrightarrow>
     dict_get e ''target'' = Some (PStr target) \<and>
     dict_get e ''schedule'' = Some (PTuple [PStr ''schedule'', interval]) \<and>
     dict_get e ''run_immediately'' = Some (PBool True) \<and> dict_get e ''enabled'' = Some (PBool True) \<and>
     (\<exists>kw. dict_get e ''kwargs'' = Some (PDict kw) \<and> dict_get kw ''address'' = Some (PStr target) \<and>
        dict_get kw ''profile'' = Some profile \<and>
        dict_get kw ''chain_of_tasks_expiry_time'' = Some (PInt (chain_expiry env)) \<and>
        dict_get kw ''group'' = (if py_truthy grp then Some grp else None)) \<and>
     (case old of
        Inr known \<Rightarrow>
          (\<forall>k. k \<notin> {''target'', ''args'', ''kwargs'', ''run_immediately'', ''schedule'', ''enabled''} \<longrightarrow>
             dict_get e k = dict_get known k)
      | Inl _ \<Rightarrow>
          dict_get e ''name'' = Some (PStr (''sc4snmp;'' @ target @ '';walk'')) \<and>
          dict_get e ''task'' = Some (PStr ''splunk_connect_for_snmp.snmp.tasks.walk'') \<and>
          expires_of e = PInt (chain_expiry env))"

lemma walk_definition_get:
  shows "dict_get (walk_task_definition expiry target interval grp profile) ''target'' = Some (PStr target)"
    and "dict_get (walk_task_definition expiry target interval grp profile) ''args'' = Some (PList [])"
    and "dict_get (walk_task_definition expiry target interval grp profile) ''schedule'' = Some (PTuple [PStr ''schedule'', interval])"
    and "dict_get (walk_task_definition expiry target interval grp profile) ''run_immediately'' = Some (PBool True)" and "dict_get (walk_task_definition expiry target interval grp profile) ''enabled'' = Some (PBool True)"
    and "\<exists>kw. dict_get (walk_task_definition expiry target interval grp profile) ''kwargs'' = Some (PDict kw) \<and> dict_get kw ''address'' = Some (PStr target) \<and>
        dict_get kw ''profile'' = Some profile \<and> dict_get kw ''chain_of_tasks_expiry_time'' = Some (PInt expiry) \<and>
        dict_get kw ''group'' = (if py_truthy grp then Some grp else None)"
    and "dict_get (walk_task_definition expiry target interval grp profile) ''name'' = Some (PStr (''sc4snmp;'' @ target @ '';walk''))"
    and "dict_get (walk_task_definition expiry target interval grp profile) ''task'' = Some (PStr ''splunk_connect_for_snmp.snmp.tasks.walk'')"
    and "expires_of (walk_task_definition expiry target interval grp profile) = PInt expiry"
  unfolding walk_task_definition_def set_kwargs_def generate_task_definition_def
  by (simp_all add: dict_get_Cons schedule_of_def walk_name_def WALK_TASK_def expires_of_def WALK_CHAIN_OF_TASKS_def
      dict_get_or_def)

lemma walk_task_managed:
  assumes "manage_task from_key (walk_task_definition (chain_expiry env) target interval grp profile) = Inr cmds"
  shows "\<exists>e. walk_entry env target interval profile grp (from_key (''redbeat:sc4snmp;'' @ target @ '';walk'')) e \<and>
    cmds = TcSave e # (case from_key (''redbeat:sc4snmp;'' @ target @ '';walk'') of
                         Inr _ \<Rightarrow> [] | Inl _ \<Rightarrow> [TcReschedule (''sc4snmp;'' @ target @ '';walk'')])"
proof -
  let ?td = "walk_task_definition (chain_expiry env) target interval grp profile"
  note get = walk_definition_get [of "chain_expiry env" target interval grp profile]
  have truthy: "py_truthy (dict_get_or ?td ''run_immediately'' PNone)" using get(4) by (simp add: dict_get_or_def py_truthy_def)
  show ?thesis
  proof (cases "from_key (''redbeat:sc4snmp;'' @ target @ '';walk'')")
    case (Inl err)
    then have "cmds = [TcSave ?td, TcReschedule (''sc4snmp;'' @ target @ '';walk'')]"
      using assms truthy Inl walk_definition_fields
      by (cases err) (simp_all add: manage_task_def get(7))
    moreover have "walk_entry env target interval profile grp (Inl err) ?td"
      unfolding walk_entry_def sum.case by (intro conjI get)
    ultimately show ?thesis using Inl by (intro exI [of _ ?td]) simp
  next
    case (Inr old)
    define e where "e = fold (\<lambda>arg e. case dict_get ?td arg of None \<Rightarrow> e | Some v \<Rightarrow> dict_set arg v e) args_list old"
    have e: "dict_get e k = (if k \<in> set args_list \<and> dict_has ?td k then dict_get ?td k else dict_get old k)" for k
      unfolding e_def by (rule fold_args_get)
    have new: "dict_get e k = dict_get ?td k" if "k \<in> set args_list" "dict_get ?td k = Some v" for k v
      using that by (simp add: e dict_has_def)
    have "walk_entry env target interval profile grp (Inr old) e"
      unfolding walk_entry_def sum.case
    proof (intro conjI)
      show "dict_get e ''target'' = Some (PStr target)" using new [OF _ get(1)] get(1) by (simp add: args_list_def)
      show "dict_get e ''schedule'' = Some (PTuple [PStr ''schedule'', interval])"
        using new [OF _ get(3)] get(3) by (simp add: args_list_def)
      show "dict_get e ''run_immediately'' = Some (PBool True)" using new [OF _ get(4)] get(4) by (simp add: args_list_def)
      show "dict_get e ''enabled'' = Some (PBool True)" using new [OF _ get(5)] get(5) by (simp add: args_list_def)
      obtain kw where kw: "dict_get ?td ''kwargs'' = Some (PDict kw)" "dict_get kw ''address'' = Some (PStr target)"
        "dict_get kw ''profile'' = Some profile" "dict_get kw ''chain_of_tasks_expiry_time'' = Some (PInt (chain_expiry env))"
        "dict_get kw ''group'' = (if py_truthy grp then Some grp else None)" using get(6) by blast
      have "dict_get e ''kwargs'' = Some (PDict kw)" using new [OF _ kw(1)] kw(1) by (simp add: args_list_def)
      with kw(2-5) show "\<exists>kw. dict_get e ''kwargs'' = Some (PDict kw) \<and> dict_get kw ''address'' = Some (PStr target) \<and>
        dict_get kw ''profile'' = Some profile \<and>
        dict_get kw ''chain_of_tasks_expiry_time'' = Some (PInt (chain_expiry env)) \<and>
        dict_get kw ''group'' = (if py_truthy grp then Some grp else None)" by blast
      show "\<forall>k. k \<notin> {''target'', ''args'', ''kwargs'', ''run_immediately'', ''schedule'', ''enabled''} \<longrightarrow>
             dict_get e k = dict_get old k"
        by (simp add: e args_list_def)
    qed
    moreover have "cmds = [TcSave e]" using assms Inr by (simp add: e_def manage_task_def get(7))
    ultimately show ?thesis using Inr by (intro exI [of _ e]) simp
  qed
qed

lemma return_walk_profile_some:
  "return_walk_profile False profiles ps = Inr p \<Longrightarrow> \<exists>c s. p = PStr (c # s)"
  by (auto simp: return_walk_profile_def res_splits Let_def neq_Nil_conv split: if_splits)

text \<open>
  C36.  A record that is not to be walked in full is saved with the walk interval as its line
  gives it: the bounds of 1800 and 604800 seconds that validation enforced are lost, and all
  other fields are as validated.
\<close>

theorem update_overrides_walk_interval:
  assumes "\<not> enable_full_walk env"
    and "update_record env ir line profiles changed = (cmds, None)"
  shows "\<exists>saved w i. cmds \<noteq> [] \<and> hd cmds = IUpsertInventory saved \<and>
    dict_get line ''walk_interval'' = Some w \<and> py_int w = Inr i \<and>
    (\<forall>k. rec_field saved k = (if k = ''walk_interval'' then PInt i else rec_field ir k))"
proof -
  from assms(2) obtain ps wp saved where s: "return_walk_profile False profiles ps = Inr wp"
    "update_walk_interval wp line ir = Inr saved" and c: "cmds \<noteq> []" "hd cmds = IUpsertInventory saved"
    using assms(1) by (auto simp: update_record_def res_splits split: sum.splits)
  obtain ch rest where "wp = PStr (ch # rest)" using return_walk_profile_some [OF s(1)] by blast
  then show ?thesis
    using s(2) c by (auto simp: update_walk_interval_def py_truthy_def res_splits dict_item_def rec_field_def
        dict_get_or_def split: option.splits)
qed

definition sample_env :: inv_env where
  \<comment> \<open>every upsert inserts and the scheduler is empty\<close>
  "sample_env = \<lparr>enable_full_walk = False, config_from_mongo = False, chain_expiry = 60,
     upsert_answers = (\<lambda>_ _. \<lparr>matched_count = 0, modified_count = 0, upserted_id = PInt 1\<rparr>),
     entries_of_key = (\<lambda>_ _. Inl KeyError), sent_cmds = [], name_resolves = (\<lambda>_ _. True)\<rparr>"

definition sample_line :: source_record where
  "sample_line = [(''profiles'', PStr []), (''walk_interval'', PInt 60)]"

definition sample_record :: inventory_record where
  "sample_record = [(''address'', PStr ''h''), (''port'', PInt 161), (''walk_interval'', PInt 1800)]"

lemma sample_update:
  "\<exists>cmds. update_record sample_env sample_record sample_line [] False = (cmds, None)"
proof -
  have sp: "str_split '';'' [] = [[]]" by code_simp
  have wp: "return_walk_profile False [] [[]] = Inr (PStr ''WalkProfile'')"
    by (simp add: return_walk_profile_def walk_condition_def py_str_def dict_get_or_def)
  have w: "update_walk_interval (PStr ''WalkProfile'') sample_line sample_record =
      Inr (dict_set ''walk_interval'' (PInt 60) sample_record)"
    by (simp add: update_walk_interval_def py_truthy_def sample_line_def dict_item_def dict_get_Cons py_int_def)
  have a: "py_str (rec_field (dict_set ''walk_interval'' v sample_record) ''address'') = Inr ''h''"
    "transform_address_to_key ''h'' (rec_field (dict_set ''walk_interval'' v sample_record) ''port'') = Inr ''h:161''" for v
    by (simp_all add: rec_field_def dict_get_or_def sample_record_def dict_get_Cons py_str_def
        transform_address_to_key_def py_truthy_def py_int_def)
  have m: "\<exists>c. manage_task (\<lambda>_. Inl KeyError) td = Inr c" for td
    by (simp add: manage_task_def Let_def)
  have go: "needs_walk_task sample_env False ir = Inr True" for ir
    by (simp add: needs_walk_task_def upsert_answer_def sample_env_def)
  obtain c where "res_bind (gen_walk_task (chain_expiry sample_env) (dict_set ''walk_interval'' (PInt 60) sample_record)
        (PStr ''WalkProfile'') (dict_get_or sample_line ''group'' PNone)) (manage_task (entry_of_key sample_env)) = Inr c"
    using m by (auto simp: gen_walk_task_def a sample_env_def entry_of_key_def)
  moreover have "dict_item sample_line ''profiles'' = Inr (PStr [])" "\<not> enable_full_walk sample_env"
    by (simp_all add: sample_line_def sample_env_def dict_item_def dict_get_Cons)
  ultimately show ?thesis
    by (simp add: update_record_def sp wp w go)
qed

theorem update_overrides_walk_interval_witness:
  "\<exists>cmds saved. update_record sample_env sample_record sample_line [] False = (cmds, None) \<and>
     hd cmds = IUpsertInventory saved \<and> rec_field saved ''walk_interval'' = PInt 60"
proof -
  obtain cmds where c: "update_record sample_env sample_record sample_line [] False = (cmds, None)"
    using sample_update by blast
  have e: "\<not> enable_full_walk sample_env" by (simp add: sample_env_def)
  show ?thesis
    using update_overrides_walk_interval [OF e c] c
    by (auto simp: sample_line_def dict_get_Cons py_int_def)
qed

text \<open>
  C16.  After a record is saved, the walk task of its host is saved too, for the walk interval of
  the record, with the expiry and the profile that apply, unless the database reported no change,
  the expiry time is the same and the scheduler still has the walk task of the host; a task that the
  scheduler had keeps its name, its task and its options, a new one is complete and is rescheduled.
\<close>

theorem update_keeps_walk_task:
  assumes "update_record env ir line profiles changed = (cmds, None)"
  shows "\<exists>saved rest. cmds = IUpsertInventory saved # rest \<and>
    (if upsert_unchanged (upsert_answer env saved) \<and> \<not> changed \<and>
        (\<exists>target old. record_key saved = Inr target \<and> entry_of_key env (''redbeat:sc4snmp;'' @ target @ '';walk'') = Inr old)
     then rest = []
     else \<exists>target profile e. record_key saved = Inr target \<and>
       chosen_walk_profile (enable_full_walk env) profiles line profile \<and>
       walk_entry env target (rec_field saved ''walk_interval'') profile (dict_get_or line ''group'' PNone)
         (entry_of_key env (''redbeat:sc4snmp;'' @ target @ '';walk'')) e \<and>
       rest = ITask (TcSave e) #
         (case entry_of_key env (''redbeat:sc4snmp;'' @ target @ '';walk'') of
            Inr _ \<Rightarrow> [] | Inl _ \<Rightarrow> [ITask (TcReschedule (''sc4snmp;'' @ target @ '';walk''))]))"
proof -
  from assms obtain ps wp saved go cs where p: "dict_get line ''profiles'' = Some (PStr ps)"
    and wp: "return_walk_profile (enable_full_walk env) profiles (str_split '';'' ps) = Inr wp"
    and go: "needs_walk_task env changed saved = Inr go"
    and r: "(if \<not> go then Inr [] else res_bind (gen_walk_task (chain_expiry env) saved wp
          (dict_get_or line ''group'' PNone)) (manage_task (entry_of_key env))) = Inr cs"
    and cmds: "cmds = IUpsertInventory saved # map ITask cs"
    by (auto simp: update_record_def res_splits dict_item_def split: sum.splits option.splits pyval.splits)
  have ex: "walk_task_exists (entry_of_key env) target = Inr True \<longleftrightarrow>
      (\<exists>old. entry_of_key env (''redbeat:sc4snmp;'' @ target @ '';walk'') = Inr old)" for target
    by (auto simp: walk_task_exists_def walk_name_def split: sum.splits pyexn.splits)
  let ?kept = "upsert_unchanged (upsert_answer env saved) \<and> \<not> changed \<and>
        (\<exists>target old. record_key saved = Inr target \<and> entry_of_key env (''redbeat:sc4snmp;'' @ target @ '';walk'') = Inr old)"
  have kept: "?kept \<longleftrightarrow> \<not> go"
    using go unfolding needs_walk_task_iff ex_simps ex [symmetric] by (auto split: if_splits)
  show ?thesis
  proof (cases go)
    case False
    then show ?thesis using r cmds kept by (intro exI [of _ saved] exI [of _ "[]"]) simp
  next
    case True
    then obtain target where t: "record_key saved = Inr target"
      and m: "manage_task (entry_of_key env) (walk_task_definition (chain_expiry env) target
          (rec_field saved ''walk_interval'') (dict_get_or line ''group'' PNone) wp) = Inr cs"
      using r by (auto simp: gen_walk_task_def record_key_def res_splits)
    obtain e where e: "walk_entry env target (rec_field saved ''walk_interval'') wp (dict_get_or line ''group'' PNone)
         (entry_of_key env (''redbeat:sc4snmp;'' @ target @ '';walk'')) e"
      "cs = TcSave e # (case entry_of_key env (''redbeat:sc4snmp;'' @ target @ '';walk'') of
                         Inr _ \<Rightarrow> [] | Inl _ \<Rightarrow> [TcReschedule (''sc4snmp;'' @ target @ '';walk'')])"
      using walk_task_managed [OF m] by blast
    have "map ITask cs = ITask (TcSave e) # (case entry_of_key env (''redbeat:sc4snmp;'' @ target @ '';walk'') of
            Inr _ \<Rightarrow> [] | Inl _ \<Rightarrow> [ITask (TcReschedule (''sc4snmp;'' @ target @ '';walk''))])"
      unfolding e(2) by (simp split: sum.split)
    then show ?thesis
      using cmds kept True t return_walk_profile_chosen [OF wp p] e(1)
      by (intro exI [of _ saved] exI [of _ "map ITask cs"]) auto
  qed
qed

theorem update_keeps_walk_task_witness:
  "\<exists>cmds target e. update_record sample_env sample_record sample_line [] False = (cmds, None) \<and>
     ITask (TcSave e) \<in> set cmds \<and> dict_get e ''target'' = Some (PStr target) \<and>
     expires_of e = PInt 60"
proof -
  obtain cmds where c: "update_record sample_env sample_record sample_line [] False = (cmds, None)"
    using sample_update by blast
  have e: "\<not> upsert_unchanged (upsert_answer sample_env s)" "entry_of_key sample_env k = Inl KeyError"
    "chain_expiry sample_env = 60" for s k
    by (simp_all add: sample_env_def upsert_answer_def upsert_unchanged_def entry_of_key_def)
  show ?thesis using update_keeps_walk_task [OF c] c e by (auto simp: walk_entry_def)
qed

section \<open>One bad line\<close>

lemma validate_bad: "validate_fields fs given vals True \<noteq> Inr r"
  by (induction fs arbitrary: vals) (auto split: option.splits sum.splits)

lemma validate_field_fails:
  assumes "f \<in> set fs" "dict_get given (fs_name f) = Some v" "\<And>seen. \<exists>e. fs_check f seen v = Inl e"
  shows "\<exists>e. validate_fields fs given vals bad = Inl e"
proof -
  have "validate_fields fs given vals bad \<noteq> Inr r" for r
    using assms(1)
  proof (induction fs arbitrary: vals bad)
    case (Cons g fs)
    show ?case
    proof (cases "f = g")
      case True
      obtain e where "fs_check g vals v = Inl e" using assms(3) True by blast
      then show ?thesis using assms(2) True validate_bad by auto
    next
      case False
      then show ?thesis using Cons by (auto split: option.splits sum.splits)
    qed
  qed simp
  then show ?thesis by (cases "validate_fields fs given vals bad") auto
qed

lemma bad_port_record:
  assumes "dict_get line ''port'' = Some (PStr s)" "str_strip s \<noteq> []" "parse_int s = Inl e"
  shows "\<exists>e. InventoryRecord resolves line = Inl e"
proof -
  have keep: "dict_get (rename_fields line) ''port'' = Some (PStr s)"
    using assms(1) by (simp add: rename_fields_def ALTERNATIVE_FIELDS_def split: option.splits)
  have "port_validator (PStr s) = Inl e"
    using assms by (simp add: port_validator_def blank_def py_int_def)
  then show ?thesis
    unfolding InventoryRecord_def using keep
    by (intro validate_field_fails [where f = "inventory_fields resolves ! 0" and v = "PStr s"])
       (simp_all add: inventory_fields_def Let_def)
qed

definition line_cmds :: "inv_env \<Rightarrow> doc \<Rightarrow> bool \<Rightarrow> source_record \<Rightarrow> inv_cmd list" where
  "line_cmds env profiles changed line =
     (case manage_line env profiles changed line of
        (cmds, None) \<Rightarrow> cmds | (cmds, Some _) \<Rightarrow> cmds @ fst (manage_failure env line))"

definition line_failed :: "inv_env \<Rightarrow> doc \<Rightarrow> bool \<Rightarrow> source_record \<Rightarrow> bool" where
  "line_failed env profiles changed line = (snd (manage_line env profiles changed line) \<noteq> None)"

definition line_handled :: "inv_env \<Rightarrow> doc \<Rightarrow> bool \<Rightarrow> source_record \<Rightarrow> bool" where
  \<comment> \<open>if the line fails, whatever was sent before it, the failure can be reported\<close>
  "line_handled env profiles changed line \<longleftrightarrow>
     (\<forall>h. line_failed (after_cmds env h) profiles changed line \<longrightarrow> snd (manage_failure env line) = None)"

fun lines_cmds :: "inv_env \<Rightarrow> doc \<Rightarrow> bool \<Rightarrow> source_record list \<Rightarrow> inv_cmd list" where
  \<comment> \<open>the commands of every line in order, each line with the answers after those before it\<close>
  "lines_cmds env profiles changed [] = []"
| "lines_cmds env profiles changed (l # ls) =
     line_cmds env profiles changed l @
     lines_cmds (after_cmds env (line_cmds env profiles changed l)) profiles changed ls"

fun lines_failed :: "inv_env \<Rightarrow> doc \<Rightarrow> bool \<Rightarrow> source_record list \<Rightarrow> bool" where
  \<comment> \<open>one of the lines failed\<close>
  "lines_failed env profiles changed [] = False"
| "lines_failed env profiles changed (l # ls) =
     (line_failed env profiles changed l \<or>
      lines_failed (after_cmds env (line_cmds env profiles changed l)) profiles changed ls)"

lemma lines_cmds_append:
  "lines_cmds env profiles changed (xs @ ys) =
    lines_cmds env profiles changed xs @ lines_cmds (after_cmds env (lines_cmds env profiles changed xs)) profiles changed ys"
  by (induction xs arbitrary: env) simp_all

lemma manage_failure_after [simp]: "manage_failure (after_cmds env cmds) line = manage_failure env line"
  by (simp add: manage_failure_def)

lemma line_handled_after: "line_handled env profiles changed l \<Longrightarrow> line_handled (after_cmds env cmds) profiles changed l"
  by (auto simp: line_handled_def)

lemma manage_lines_handled:
  assumes "\<forall>l \<in> set pre. line_handled env profiles changed l"
  shows "manage_lines env profiles changed (pre @ rest) errors =
    (case manage_lines (after_cmds env (lines_cmds env profiles changed pre)) profiles changed rest
            (errors \<or> lines_failed env profiles changed pre) of
       (c, r) \<Rightarrow> (lines_cmds env profiles changed pre @ c, r))"
  using assms
proof (induction pre arbitrary: env errors)
  case (Cons l pre)
  have h: "line_failed env profiles changed l \<Longrightarrow> snd (manage_failure env l) = None"
    using Cons.prems after_cmds_simps(9) [of env] unfolding line_handled_def by (metis list.set_intros(1))
  have "\<forall>l \<in> set pre. line_handled (after_cmds env cmds) profiles changed l" for cmds
    using Cons.prems line_handled_after by auto
  note IH = Cons.IH [OF this]
  show ?case
    using h by (auto simp: IH line_failed_def line_cmds_def split: prod.splits option.splits)
qed simp

text \<open>
  A line that fails does not keep the others from being handled, as long as the report of
  the failure can be written: then the commands are those of every line in order, and an error
  is reported exactly when a line failed.
\<close>

theorem manage_lines_isolated:
  assumes "\<forall>l \<in> set lines. line_handled env profiles changed l"
  shows "manage_lines env profiles changed lines False =
    (lines_cmds env profiles changed lines, Inr (lines_failed env profiles changed lines))"
  using manage_lines_handled [OF assms, of "[]" False] by simp

definition failing_line :: source_record where
  "failing_line = [(''address'', PStr ''#''), (''port'', PNone)]"

theorem manage_lines_isolated_witness:
  "manage_lines sample_env [] False [failing_line, failing_line] False = ([], Inr True)"
proof -
  have "\<exists>e. InventoryRecord resolves failing_line = Inl e" for resolves
    unfolding InventoryRecord_def
    by (intro validate_field_fails [where f = "inventory_fields resolves ! 1" and v = "PStr ''#''"])
       (simp_all add: inventory_fields_def Let_def rename_fields_def ALTERNATIVE_FIELDS_def failing_line_def
         dict_get_Cons address_validator_def str_startswith_def)
  then obtain e where "InventoryRecord (name_resolves sample_env) failing_line = Inl e" by blast
  then have "manage_line sample_env [] False failing_line = ([], Some e)" by (simp add: manage_line_def)
  moreover have "manage_failure sample_env failing_line = ([], None)"
    by (simp add: manage_failure_def sample_env_def failing_line_def dict_item_def dict_get_Cons py_str_def
        transform_address_to_key_def py_truthy_def)
  ultimately have "line_handled sample_env [] False failing_line"
    "line_failed sample_env [] False failing_line" "line_cmds sample_env [] False failing_line = []"
    by (simp_all add: line_handled_def line_failed_def line_cmds_def)
  then show ?thesis
    using manage_lines_isolated [of "[failing_line, failing_line]" sample_env "[]" False] by simp
qed

text \<open>
  C24.  A line whose port is not a number stops the loading: the report of its failure parses the
  port again, outside of any handler, so no later line is looked at.
\<close>

theorem bad_port_stops_loading:
  assumes "\<forall>l \<in> set pre. line_handled env profiles changed l" "\<not> config_from_mongo env"
    and "dict_get line ''address'' = Some (PStr a)"
    and "dict_get line ''port'' = Some (PStr s)" "str_strip s \<noteq> []" "parse_int s = Inl e"
  shows "manage_lines env profiles changed (pre @ line # post) False =
    (lines_cmds env profiles changed pre, Inl e)"
proof -
  obtain e' where "InventoryRecord (name_resolves env) line = Inl e'"
    using bad_port_record [OF assms(4-6)] by blast
  then have l: "manage_line (after_cmds env cmds) profiles changed line = ([], Some e')" for cmds
    by (simp add: manage_line_def)
  have "s \<noteq> []" using assms(5) by (auto simp: str_strip_def str_lstrip_def str_rstrip_def)
  then have "manage_failure env line = ([], Some e)"
    using assms by (simp add: manage_failure_def dict_item_def py_str_def transform_address_to_key_def
        py_truthy_def py_int_def)
  with l show ?thesis using manage_lines_handled [OF assms(1)] by simp
qed

definition bad_line :: source_record where
  "bad_line = [(''address'', PStr ''h''), (''port'', PStr ''x'')]"

theorem bad_port_stops_loading_witness:
  "manage_lines sample_env [] False [bad_line, failing_line] False = ([], Inl ValueError)"
proof -
  have p: "str_strip ''x'' \<noteq> []" "parse_int ''x'' = Inl ValueError" by code_simp+
  show ?thesis
    using bad_port_stops_loading [of "[]" sample_env "[]" False bad_line "''h''" "''x''" ValueError "[failing_line]", OF _ _ _ _ p]
    by (simp add: sample_env_def bad_line_def dict_get_Cons)
qed

end
