(* ===== verification/Poller.thy ===== *)
theory Poller
  imports SnmpData MibIndex Inventory
begin

text \<open>
  The worker task that polls a device: the class \<open>Poller\<close> of
  \<^verbatim>\<open>splunk_connect_for_snmp/snmp/manager.py\<close> (its start, the choice of what to poll, the GET and
  bulk requests and the loading of MIBs) and the tasks \<open>walk\<close> and \<open>poll\<close> of
  \<^verbatim>\<open>snmp/tasks.py\<close>.

  What pysnmp and the device do is the record \<open>snmp_env\<close>: which MIB modules load, how an object
  is read once some modules are loaded, the answers to GET requests and the agent of the bulk
  walk.  The walk itself is that of theory \<open>BulkWalk\<close>, run with the fuel given.
\<close>

section \<open>The state of a worker\<close>

record poller =
  last_modified :: rat
  profiles_coll :: profile_collection
  already_loaded_mibs :: "string list"
  already_attempted_mibs :: "string list"
  loaded_modules :: "string list"        \<comment> \<open>what the MIB builder has loaded, in order\<close>
  poller_mib_map :: mib_map

definition DEFAULT_STANDARD_MIBS :: "string list" where
  "DEFAULT_STANDARD_MIBS =
     [''HOST-RESOURCES-MIB'', ''IF-MIB'', ''IP-MIB'', ''SNMPv2-MIB'', ''TCP-MIB'', ''UDP-MIB'']"

definition PYSNMP_PROTOCOL_MIBS :: "string list" where
  "PYSNMP_PROTOCOL_MIBS =
     [''SNMPv2-MIB'', ''SNMP-MPD-MIB'', ''SNMP-COMMUNITY-MIB'', ''SNMP-TARGET-MIB'', ''SNMP-USER-BASED-SM-MIB'']"

definition new_poller ::
  "(string \<Rightarrow> bool) \<Rightarrow> decoder \<Rightarrow> http_session \<Rightarrow> bool \<Rightarrow> rat \<Rightarrow> doc \<Rightarrow> poller result" where
  \<comment> \<open>the arguments: the modules that load, the HTTP session, whether it caches, the clock and the
      profiles collection\<close>
  "new_poller loads decode session cached now profiles =
     (case process_profiles profiles [] of
        (_, Some e) \<Rightarrow> Inl e
      | (ps, None) \<Rightarrow>
          if \<not> list_all loads (PYSNMP_PROTOCOL_MIBS @ DEFAULT_STANDARD_MIBS) then Inl SmiError
          else res_bind (refresh_mib_map decode session cached []) (\<lambda>(ok, mib_map).
            if \<not> ok then Inl RuntimeError
            else Inr \<lparr>last_modified = now, profiles_coll = \<lparr>pc_raw = profiles, pc_profiles = ps\<rparr>,
                      already_loaded_mibs = [], already_attempted_mibs = [],
                      loaded_modules = PYSNMP_PROTOCOL_MIBS @ DEFAULT_STANDARD_MIBS,
                      poller_mib_map = mib_map\<rparr>))"

section \<open>Loading modules\<close>

definition load_mibs :: "(string \<Rightarrow> bool) \<Rightarrow> string list \<Rightarrow> poller \<Rightarrow> string list \<times> poller" where
  \<comment> \<open>the modules that loaded\<close>
  "load_mibs loads mibs p =
     (let loaded = filter (\<lambda>m. m \<noteq> [] \<and> loads m) mibs in
      (loaded, p\<lparr>loaded_modules := loaded_modules p @ loaded\<rparr>))"

definition note_loaded :: "string list \<times> poller \<Rightarrow> poller" where
  \<comment> \<open>\<open>self.already_loaded_mibs.update(loaded)\<close>\<close>
  "note_loaded lp = (snd lp)\<lparr>already_loaded_mibs := remdups (already_loaded_mibs (snd lp) @ fst lp)\<rparr>"

section \<open>What to poll\<close>

definition name_mapping :: "(vbelem, string) dict \<Rightarrow> mapping" where
  \<comment> \<open>the mappings of the resolver are keyed by names; an integer cannot name an object\<close>
  "name_mapping m = concat (map (\<lambda>(k, v). case k of VStr s \<Rightarrow> [(s, v)] | VInt _ \<Rightarrow> []) m)"

record poll_plan =
  plan_get :: "varbind list"
  plan_get_mapping :: mapping
  plan_bulk :: "varbind list"
  plan_bulk_mapping :: mapping

definition empty_plan :: poll_plan where
  "empty_plan = \<lparr>plan_get = [], plan_get_mapping = [], plan_bulk = [], plan_bulk_mapping = []\<rparr>"

definition get_varbinds ::
  "(string \<Rightarrow> bool) \<Rightarrow> bool \<Rightarrow> string list \<Rightarrow> poller \<Rightarrow> poll_plan result \<times> poller" where
  "get_varbinds loads is_walk profiles p =
     (if is_walk \<and> profiles = [] then (Inr (empty_plan\<lparr>plan_bulk := [[VStr ''1.3.6'']]\<rparr>), p)
      else (case get_polling_info (profiles_coll p) profiles is_walk of
              Inl e \<Rightarrow> (Inl e, p)
            | Inr None \<Rightarrow> (Inr empty_plan, p)
            | Inr (Some joined) \<Rightarrow>
                (let families = remdups (map vb_str
                       (container_mib_families (pr_bulk joined) @ container_mib_families (pr_get joined)));
                     to_load = filter (\<lambda>m. m \<notin> set (already_loaded_mibs p)) families;
                     p1 = (if to_load \<noteq> [] then note_loaded (load_mibs loads to_load p) else p)
                 in case return_mapping_and_varbinds joined of
                      (gets, gm, bulk, bm) \<Rightarrow>
                        (Inr \<lparr>plan_get = gets, plan_get_mapping = name_mapping gm,
                              plan_bulk = bulk, plan_bulk_mapping = name_mapping bm\<rparr>, p1))))"

definition get_varbind_chunk :: "'a list \<Rightarrow> int \<Rightarrow> 'a list list result" where
  "get_varbind_chunk lst n = py_slices lst n"

section \<open>The requests\<close>

text \<open>The outcome of a computation that waits for the network: also running out of fuel.\<close>

datatype 'a run = Done 'a | Raised pyexn | OutOfFuel

fun run_bind :: "'a run \<Rightarrow> ('a \<Rightarrow> 'b run) \<Rightarrow> 'b run" where
  "run_bind (Done x) f = f x"
| "run_bind (Raised e) f = Raised e"
| "run_bind OutOfFuel f = OutOfFuel"

definition lift_res :: "'a result \<Rightarrow> 'a run" where
  "lift_res r = (case r of Inl e \<Rightarrow> Raised e | Inr x \<Rightarrow> Done x)"

record get_answer =
  ga_ind :: "errind option"
  ga_status :: int
  ga_index :: int
  ga_table :: "snmp_vb list"

record ('o, 'v) snmp_env =
  se_ignore_empty :: bool                   \<comment> \<open>\<open>IGNORE_EMPTY_VARBINDS\<close>\<close>
  se_ignore_hosts :: "string list"          \<comment> \<open>\<open>IGNORE_NOT_INCREASING_OIDS\<close>\<close>
  se_max_oid :: int                         \<comment> \<open>\<open>MAX_OID_TO_PROCESS\<close>\<close>
  se_max_repetitions :: int
  se_reload_delay :: rat                    \<comment> \<open>\<open>PROFILES_RELOAD_DELAY\<close>\<close>
  se_now :: rat                             \<comment> \<open>the clock\<close>
  se_profiles :: doc                        \<comment> \<open>what the profiles collection holds\<close>
  se_loads :: "string \<Rightarrow> bool"
  se_auth :: "unit result"                  \<comment> \<open>getting the credentials\<close>
  se_transport :: "unit result"
  se_get :: "varbind list \<Rightarrow> get_answer result"
  se_var :: "varbind \<Rightarrow> 'o"                 \<comment> \<open>the object of a varbind\<close>
  se_identity :: "'o \<Rightarrow> 'o"
  se_prefix :: "'o \<Rightarrow> 'o \<Rightarrow> bool"
  se_agent :: "varbind list \<Rightarrow> ('o, 'v) agent"
  se_view :: "string list \<Rightarrow> ('o, 'v) response_vb \<Rightarrow> snmp_vb"
                                            \<comment> \<open>an object as read once these modules are loaded\<close>
  se_fuel :: nat

fun run_gets ::
  "('o, 'v) snmp_env \<Rightarrow> mib_map \<Rightarrow> mapping \<Rightarrow> varbind list list \<Rightarrow> metrics \<Rightarrow> metrics run" where
  \<comment> \<open>a request that raises is skipped; an error that the device reports is not\<close>
  "run_gets env mib_map get_mapping [] metrics = Done metrics"
| "run_gets env mib_map get_mapping (chunk # rest) metrics =
     (case se_get env chunk of
        Inl _ \<Rightarrow> run_gets env mib_map get_mapping rest metrics
      | Inr a \<Rightarrow>
          (case any_failure_happened (se_ignore_empty env) (ga_ind a) (ga_status a) (ga_index a)
                  (length (ga_table a)) of
             Inl e \<Rightarrow> Raised e
           | Inr True \<Rightarrow> run_gets env mib_map get_mapping rest metrics
           | Inr False \<Rightarrow>
               (case process_snmp_data mib_map get_mapping (ga_table a) [] metrics of
                  (_, _, metrics') \<Rightarrow> run_gets env mib_map get_mapping rest metrics')))"

definition run_get_request ::
  "('o, 'v) snmp_env \<Rightarrow> poller \<Rightarrow> poll_plan \<Rightarrow> int \<Rightarrow> metrics \<Rightarrow> metrics run" where
  "run_get_request env p plan max_oid metrics =
     run_bind (lift_res (get_varbind_chunk (plan_get plan) max_oid)) (\<lambda>cs.
       run_gets env (poller_mib_map p) (plan_get_mapping plan) cs metrics)"

definition take_table ::
  "('o, 'v) snmp_env \<Rightarrow> mapping \<Rightarrow> ('o, 'v) response_vb list \<Rightarrow> poller \<Rightarrow> metrics \<Rightarrow> poller \<times> metrics" where
  \<comment> \<open>a table without an error: processed, and once more when that found modules to load\<close>
  "take_table env bulk_mapping table p metrics =
     (let view = \<lambda>p. map (se_view env (loaded_modules p)) table in
      case process_snmp_data (poller_mib_map p) bulk_mapping (view p) [] metrics of
        (_, tmp_mibs, metrics1) \<Rightarrow>
          if tmp_mibs = [] then (p, metrics1)
          else (let p1 = note_loaded (load_mibs (se_loads env) tmp_mibs p) in
                case process_snmp_data (poller_mib_map p1) bulk_mapping (view p1) [] metrics1 of
                  (_, _, metrics2) \<Rightarrow> (p1, metrics2)))"

fun take_tables ::
  "('o, 'v) snmp_env \<Rightarrow> mapping \<Rightarrow> ('o, 'v) reply list \<Rightarrow> poller \<Rightarrow> metrics \<Rightarrow> poller \<times> metrics result" where
  \<comment> \<open>the consumer of the walk\<close>
  "take_tables env bulk_mapping [] p metrics = (p, Inr metrics)"
| "take_tables env bulk_mapping (r # rs) p metrics =
     (case any_failure_happened (se_ignore_empty env) (rp_ind r) (rp_status r) (rp_index r)
             (length (rp_table r)) of
        Inl e \<Rightarrow> (p, Inl e)
      | Inr True \<Rightarrow> take_tables env bulk_mapping rs p metrics
      | Inr False \<Rightarrow>
          (case take_table env bulk_mapping (rp_table r) p metrics of
             (p', metrics') \<Rightarrow> take_tables env bulk_mapping rs p' metrics'))"

definition bulk_opts :: "('o, 'v) snmp_env \<Rightarrow> string \<Rightarrow> int \<Rightarrow> walk_opts" where
  "bulk_opts env host port =
     \<lparr>wo_lexicographic = False,
      wo_ignore = is_increasing_oids_ignored (se_ignore_hosts env) host port,
      wo_max_rows = 0, wo_max_calls = 0\<rparr>"

fun run_bulks ::
  "('o, 'v) snmp_env \<Rightarrow> walk_opts \<Rightarrow> mapping \<Rightarrow> varbind list list \<Rightarrow> poller \<Rightarrow> metrics \<Rightarrow> poller \<times> metrics run" where
  "run_bulks env opts bulk_mapping [] p metrics = (p, Done metrics)"
| "run_bulks env opts bulk_mapping (chunk # rest) p metrics =
     (case multi_bulk_walk_cmd (se_identity env) (se_prefix env) (se_agent env chunk) (\<lambda>_. []) opts 0
             (se_max_repetitions env) (map (se_var env) chunk) (se_fuel env) of
        (replies, stop) \<Rightarrow>
          (case take_tables env bulk_mapping replies p metrics of
             (p', Inl e) \<Rightarrow> (p', Raised e)
           | (p', Inr metrics') \<Rightarrow>
               (case stop of
                  WReturn \<Rightarrow> run_bulks env opts bulk_mapping rest p' metrics'
                | WRaise e \<Rightarrow> (p', Raised e)
                | WFuel \<Rightarrow> (p', OutOfFuel))))"

definition run_bulk_request ::
  "('o, 'v) snmp_env \<Rightarrow> string \<Rightarrow> int \<Rightarrow> poll_plan \<Rightarrow> int \<Rightarrow> poller \<Rightarrow> metrics \<Rightarrow> poller \<times> metrics run" where
  "run_bulk_request env host port plan max_oid p metrics =
     (case get_varbind_chunk (plan_bulk plan) max_oid of
        Inl e \<Rightarrow> (p, Raised e)
      | Inr cs \<Rightarrow> run_bulks env (bulk_opts env host port) (plan_bulk_mapping plan) cs p metrics)"

section \<open>One poll or walk\<close>

definition metric_doc :: "metric \<Rightarrow> pyval" where
  "metric_doc m =
     PDict [(''time'', PFloat (m_time m)), (''type'', PStr (m_type m)), (''value'', m_value m),
            (''oid'', PStr (m_oid m))]"

definition group_doc :: "metric_group \<Rightarrow> pyval" where
  \<comment> \<open>a group as it is handed on, its profiles joined\<close>
  "group_doc g =
     PDict ([(''metrics'', PDict (map (\<lambda>(k, m). (k, metric_doc m)) (g_metrics g))),
             (''fields'', PDict (map (\<lambda>(k, m). (k, metric_doc m)) (g_fields g))),
             (''indexes'', PList (g_indexes g))] @
            (case g_profiles g of None \<Rightarrow> [] | Some ps \<Rightarrow> [(''profiles'', PStr (str_join '','' ps))]))"

definition metrics_doc :: "metrics \<Rightarrow> doc" where
  "metrics_doc ms = map (\<lambda>(k, g). (k, group_doc g)) ms"

definition reload_profiles :: "('o, 'v) snmp_env \<Rightarrow> bool \<Rightarrow> poller \<Rightarrow> poller \<times> pyexn option" where
  "reload_profiles env is_walk p =
     (if se_reload_delay env < se_now env - last_modified p \<or> is_walk
      then (case collection_update (profiles_coll p) (se_profiles env) of
              (c, Some e) \<Rightarrow> (p\<lparr>profiles_coll := c\<rparr>, Some e)
            | (c, None) \<Rightarrow> (p\<lparr>profiles_coll := c, last_modified := se_now env\<rparr>, None))
      else (p, None))"

definition max_oid_of :: "('o, 'v) snmp_env \<Rightarrow> inventory_record \<Rightarrow> int" where
  "max_oid_of env ir =
     (case rec_field ir ''max_oid_to_process'' of
        PInt i \<Rightarrow> if i \<noteq> 0 then i else se_max_oid env
      | _ \<Rightarrow> se_max_oid env)"

definition run_requests ::
  "('o, 'v) snmp_env \<Rightarrow> string \<Rightarrow> int \<Rightarrow> poll_plan \<Rightarrow> int \<Rightarrow> poller \<Rightarrow> poller \<times> metrics run" where
  \<comment> \<open>the body of the engine's scope\<close>
  "run_requests env host port plan max_oid p =
     (case res_bind (se_auth env) (\<lambda>_. se_transport env) of
        Inl e \<Rightarrow> (p, Raised e)
      | Inr _ \<Rightarrow>
          (case (if plan_bulk plan \<noteq> [] then run_bulk_request env host port plan max_oid p []
                 else (p, Done [])) of
             (p1, r) \<Rightarrow>
               (p1, run_bind r (\<lambda>metrics.
                  if plan_get plan \<noteq> [] then run_get_request env p1 plan max_oid metrics else Done metrics))))"

definition do_work ::
  "('o, 'v) snmp_env \<Rightarrow> inventory_record \<Rightarrow> bool \<Rightarrow> string list \<Rightarrow> poller \<Rightarrow> poller \<times> (bool \<times> doc) run" where
  "do_work env ir is_walk profiles p =
     (case res_bind (py_str (rec_field ir ''address'')) (\<lambda>host.
             res_map (\<lambda>address. (host, address)) (transform_address_to_key host (rec_field ir ''port''))) of
        Inl e \<Rightarrow> (p, Raised e)
      | Inr (host, address) \<Rightarrow>
          (case reload_profiles env is_walk p of
             (p1, Some e) \<Rightarrow> (p1, Raised e)
           | (p1, None) \<Rightarrow>
               (case get_varbinds (se_loads env) is_walk profiles p1 of
                  (Inl e, p2) \<Rightarrow> (p2, Raised e)
                | (Inr plan, p2) \<Rightarrow>
                    if plan_get plan = [] \<and> plan_bulk plan = [] then (p2, Done (False, []))
                    else (case run_requests env host
                                 (case rec_field ir ''port'' of PInt i \<Rightarrow> i | _ \<Rightarrow> 0) plan (max_oid_of env ir) p2 of
                            (p3, r) \<Rightarrow> (p3, run_bind r (\<lambda>metrics. Done (False, metrics_doc metrics)))))))"

section \<open>The tasks\<close>

definition get_inventory :: "(string \<Rightarrow> pyval \<Rightarrow> bool) \<Rightarrow> (string \<Rightarrow> int \<Rightarrow> doc option) \<Rightarrow> string \<Rightarrow> inventory_record result" where
  \<comment> \<open>the second argument finds the document of an address and a port\<close>
  "get_inventory resolves find_one address =
     res_bind (return_address_and_port address) (\<lambda>(host, port).
       case find_one host port of
         None \<Rightarrow> Inl ValueError
       | Some ir_doc \<Rightarrow> InventoryRecord resolves (dict_del ''_id'' ir_doc))"

fun walk_loop ::
  "nat \<Rightarrow> ('o, 'v) snmp_env \<Rightarrow> inventory_record \<Rightarrow> string list \<Rightarrow> poller \<Rightarrow> poller \<times> doc run" where
  \<comment> \<open>\<open>while retry\<close>, at most so many times\<close>
  "walk_loop 0 env ir profiles p = (p, OutOfFuel)"
| "walk_loop (Suc n) env ir profiles p =
     (case do_work env ir True profiles p of
        (p', Done (retry, r)) \<Rightarrow> if retry then walk_loop n env ir profiles p' else (p', Done r)
      | (p', Raised e) \<Rightarrow> (p', Raised e)
      | (p', OutOfFuel) \<Rightarrow> (p', OutOfFuel))"

record task_kwargs =
  tk_address :: string
  tk_profile :: "string option"         \<comment> \<open>of a walk\<close>
  tk_profiles :: "string list"          \<comment> \<open>of a poll\<close>
  tk_frequency :: int
  tk_group :: pyval
  tk_expiry :: pyval

definition walk_async_wrapper ::
  "nat \<Rightarrow> ('o, 'v) snmp_env \<Rightarrow> (string \<Rightarrow> pyval \<Rightarrow> bool) \<Rightarrow> (string \<Rightarrow> int \<Rightarrow> doc option) \<Rightarrow> pyfloat
     \<Rightarrow> task_kwargs \<Rightarrow> poller \<Rightarrow> poller \<times> doc run" where
  "walk_async_wrapper n env resolves find_one now kw p =
     (case get_inventory resolves find_one (tk_address kw) of
        Inl e \<Rightarrow> (p, Raised e)
      | Inr ir \<Rightarrow>
          (case walk_loop n env ir (case tk_profile kw of Some s \<Rightarrow> if s \<noteq> [] then [s] else [] | None \<Rightarrow> []) p of
             (p', r) \<Rightarrow> (p', run_bind r (\<lambda>res. Done
                ([(''time'', PFloat now), (''address'', PStr (tk_address kw)), (''result'', PDict res),
                  (''chain_of_tasks_expiry_time'', tk_expiry kw)] @
                 (if py_truthy (tk_group kw) then [(''group'', tk_group kw)] else []))))))"

definition poll_async_wrapper ::
  "('o, 'v) snmp_env \<Rightarrow> (string \<Rightarrow> pyval \<Rightarrow> bool) \<Rightarrow> (string \<Rightarrow> int \<Rightarrow> doc option) \<Rightarrow> pyfloat
     \<Rightarrow> task_kwargs \<Rightarrow> poller \<Rightarrow> poller \<times> doc run" where
  "poll_async_wrapper env resolves find_one now kw p =
     (case get_inventory resolves find_one (tk_address kw) of
        Inl e \<Rightarrow> (p, Raised e)
      | Inr ir \<Rightarrow>
          (case do_work env ir False (tk_profiles kw) p of
             (p', r) \<Rightarrow> (p', run_bind r (\<lambda>(_, res). Done
                ([(''time'', PFloat now), (''address'', PStr (tk_address kw)), (''result'', PDict res),
                  (''detectchange'', PBool False), (''frequency'', PInt (tk_frequency kw))] @
                 (if py_truthy (tk_group kw) then [(''group'', tk_group kw)] else []))))))"

section \<open>Chunks\<close>

text \<open>
  With a positive limit of OIDs, the varbinds are requested in consecutive portions that
  together are exactly the varbinds in order, each of them not empty and within the limit.
\<close>

theorem get_varbind_chunk_covers:
  assumes "0 < n"
  shows "\<exists>cs. get_varbind_chunk lst n = Inr cs \<and> concat cs = lst \<and>
    (\<forall>c \<in> set cs. c \<noteq> [] \<and> int (length c) \<le> n)"
  using assms py_slices_pos [of n lst] by (simp add: get_varbind_chunk_def)

theorem get_varbind_chunk_covers_witness:
  "\<exists>cs. get_varbind_chunk [1, 2, 3 :: nat] 2 = Inr cs \<and> concat cs = [1, 2, 3]"
  using get_varbind_chunk_covers [of 2 "[1, 2, 3 :: nat]"] by auto

section \<open>The walk is not repeated\<close>

lemma do_work_no_retry: "do_work env ir is_walk profiles p = (p', Done (retry, r)) \<Longrightarrow> \<not> retry"
proof -
  have "run_bind m (\<lambda>x. Done (False, f x)) = Done (retry, r) \<Longrightarrow> \<not> retry" for m and f :: "metrics \<Rightarrow> doc"
    by (cases m) auto
  then show "do_work env ir is_walk profiles p = (p', Done (retry, r)) \<Longrightarrow> \<not> retry"
    by (auto simp: do_work_def split: sum.splits prod.splits option.splits if_splits)
qed

text \<open>
  The loop of a walk ends after one round, whatever the device answers: its outcome is the
  outcome of one call of do_work, which never asks for a retry.
\<close>

theorem walk_loop_once:
  "walk_loop (Suc n) env ir profiles p =
     (case do_work env ir True profiles p of (p', r) \<Rightarrow> (p', run_bind r (\<lambda>x. Done (snd x))))"
proof -
  obtain p' r where w: "do_work env ir True profiles p = (p', r)" by fastforce
  then show ?thesis
    using do_work_no_retry [of env ir True profiles p p'] by (cases r) auto
qed

section \<open>The GET requests\<close>

definition reported_error :: "('o, 'v) snmp_env \<Rightarrow> varbind list \<Rightarrow> pyexn option" where
  "reported_error env chunk =
     (case se_get env chunk of
        Inl _ \<Rightarrow> None
      | Inr a \<Rightarrow> (case any_failure_happened (se_ignore_empty env) (ga_ind a) (ga_status a) (ga_index a)
                        (length (ga_table a)) of Inl e \<Rightarrow> Some e | Inr _ \<Rightarrow> None))"

definition answered_tables :: "('o, 'v) snmp_env \<Rightarrow> varbind list list \<Rightarrow> snmp_vb list list" where
  "answered_tables env cs =
     concat (map (\<lambda>c. case se_get env c of Inl _ \<Rightarrow> [] | Inr a \<Rightarrow> [ga_table a]) cs)"

lemma any_failure_False: "any_failure_happened ig ind st ix n \<noteq> Inr True"
  by (simp add: any_failure_happened_def split: option.splits)

text \<open>
  C30.  The GET requests of a poll give the metrics of all answered portions in order, where a
  portion whose request failed in the client contributes nothing, unless the device reports an
  error for some portion: then the whole poll ends with the first such error.
\<close>

theorem run_gets_outcome:
  "run_gets env mib_map get_mapping cs metrics =
     (case find (\<lambda>c. reported_error env c \<noteq> None) cs of
        Some c \<Rightarrow> Raised (the (reported_error env c))
      | None \<Rightarrow> Done (fold (\<lambda>t ms. snd (snd (process_snmp_data mib_map get_mapping t [] ms)))
                        (answered_tables env cs) metrics))"
proof (induction cs arbitrary: metrics)
  case (Cons c cs)
  show ?case
  proof (cases "se_get env c")
    case (Inl e)
    then have "reported_error env c = None" "answered_tables env (c # cs) = answered_tables env cs"
      by (simp_all add: reported_error_def answered_tables_def)
    then show ?thesis using Cons Inl by (simp split: option.split)
  next
    case (Inr a)
    show ?thesis
    proof (cases "any_failure_happened (se_ignore_empty env) (ga_ind a) (ga_status a) (ga_index a)
        (length (ga_table a))")
      case (Inr b)
      then have "\<not> b" using any_failure_False by (metis (full_types))
      moreover have "reported_error env c = None"
        "answered_tables env (c # cs) = ga_table a # answered_tables env cs"
        using Inr \<open>se_get env c = Inr a\<close> by (simp_all add: reported_error_def answered_tables_def)
      ultimately show ?thesis using Inr \<open>se_get env c = Inr a\<close> Cons by (simp split: prod.splits option.split)
    next
      case (Inl e)
      then have "reported_error env c = Some e" using Inr by (simp add: reported_error_def)
      then show ?thesis using Inl Inr by simp
    qed
  qed
qed (simp add: answered_tables_def)

section \<open>A module that does not load\<close>

text \<open>
  When a table of a bulk walk has an unresolved varbind whose module is known but does not
  load, every varbind of the table after it is lost: the groups are those there were and those
  of the resolved varbinds before it.
\<close>

theorem unloadable_module_hides_rest:
  assumes "\<forall>m. \<not> se_loads env m"
    and "map (se_view env (loaded_modules p)) table = pre @ vb # post"
    and "\<forall>v \<in> set pre. is_mib_resolved (sv_id v)"
    and "\<not> is_mib_resolved (sv_id vb)" "fst (is_mib_known (poller_mib_map p) (sv_oid vb))"
    and "take_table env bulk_mapping table p metrics = (p', metrics')"
  shows "dict_has metrics' k = (dict_has metrics k \<or> k \<in> vb_group ` set pre)"
proof -
  have handled: "takeWhile (\<lambda>vb. is_mib_resolved (sv_id vb) \<or> \<not> fst (is_mib_known (poller_mib_map p) (sv_oid vb)))
      (pre @ vb # post) = pre"
    using assms(3-5) by (simp add: takeWhile_append2)
  have resolved: "filter (\<lambda>v. is_mib_resolved (sv_id v)) pre = pre" using assms(3) by (simp add: filter_id_conv)
  have groups: "dict_has ms' k = (dict_has ms k \<or> k \<in> vb_group ` set pre)"
    if "process_snmp_data (poller_mib_map p) bulk_mapping (pre @ vb # post) rm ms = (r, mibs, ms')"
    for ms rm r mibs ms'
    using that fold_resolved_lookup(1) [of bulk_mapping pre ms k]
    unfolding process_snmp_data_fold Let_def handled resolved by auto
  obtain r mibs ms1 where one: "process_snmp_data (poller_mib_map p) bulk_mapping (pre @ vb # post) [] metrics = (r, mibs, ms1)"
    using prod_cases3 by blast
  obtain r2 mibs2 ms2 where two: "process_snmp_data (poller_mib_map p) bulk_mapping (pre @ vb # post) [] ms1 = (r2, mibs2, ms2)"
    using prod_cases3 by blast
  have none: "load_mibs (se_loads env) ms p = ([], p)" for ms
    using assms(1) by (simp add: load_mibs_def)
  have "metrics' = ms1 \<or> metrics' = ms2"
    using assms(6) one two assms(2) unfolding take_table_def none note_loaded_def
    by (auto split: if_splits)
  then show ?thesis using groups [OF one] groups [OF two] by blast
qed

definition sample_vb :: snmp_vb where
  "sample_vb = \<lparr>sv_oid = ''1.3.6.1.4.1.9.1'', sv_id = ''SNMPv2-SMI::enterprises.9.1'', sv_mib = ''M'',
     sv_metric = ''m'', sv_index = [], sv_type = ''Integer32'', sv_float = None, sv_pretty = ''1'', sv_now = FFin 0\<rparr>"

definition sample_snmp_env :: "(nat, nat) snmp_env" where
  "sample_snmp_env = \<lparr>se_ignore_empty = False, se_ignore_hosts = [], se_max_oid = 70, se_max_repetitions = 10,
     se_reload_delay = 60, se_now = 0, se_profiles = [], se_loads = (\<lambda>_. False), se_auth = Inr (),
     se_transport = Inr (), se_get = (\<lambda>_. Inl OtherError), se_var = length, se_identity = id,
     se_prefix = (\<le>), se_agent = (\<lambda>_ _ _ _ _. Inl OtherError), se_view = (\<lambda>_ _. sample_vb), se_fuel = 10\<rparr>"

definition sample_poller :: poller where
  "sample_poller = \<lparr>last_modified = 0, profiles_coll = \<lparr>pc_raw = [], pc_profiles = []\<rparr>, already_loaded_mibs = [],
     already_attempted_mibs = [], loaded_modules = [], poller_mib_map = [(''1.3.6.1.4.1.9.1'', ''X'')]\<rparr>"

theorem unloadable_module_hides_rest_witness:
  "\<nexists>k. dict_has (snd (take_table sample_snmp_env [] [(1, VData 1), (2, VData 2)] sample_poller [])) k"
proof -
  obtain p' ms where t: "take_table sample_snmp_env [] [(1, VData 1), (2, VData 2)] sample_poller [] = (p', ms)"
    by fastforce
  have known: "\<not> is_mib_resolved (sv_id sample_vb)"
    "fst (is_mib_known (poller_mib_map sample_poller) (sv_oid sample_vb))"
    by code_simp+
  have "dict_has ms k = (dict_has ([] :: metrics) k \<or> k \<in> vb_group ` set [])" for k
    by (rule unloadable_module_hides_rest [OF _ _ _ known t, where pre = "[]" and post = "[sample_vb]"])
       (simp_all add: sample_snmp_env_def)
  then show ?thesis using t by (simp add: dict_has_def)
qed

section \<open>What a worker remembers\<close>

text \<open>The step from one state of a worker to a later one: its notes stay true, it forgets no
  module, and the MIB index changes only through a refresh.\<close>

definition notes_true :: "poller \<Rightarrow> bool" where
  "notes_true p \<longleftrightarrow> set (already_loaded_mibs p) \<subseteq> set (loaded_modules p)"

definition poller_grows :: "poller \<Rightarrow> poller \<Rightarrow> bool" where
  "poller_grows p q \<longleftrightarrow> (notes_true p \<longrightarrow> notes_true q) \<and>
     set (loaded_modules p) \<subseteq> set (loaded_modules q) \<and>
     set (already_loaded_mibs p) \<subseteq> set (already_loaded_mibs q) \<and> poller_mib_map q = poller_mib_map p"

named_theorems grows \<open>steps of a worker that only add to what it remembers\<close>

lemma poller_grows_refl [grows, simp]: "poller_grows p p"
  by (simp add: poller_grows_def)

lemma poller_grows_trans: "poller_grows p q \<Longrightarrow> poller_grows q r \<Longrightarrow> poller_grows p r"
  by (auto simp: poller_grows_def)

lemma note_loaded_grows [grows]: "poller_grows p (note_loaded (load_mibs loads ms p))"
  by (auto simp: poller_grows_def notes_true_def note_loaded_def load_mibs_def Let_def)

lemma reload_profiles_grows [grows]: "reload_profiles env w p = (p', e) \<Longrightarrow> poller_grows p p'"
  by (auto simp: reload_profiles_def poller_grows_def notes_true_def split: prod.splits option.splits if_splits)

lemma get_varbinds_grows [grows]: "get_varbinds loads w ps p = (r, p') \<Longrightarrow> poller_grows p p'"
  using note_loaded_grows
  by (auto simp: get_varbinds_def Let_def split: prod.splits option.splits sum.splits if_splits)

lemma take_table_grows [grows]: "take_table env m t p ms = (p', ms') \<Longrightarrow> poller_grows p p'"
  using note_loaded_grows by (auto simp: take_table_def Let_def split: prod.splits if_splits)

lemma take_tables_grows [grows]: "take_tables env m rs p ms = (p', r) \<Longrightarrow> poller_grows p p'"
proof (induction rs arbitrary: p ms)
  case (Cons x rs)
  then show ?case
    by (auto split: sum.splits bool.splits prod.splits dest!: take_table_grows intro: poller_grows_trans)
qed simp

lemma run_bulks_grows [grows]: "run_bulks env opts m cs p ms = (p', r) \<Longrightarrow> poller_grows p p'"
proof (induction cs arbitrary: p ms)
  case (Cons c cs)
  then show ?case
    by (auto split: sum.splits walk_end.splits prod.splits dest!: take_tables_grows intro: poller_grows_trans)
qed simp

lemma run_requests_grows [grows]: "run_requests env h pt plan mo p = (p', r) \<Longrightarrow> poller_grows p p'"
  by (auto simp: run_requests_def run_bulk_request_def split: sum.splits prod.splits if_splits
      dest!: run_bulks_grows)

interpretation grows: progress poller_grows
  by unfold_locales (auto intro: poller_grows_trans)

lemma do_work_grows: "poller_grows p (fst (do_work env ir is_walk profiles p))"
  by (auto simp: do_work_def split: sum.split prod.split option.split
      dest!: reload_profiles_grows get_varbinds_grows run_requests_grows intro: poller_grows_trans)

type_synonym ('o, 'v) poll = "('o, 'v) snmp_env \<times> inventory_record \<times> bool \<times> string list"

definition worker_history :: "('o, 'v) poll list \<Rightarrow> poller \<Rightarrow> poller" where
  \<comment> \<open>the worker after so many polls and walks, whatever their outcomes\<close>
  "worker_history = fold (\<lambda>(env, ir, is_walk, profiles) p. fst (do_work env ir is_walk profiles p))"

lemma worker_history_grows: "poller_grows p (worker_history polls p)"
  unfolding worker_history_def by (rule grows.rel_fold) (auto intro: do_work_grows)

text \<open>
  C29.  Whatever polls and walks a worker carries out, and whatever their outcomes, it keeps the
  MIB index it had and every module it had loaded, and every module it notes as loaded is one
  that the builder holds.
\<close>

theorem do_work_keeps_worker:
  assumes "notes_true p"
  shows "notes_true (worker_history polls p) \<and>
    set (loaded_modules p) \<subseteq> set (loaded_modules (worker_history polls p)) \<and>
    poller_mib_map (worker_history polls p) = poller_mib_map p"
  using worker_history_grows [of p polls] assms by (simp add: poller_grows_def)

theorem do_work_keeps_worker_witness:
  "notes_true (worker_history [(sample_snmp_env, [], True, []), (sample_snmp_env, [], False, [''p''])] sample_poller)"
proof -
  have "notes_true sample_poller" by (simp add: notes_true_def sample_poller_def)
  then show ?thesis by (rule do_work_keeps_worker [THEN conjunct1])
qed

end
