(* ===== verification/Sender.thy ===== *)
theory Sender
  imports SnmpData Inventory
begin

text \<open>
  Handing the results on to Splunk (\<^verbatim>\<open>splunk_connect_for_snmp/splunk/tasks.py\<close>): the events and
  metrics of a result, the translations of names, and the posts to the HTTP event collector.

  A result is a document.  The text that \<open>json.dumps\<close> writes is a parameter, \<open>dumps\<close>, and
  \<open>loads\<close> reads it back.  A post is its address and its lines; the answer is the status code
  or the exception of the request.
\<close>

section \<open>Configuration\<close>

definition hec_uri :: "string \<Rightarrow> string \<Rightarrow> string option \<Rightarrow> string \<Rightarrow> string" where
  \<comment> \<open>\<open>urlunsplit\<close> of a scheme and a host that are not empty; scheme, host, port and path\<close>
  "hec_uri scheme host port path =
     (let netloc = host @ (case port of Some p \<Rightarrow> if p \<noteq> [] then '':'' @ p else [] | None \<Rightarrow> []);
          path' = (if path \<noteq> [] \<and> hd path \<noteq> CHR ''/'' then CHR ''/'' # path else path)
      in scheme @ ''://'' @ netloc @ path')"

definition read_hec_token :: "string option \<Rightarrow> (string \<Rightarrow> bool) \<Rightarrow> (string \<Rightarrow> string result) \<Rightarrow> string option \<Rightarrow> string option result" where
  \<comment> \<open>the variable naming the file, whether a path is a file, its content, and the variable that
      holds the token itself\<close>
  "read_hec_token token_file isfile read env_token =
     (case token_file of
        Some f \<Rightarrow>
          if f \<noteq> [] \<and> isfile f
          then (case read f of
                  Inr text \<Rightarrow> if str_strip text \<noteq> [] then Inr (Some (str_strip text)) else Inr env_token
                | Inl e \<Rightarrow> if e \<in> {OSError, FileNotFoundError} then Inr env_token else Inl e)
          else Inr env_token
      | None \<Rightarrow> Inr env_token)"

definition hec_headers :: "string option \<Rightarrow> string \<Rightarrow> (string, string) dict" where
  "hec_headers token version =
     (case token of
        Some t \<Rightarrow>
          if t \<noteq> [] then [(''Authorization'', ''Splunk '' @ t), (''__splunk_app_name'', ''sc4snmp''),
                           (''__splunk_app_version'', version)]
          else []
      | None \<Rightarrow> [])"

datatype tls_verify = VerifyFlag bool | VerifyWith string

record hec_session =
  hs_verify :: tls_verify
  hs_headers :: "(string, string) dict"
  hs_cert :: "(string \<times> string) option"

definition new_hec_session ::
  "(string \<Rightarrow> bool) \<Rightarrow> bool \<Rightarrow> string option \<Rightarrow> string option \<Rightarrow> string option \<Rightarrow> (string, string) dict \<Rightarrow> hec_session" where
  \<comment> \<open>which paths exist, whether TLS is verified, the certificates of the authority and of the
      client and its key\<close>
  "new_hec_session path_exists tlsverify ca cert key headers =
     \<lparr>hs_verify = (case ca of Some f \<Rightarrow> if path_exists f \<and> tlsverify then VerifyWith f else VerifyFlag tlsverify
                   | None \<Rightarrow> VerifyFlag tlsverify),
      hs_headers = headers,
      hs_cert = (case (cert, key) of
                   (Some c, Some k) \<Rightarrow> if path_exists c \<and> path_exists k then Some (c, k) else None
                 | _ \<Rightarrow> None)\<rparr>"

section \<open>Sending\<close>

type_synonym post = "string \<times> string list"

fun post_batches :: "(post \<Rightarrow> int result) \<Rightarrow> string \<Rightarrow> string list list \<Rightarrow> post list \<times> pyexn option" where
  \<comment> \<open>the posts made, and the exception that ended them; asking for a retry raises \<open>Retry\<close>\<close>
  "post_batches answer url [] = ([], None)"
| "post_batches answer url (batch # rest) =
     (case answer (url, batch) of
        Inl ConnectionFailure \<Rightarrow> ([(url, batch)], Some Retry)
      | Inl e \<Rightarrow> ([(url, batch)], Some e)
      | Inr status \<Rightarrow>
          if status \<in> {500, 503} then ([(url, batch)], Some Retry)
          else (case post_batches answer url rest of (ps, e) \<Rightarrow> ((url, batch) # ps, e)))"

definition do_send :: "(post \<Rightarrow> int result) \<Rightarrow> int \<Rightarrow> string list \<Rightarrow> string \<Rightarrow> post list \<times> pyexn option" where
  "do_send answer chunk_size data url =
     (case py_slices data chunk_size of
        Inl e \<Rightarrow> ([], Some e)
      | Inr batches \<Rightarrow> post_batches answer url batches)"

definition then_posts :: "post list \<times> pyexn option \<Rightarrow> (unit \<Rightarrow> post list \<times> pyexn option) \<Rightarrow> post list \<times> pyexn option" where
  "then_posts m k =
     (case m of (ps, Some e) \<Rightarrow> (ps, Some e) | (ps, None) \<Rightarrow> (case k () of (qs, e) \<Rightarrow> (ps @ qs, e)))"

record prepared =
  pp_events :: "string list"
  pp_metrics :: "string list"

definition send_task ::
  "(post \<Rightarrow> int result) \<Rightarrow> int \<Rightarrow> string option \<Rightarrow> string \<Rightarrow> string option \<Rightarrow> prepared \<Rightarrow> post list \<times> pyexn option" where
  \<comment> \<open>the token, the address of the collector and that of the metrics receiver\<close>
  "send_task answer chunk_size token hec otel data =
     (let set_up = \<lambda>v. v \<noteq> None \<and> v \<noteq> Some [] in
      then_posts
        (if set_up token
         then then_posts (do_send answer chunk_size (pp_events data) hec)
                (\<lambda>_. do_send answer chunk_size (pp_metrics data) hec)
         else ([], None))
        (\<lambda>_. if set_up otel then do_send answer chunk_size (pp_metrics data) (the otel) else ([], None)))"

section \<open>Values and names\<close>

definition SCIENTIFIC_VALUE :: rx where
  "SCIENTIFIC_VALUE =
     (let sign = rx_opt (RCls (\<lambda>c. c = CHR ''+'' \<or> c = CHR ''-'')); digits = rx_plus (RCls is_digit) in
      RSeq sign (RSeq digits (RSeq (rx_opt (RSeq (rx_chr (CHR ''.'')) digits))
        (RSeq (RCls (\<lambda>c. c = CHR ''e'' \<or> c = CHR ''E'')) (RSeq sign (RSeq digits rx_dollar))))))"

definition sent_value :: "pyval \<Rightarrow> pyval result" where
  \<comment> \<open>\<open>value_as_best\<close>\<close>
  "sent_value v =
     (case v of
        PStr s \<Rightarrow> if rx_match SCIENTIFIC_VALUE s then Inr v
                  else (case parse_float s of Inr f \<Rightarrow> Inr (PFloat f) | Inl _ \<Rightarrow> Inr v)
      | _ \<Rightarrow> (case py_float v of
                Inr f \<Rightarrow> Inr (PFloat f)
              | Inl e \<Rightarrow> if e \<in> {ValueError, TypeError} then Inr v else Inl e))"

definition py_items :: "pyval \<Rightarrow> (string \<times> pyval) list result" where
  "py_items v = (case v of PDict d \<Rightarrow> Inr d | _ \<Rightarrow> Inl AttributeError)"

definition translate_field ::
  "doc \<Rightarrow> bool \<Rightarrow> string \<times> pyval \<Rightarrow> doc \<Rightarrow> doc result" where
  \<comment> \<open>one entry of a collection, \<open>is_fields\<close> when it is that of the fields\<close>
  "translate_field translations is_fields = (\<lambda>(field, v) new_data.
     case str_cut ''.'' field of
       None \<Rightarrow> Inr (dict_set field v new_data)
     | Some (mib, name) \<Rightarrow>
         res_bind (py_get (dict_get_or translations mib (PDict [])) name PNone) (\<lambda>ct.
           if py_truthy ct
           then res_bind (py_str ct) (\<lambda>t.
                res_map (\<lambda>v'. dict_set (mib @ ''.'' @ t) v' new_data)
                  (if is_fields
                   then (case v of PDict d \<Rightarrow> Inr (PDict (dict_set ''name'' (PStr (mib @ ''.'' @ t)) d))
                         | _ \<Rightarrow> Inl TypeError)
                   else Inr v))
           else Inr (dict_set field v new_data)))"

definition apply_custom_translation_to_collection :: "doc \<Rightarrow> string \<Rightarrow> doc \<Rightarrow> doc result" where
  "apply_custom_translation_to_collection translations key data =
     res_bind (dict_item data key) (\<lambda>c.
     res_bind (py_items c) (\<lambda>items.
     res_map (\<lambda>new_data. dict_set key (PDict new_data) data)
       (res_fold (translate_field translations (key = ''fields'')) items [])))"

definition map_groups :: "(string \<Rightarrow> doc \<Rightarrow> doc result) \<Rightarrow> doc \<Rightarrow> doc result" where
  \<comment> \<open>a loop over the groups of a result that changes each\<close>
  "map_groups f res =
     res_list (\<lambda>(k, v). case v of PDict d \<Rightarrow> res_map (\<lambda>d'. (k, PDict d')) (f k d) | _ \<Rightarrow> Inl TypeError) res"

definition apply_custom_translations :: "doc \<Rightarrow> doc \<Rightarrow> doc result" where
  "apply_custom_translations translations work =
     (if translations = [] then Inr work
      else res_bind (dict_item work ''result'') (\<lambda>r.
           res_bind (py_items r) (\<lambda>res.
           res_map (\<lambda>res'. dict_set ''result'' (PDict res') work)
             (map_groups (\<lambda>_ data.
                res_bind (apply_custom_translation_to_collection translations ''fields'' data)
                  (apply_custom_translation_to_collection translations ''metrics'')) res))))"

section \<open>Events and metrics\<close>

type_synonym dumps_fn = "pyval \<Rightarrow> string"
type_synonym loads_fn = "string \<Rightarrow> pyval result"

record sender_conf =
  sd_trap_type :: string               \<comment> \<open>\<open>SPLUNK_SOURCETYPE_TRAPS\<close>\<close>
  sd_metric_type :: string
  sd_event_type :: string
  sd_event_index :: string
  sd_metric_index :: string
  sd_hyphen :: bool                    \<comment> \<open>\<open>SPLUNK_METRIC_NAME_HYPHEN_TO_UNDERSCORE\<close>\<close>
  sd_indexing :: bool                  \<comment> \<open>\<open>METRICS_INDEXING_ENABLED\<close>\<close>
  sd_aggregate :: bool                 \<comment> \<open>\<open>SPLUNK_AGGREGATE_TRAPS_EVENTS\<close>\<close>
  sd_dumps :: dumps_fn
  sd_loads :: loads_fn

definition item_value :: "pyval \<Rightarrow> pyval result" where
  \<comment> \<open>\<open>value_as_best(values["value"])\<close>\<close>
  "item_value v = res_bind (py_item v ''value'') sent_value"

definition hyphens :: "bool \<Rightarrow> string \<Rightarrow> string" where
  "hyphens replace field = (if replace then str_replace ''-'' ''_'' field else field)"

definition set_metrics_fields :: "sender_conf \<Rightarrow> doc \<Rightarrow> doc \<Rightarrow> doc result" where
  \<comment> \<open>the \<open>fields\<close> of the metric of a group\<close>
  "set_metrics_fields conf data work =
     (let f0 = (case dict_get work ''frequency'' of Some v \<Rightarrow> [(''frequency'', v)] | None \<Rightarrow> []);
          f1 = (case dict_get data ''profiles'' of Some v \<Rightarrow> dict_set ''profiles'' v f0 | None \<Rightarrow> f0);
          grp = dict_get_or work ''group'' PNone;
          f2 = (if py_truthy grp then dict_set ''group'' grp f1 else f1) in
      res_bind (res_bind (dict_item data ''fields'') py_items) (\<lambda>fields.
      res_bind (res_fold (\<lambda>(field, v) fs. res_map (\<lambda>x. dict_set (last (str_split ''.'' field)) x fs) (item_value v))
                  fields f2) (\<lambda>f3.
      res_bind (res_bind (dict_item data ''metrics'') py_items) (\<lambda>metrics.
      res_bind (res_fold (\<lambda>(field, v) fs.
                    res_map (\<lambda>x. dict_set (''metric_name:sc4snmp.'' @ hyphens (sd_hyphen conf) field) x fs) (item_value v))
                  metrics f3) (\<lambda>f4.
        case (sd_indexing conf, dict_get data ''indexes'') of
          (True, Some ix) \<Rightarrow>
            res_bind (py_iter ix) (\<lambda>xs.
            res_map (\<lambda>ts. dict_set ''mibIndex'' (PStr (str_join ''.'' ts)) f4) (res_list py_str xs))
        | _ \<Rightarrow> Inr f4)))))"

definition prepare_trap_group :: "sender_conf \<Rightarrow> doc \<Rightarrow> pyval \<Rightarrow> doc result" where
  \<comment> \<open>the body of the loop of \<open>prepare_trap_data\<close>\<close>
  "prepare_trap_group conf work v =
     res_bind (py_item v ''metrics'') (\<lambda>mv.
     res_bind (if py_truthy mv then py_items mv else Inr []) (\<lambda>metrics.
     res_bind (res_fold (\<lambda>(k, m) processed. res_bind (item_value m) (\<lambda>x.
                 case m of PDict md \<Rightarrow> Inr (dict_set k (PDict (dict_set ''value'' x md)) processed)
                         | _ \<Rightarrow> Inl TypeError)) metrics []) (\<lambda>processed.
     res_bind (dict_item work ''time'') (\<lambda>time.
     res_bind (res_bind (py_item v ''fields'') py_items) (\<lambda>fields.
     res_bind (dict_item work ''address'') (\<lambda>address.
       Inr ([(''time'', time),
             (''event'', PStr (sd_dumps conf (PDict (dict_update (dict_update [] fields) processed)))),
             (''source'', PStr ''sc4snmp''), (''sourcetype'', PStr (sd_trap_type conf)), (''host'', address),
             (''index'', PStr (sd_event_index conf))] @
            (case dict_get work ''fields'' of Some f \<Rightarrow> [(''fields'', f)] | None \<Rightarrow> []))))))))"

definition aggregate_traps :: "sender_conf \<Rightarrow> doc list \<Rightarrow> doc list result" where
  "aggregate_traps conf events =
     res_bind (res_fold (\<lambda>event tmp.
        res_bind (dict_item event ''event'') (\<lambda>t.
        res_bind (case t of PStr s \<Rightarrow> sd_loads conf s | _ \<Rightarrow> Inl TypeError) (\<lambda>e.
        res_map (dict_update tmp) (py_items e)))) events []) (\<lambda>tmp_events.
     case events of
       [] \<Rightarrow> Inl IndexError
     | e # _ \<Rightarrow> Inr [dict_set ''event'' (PStr (sd_dumps conf (PDict tmp_events))) e])"

definition prepare_trap_data :: "sender_conf \<Rightarrow> doc \<Rightarrow> string list result" where
  "prepare_trap_data conf work =
     res_bind (res_bind (dict_item work ''result'') py_items) (\<lambda>groups.
     res_bind (res_list (\<lambda>(k, v). prepare_trap_group conf work v) groups) (\<lambda>events.
     res_map (map (\<lambda>e. sd_dumps conf (PDict e)))
       (if sd_aggregate conf then aggregate_traps conf events else Inr events)))"

definition prepare_group :: "sender_conf \<Rightarrow> doc \<Rightarrow> pyval \<Rightarrow> (doc + doc) result" where
  \<comment> \<open>the body of the loop of \<open>prepare\<close>: an event (left) or a metric (right)\<close>
  "prepare_group conf work v =
     res_bind (res_bind (py_item v ''metrics'') py_items) (\<lambda>metrics.
     res_bind (dict_item work ''time'') (\<lambda>time.
       case v of
         PDict data \<Rightarrow>
           if metrics \<noteq> []
           then res_bind (dict_item work ''address'') (\<lambda>address.
                res_map (\<lambda>fields. Inr
                  [(''time'', time), (''event'', PStr ''metric''), (''source'', PStr ''sc4snmp''),
                   (''sourcetype'', PStr (sd_metric_type conf)), (''host'', address),
                   (''index'', PStr (sd_metric_index conf)), (''fields'', PDict fields)])
                  (set_metrics_fields conf data work))
           else res_bind (dict_item data ''fields'') (\<lambda>fields.
                res_map (\<lambda>address. Inl
                  [(''time'', time), (''event'', PStr (sd_dumps conf fields)), (''source'', PStr ''sc4snmp''),
                   (''sourcetype'', PStr (sd_event_type conf)), (''host'', address),
                   (''index'', PStr (sd_event_index conf))])
                  (dict_item work ''address''))
       | _ \<Rightarrow> Inl TypeError))"

definition prepare_task :: "sender_conf \<Rightarrow> doc \<Rightarrow> doc \<Rightarrow> prepared result" where
  "prepare_task conf translations work =
     res_bind (apply_custom_translations translations work) (\<lambda>work'.
       if dict_get work ''sourcetype'' = Some (PStr (sd_trap_type conf))
       then res_map (\<lambda>es. \<lparr>pp_events = es, pp_metrics = []\<rparr>) (prepare_trap_data conf work')
       else res_bind (res_bind (dict_item work' ''result'') py_items) (\<lambda>groups.
            res_map (\<lambda>docs.
                \<lparr>pp_events = map (\<lambda>d. sd_dumps conf (PDict d)) (concat (map (case_sum (\<lambda>d. [d]) (\<lambda>_. [])) docs)),
                 pp_metrics = map (\<lambda>d. sd_dumps conf (PDict d)) (concat (map (case_sum (\<lambda>_. []) (\<lambda>d. [d])) docs))\<rparr>)
              (res_list (\<lambda>(k, v). prepare_group conf work' v) groups)))"

section \<open>Properties\<close>

definition retried :: "int result \<Rightarrow> bool" where
  \<comment> \<open>the answers after which the task is run again\<close>
  "retried a \<longleftrightarrow> a = Inl ConnectionFailure \<or> a = Inr 500 \<or> a = Inr 503"

definition ends_posts :: "int result \<Rightarrow> bool" where
  "ends_posts a = (case a of Inl _ \<Rightarrow> True | Inr s \<Rightarrow> s = 500 \<or> s = 503)"

lemma post_batches_outcome:
  "post_batches answer url bs =
     (let ok = takeWhile (\<lambda>b. \<not> ends_posts (answer (url, b))) bs in
      if ok = bs then (map (Pair url) bs, None)
      else (map (Pair url) (take (Suc (length ok)) bs),
            Some (case answer (url, bs ! length ok) of
                    Inl e \<Rightarrow> if e = ConnectionFailure then Retry else e | Inr _ \<Rightarrow> Retry)))"
proof (induction bs)
  case (Cons b bs)
  then show ?case
    by (auto simp: Let_def ends_posts_def split: sum.splits pyexn.splits)
qed simp

text \<open>
  C28.  Sending posts consecutive batches of the lines, each within the configured size, up to
  the first that fails to connect or gets status 500 or 503, and then asks for a retry; when
  no batch does, all lines are posted in order exactly once, also those answered with a status
  that rejects them.
\<close>

theorem do_send_batches:
  assumes "0 < n" "\<forall>b. \<nexists>e. answer (url, b) = Inl e \<and> e \<noteq> ConnectionFailure"
  shows "\<exists>posted later. concat (posted @ later) = data \<and>
    (\<forall>b \<in> set (posted @ later). b \<noteq> [] \<and> int (length b) \<le> n) \<and>
    (\<forall>b \<in> set (butlast posted). \<not> retried (answer (url, b))) \<and>
    (if posted \<noteq> [] \<and> retried (answer (url, last posted))
     then do_send answer n data url = (map (Pair url) posted, Some Retry)
     else do_send answer n data url = (map (Pair url) posted, None) \<and> later = [])"
proof -
  obtain bs where bs: "py_slices data n = Inr bs" "concat bs = data"
    "\<forall>b \<in> set bs. b \<noteq> [] \<and> int (length b) \<le> n"
    using py_slices_pos [OF assms(1), of data] by blast
  have ends: "ends_posts (answer (url, b)) = retried (answer (url, b))" for b
    using assms(2) by (cases "answer (url, b)") (auto simp: ends_posts_def retried_def)
  define ok where "ok = takeWhile (\<lambda>b. \<not> retried (answer (url, b))) bs"
  have ok: "\<not> retried (answer (url, b))" if "b \<in> set ok" for b
    using that unfolding ok_def by (auto dest: set_takeWhileD)
  have send: "do_send answer n data url =
      (if ok = bs then (map (Pair url) bs, None)
       else (map (Pair url) (take (Suc (length ok)) bs),
             Some (case answer (url, bs ! length ok) of
                    Inl e \<Rightarrow> if e = ConnectionFailure then Retry else e | Inr _ \<Rightarrow> Retry)))"
    using bs(1) by (simp add: do_send_def post_batches_outcome ends ok_def Let_def)
  show ?thesis
  proof (cases "ok = bs")
    case True
    then show ?thesis
      using bs send ok by (intro exI [of _ bs] exI [of _ "[]"]) (auto dest: in_set_butlastD)
  next
    case False
    obtain b later where split: "bs = ok @ b # later" "retried (answer (url, b))"
      using False unfolding ok_def
      by (metis (mono_tags, lifting) append_Nil2 dropWhile_eq_Cons_conv neq_Nil_conv takeWhile_dropWhile_id)
    have "do_send answer n data url = (map (Pair url) (ok @ [b]), Some Retry)"
      using send False split by (auto simp: retried_def split: sum.splits)
    then show ?thesis
      using bs(2,3) split ok by (intro exI [of _ "ok @ [b]"] exI [of _ later]) auto
  qed
qed

theorem do_send_batches_witness:
  "\<exists>posted. do_send (\<lambda>_. Inr 200) 2 [''a'', ''b'', ''c''] ''u'' = (map (Pair ''u'') posted, None) \<and>
     concat posted = [''a'', ''b'', ''c'']"
  using do_send_batches [of 2 "\<lambda>_. Inr 200" "''u''" "[''a'', ''b'', ''c'']"]
  by (auto simp: retried_def)

text \<open>
  A text in scientific notation (as serial numbers can look) stays a text when it is sent,
  but the poller has already turned every such text that reads as a number into that number,
  so the value that is sent is a number all the same.
\<close>

theorem scientific_text_becomes_number:
  assumes "parse_float s = Inr f" "rx_match SCIENTIFIC_VALUE s"
  shows "sent_value (PStr s) = Inr (PStr s) \<and> value_as_best s = PFloat f \<and>
    sent_value (value_as_best s) = Inr (PFloat f)"
  using assms by (simp add: sent_value_def value_as_best_def py_float_def)

theorem scientific_text_becomes_number_witness:
  "sent_value (PStr ''84E3'') = Inr (PStr ''84E3'') \<and>
   (\<exists>f. sent_value (value_as_best ''84E3'') = Inr (PFloat f))"
proof -
  have "parse_decimal ''84E3'' = Some 84000" by code_simp
  then obtain f where f: "parse_float ''84E3'' = Inr f"
    by (auto simp: parse_float_def split_sign_def str_strip_def str_lstrip_def str_rstrip_def is_space_def
        str_lower_def lower_char_def)
  have "rx_match SCIENTIFIC_VALUE ''84E3''" by code_simp
  then show ?thesis using scientific_text_becomes_number [OF f] by blast
qed

lemma res_list_split:
  "res_list f xs = Inr ys \<Longrightarrow> length xs = length (concat (map (case_sum (\<lambda>d. [d]) (\<lambda>_. [])) ys)) +
     length (concat (map (case_sum (\<lambda>_. []) (\<lambda>d. [d])) ys))"
  for ys :: "('b + 'c) list"
  by (induction xs arbitrary: ys) (auto simp: res_splits split: sum.splits)

lemma map_groups_length: "map_groups f res = Inr res' \<Longrightarrow> length res' = length res"
  by (simp add: map_groups_def res_list_length)

lemma apply_custom_translations_groups:
  assumes "apply_custom_translations tr work = Inr work'" "dict_get work ''result'' = Some (PDict groups)"
  shows "\<exists>groups'. dict_get work' ''result'' = Some (PDict groups') \<and> length groups' = length groups \<and>
    map fst groups' = map fst groups \<and> (\<forall>k. k \<noteq> ''result'' \<longrightarrow> dict_get work' k = dict_get work k)"
proof (cases "tr = []")
  case False
  have keys: "map fst ys = map fst xs" if "map_groups f xs = Inr ys" for f xs ys
    using that unfolding map_groups_def
    by (induction xs arbitrary: ys) (auto simp: res_splits split: prod.splits pyval.splits)
  obtain f groups' where "map_groups f groups = Inr groups'" "work' = dict_set ''result'' (PDict groups') work"
    using assms False by (auto simp: apply_custom_translations_def res_splits dict_item_def py_items_def)
  then show ?thesis using keys by (simp add: map_groups_length)
qed (use assms in \<open>simp add: apply_custom_translations_def\<close>)

text \<open>
  Preparing the result of a poll gives exactly one event or one metric for every group of
  it, whatever the translations.
\<close>

theorem prepare_counts:
  assumes "prepare_task conf tr work = Inr out" "dict_get work ''result'' = Some (PDict groups)"
    and "dict_get work ''sourcetype'' \<noteq> Some (PStr (sd_trap_type conf))"
  shows "length (pp_events out) + length (pp_metrics out) = length groups"
proof -
  obtain work' where w: "apply_custom_translations tr work = Inr work'"
    using assms(1) by (auto simp: prepare_task_def res_splits)
  obtain groups' where g: "dict_get work' ''result'' = Some (PDict groups')" "length groups' = length groups"
    using apply_custom_translations_groups [OF w assms(2)] by blast
  obtain docs where d: "res_list (\<lambda>(k, v). prepare_group conf work' v) groups' = Inr docs"
    "length (pp_events out) = length (concat (map (case_sum (\<lambda>d. [d]) (\<lambda>_. [])) docs))"
    "length (pp_metrics out) = length (concat (map (case_sum (\<lambda>_. []) (\<lambda>d. [d])) docs))"
    using assms(1,3) w g(1) by (auto simp: prepare_task_def res_splits dict_item_def py_items_def)
  show ?thesis using res_list_split [OF d(1)] d(2,3) g(2) by simp
qed

definition sample_conf :: sender_conf where
  "sample_conf = \<lparr>sd_trap_type = ''t'', sd_metric_type = ''m'', sd_event_type = ''e'', sd_event_index = ''i'',
     sd_metric_index = ''j'', sd_hyphen = False, sd_indexing = False, sd_aggregate = True,
     sd_dumps = (\<lambda>_. ''x''), sd_loads = (\<lambda>_. Inr (PDict []))\<rparr>"

definition sample_work :: doc where
  "sample_work = [(''time'', PInt 0), (''address'', PStr ''h''),
     (''result'', PDict [(''g'', PDict [(''metrics'', PDict []), (''fields'', PDict [])])])]"

theorem prepare_counts_witness:
  "\<exists>out. prepare_task sample_conf [] sample_work = Inr out \<and> length (pp_events out) + length (pp_metrics out) = 1"
proof -
  have "is_ok (prepare_task sample_conf [] sample_work)"
    by (simp add: prepare_task_def apply_custom_translations_def sample_work_def dict_item_def dict_get_Cons
        py_items_def prepare_group_def sample_conf_def)
  then obtain out where o: "prepare_task sample_conf [] sample_work = Inr out" by (auto simp: res_splits)
  have "dict_get sample_work ''result'' = Some (PDict [(''g'', PDict [(''metrics'', PDict []), (''fields'', PDict [])])])"
    "dict_get sample_work ''sourcetype'' \<noteq> Some (PStr (sd_trap_type sample_conf))"
    by (simp_all add: sample_work_def dict_get_Cons)
  from prepare_counts [OF o this] o show ?thesis by simp
qed

text \<open>
  With aggregation on, a trap that gave no group at all fails to be prepared: there is no
  event to put the aggregate into.
\<close>

theorem aggregate_empty_trap_fails:
  assumes "sd_aggregate conf" "dict_get work ''sourcetype'' = Some (PStr (sd_trap_type conf))"
    and "dict_get work ''result'' = Some (PDict [])"
  shows "prepare_task conf tr work = Inl IndexError"
proof -
  have "map_groups f [] = Inr []" for f by (simp add: map_groups_def)
  then show ?thesis
    using assms by (auto simp: prepare_task_def apply_custom_translations_def dict_item_def py_items_def
        prepare_trap_data_def aggregate_traps_def)
qed

theorem aggregate_empty_trap_fails_witness:
  "prepare_task sample_conf [] [(''sourcetype'', PStr ''t''), (''result'', PDict [])] = Inl IndexError"
  by (rule aggregate_empty_trap_fails) (simp_all add: sample_conf_def dict_get_Cons)

section \<open>Aggregation\<close>

lemma dict_update_nil [simp]: "dict_update [] d = [] \<longleftrightarrow> d = []"
proof -
  have "dict_update e d = [] \<longleftrightarrow> e = [] \<and> d = []" for e :: "('a, 'b) dict"
  proof (induction e d rule: dict_update.induct)
    case (2 d k v e)
    have "dict_set k v d \<noteq> []" by (cases d) (auto simp: dict_set_def)
    with 2 show ?case by simp
  qed simp
  then show ?thesis by blast
qed

text \<open>
  Aggregating the events of a trap gives one event, with the header of the first, that has
  under every name the last value that some event of the trap has under it.
\<close>

theorem aggregate_traps_union:
  assumes "events \<noteq> []"
    and "\<forall>e \<in> set events. sd_loads conf (sd_dumps conf (PDict (body e))) = Inr (PDict (body e))"
    and "\<forall>e \<in> set events. dict_get e ''event'' = Some (PStr (sd_dumps conf (PDict (body e))))"
  shows "\<exists>u. aggregate_traps conf events = Inr [dict_set ''event'' (PStr (sd_dumps conf (PDict u))) (hd events)] \<and>
    (\<forall>k. dict_get u k = (case find (\<lambda>e. dict_has (rev (body e)) k) (rev events) of
                            None \<Rightarrow> None | Some e \<Rightarrow> dict_get (rev (body e)) k))"
proof -
  let ?step = "\<lambda>event tmp. res_bind (dict_item event ''event'') (\<lambda>t.
        res_bind (case t of PStr s \<Rightarrow> sd_loads conf s | _ \<Rightarrow> Inl TypeError) (\<lambda>e.
        res_map (dict_update tmp) (py_items e)))"
  have step: "?step e tmp = Inr (dict_update tmp (body e))" if "e \<in> set events" for e tmp
    using assms(2,3) that by (simp add: dict_item_def py_items_def)
  have loop: "res_fold ?step es tmp = Inr (fold (\<lambda>e t. dict_update t (body e)) es tmp)" if "set es \<subseteq> set events" for es tmp
    using that by (induction es arbitrary: tmp) (simp_all add: step)
  have get: "dict_get (fold (\<lambda>e t. dict_update t (body e)) es []) k =
      (case find (\<lambda>e. dict_has (rev (body e)) k) (rev es) of
         None \<Rightarrow> None | Some e \<Rightarrow> dict_get (rev (body e)) k)" for es k
    by (induction es rule: rev_induct) (auto simp: dict_get_update dict_has_def split: option.splits)
  have "aggregate_traps conf events =
      Inr [dict_set ''event'' (PStr (sd_dumps conf (PDict (fold (\<lambda>e t. dict_update t (body e)) events [])))) (hd events)]"
    unfolding aggregate_traps_def loop [OF subset_refl] using assms(1) by (cases events) simp_all
  then show ?thesis using get by blast
qed

theorem aggregate_traps_union_witness:
  "aggregate_traps sample_conf [[(''event'', PStr ''x'')]] = Inr [[(''event'', PStr ''x'')]]"
proof -
  obtain u where "aggregate_traps sample_conf [[(''event'', PStr ''x'')]] =
      Inr [dict_set ''event'' (PStr (sd_dumps sample_conf (PDict u))) [(''event'', PStr ''x'')]]"
    using aggregate_traps_union [of "[[(''event'', PStr ''x'')]]" sample_conf "\<lambda>_. []"]
    by (auto simp: sample_conf_def dict_get_Cons)
  then show ?thesis by (simp add: sample_conf_def dict_set_def)
qed

end
