(* ===== verification/Enrich.thy ===== *)
theory Enrich
  imports Sender
begin

text \<open>
  The task \<open>enrich\<close> (\<^verbatim>\<open>splunk_connect_for_snmp/enrich/tasks.py\<close>): noticing the restart of a device,
  keeping the fields of every group in the database, and adding the stored fields to groups
  that have metrics.

  What the database holds is a parameter, and so are the entries of the scheduler; what the
  task does to them is the list of commands sent.  The result that it returns is the document
  it was given, with the names and fields that it adds.
\<close>

section \<open>Commands\<close>

type_synonym set_op = "string \<times> pyval"        \<comment> \<open>\<open>{"$set": {path: value}}\<close>\<close>

datatype enrich_cmd =
    ESetUpTime doc                             \<comment> \<open>the state of \<open>sysUpTime\<close> of the target\<close>
  | ETask tcmd
  | ENewGroup string string pyval              \<comment> \<open>hash, key and indexes of a group seen for the first time\<close>
  | EUpdateTarget "set_op list"
  | EUpdateAttributes string "set_op list" bool  \<comment> \<open>of a hash; whether to insert it when absent\<close>
  | EBulkWrite "(string \<times> set_op list) list"

record enrich_env =
  en_target :: "doc option"                    \<comment> \<open>the target document of the address\<close>
  en_any_attributes :: bool                    \<comment> \<open>whether the address has any attributes\<close>
  en_attributes :: "string \<Rightarrow> doc option"      \<comment> \<open>those of a hash, with \<open>id\<close> and \<open>fields\<close> only\<close>
  en_from_key :: from_key_fn

section \<open>Restarts\<close>

definition SYS_UP_TIME :: string where "SYS_UP_TIME = ''SNMPv2-MIB.sysUpTime''"

definition trigger_walk_after_restart :: "from_key_fn \<Rightarrow> string \<Rightarrow> tcmd list" where
  \<comment> \<open>every exception is swallowed\<close>
  "trigger_walk_after_restart from_key address =
     (case walk_task_exists from_key address of
        Inr True \<Rightarrow>
          (case manage_task from_key [(''name'', PStr (walk_name address)), (''run_immediately'', PBool True)] of
             Inr cmds \<Rightarrow> cmds | Inl _ \<Rightarrow> [])
      | _ \<Rightarrow> [])"

definition get_current_target :: "string \<Rightarrow> doc option \<Rightarrow> doc" where
  "get_current_target address found = (case found of Some d \<Rightarrow> d | None \<Rightarrow> [(''address'', PStr address)])"

definition check_restart_group ::
  "from_key_fn \<Rightarrow> doc \<Rightarrow> string \<Rightarrow> pyval \<Rightarrow> (enrich_cmd, unit) effect" where
  "check_restart_group from_key current_target address group_dict =
     (case res_bind (py_in ''metrics'' group_dict) (\<lambda>has.
            if \<not> has then Inr None
            else res_bind (py_item group_dict ''metrics'') (\<lambda>ms.
                 res_bind (py_in SYS_UP_TIME ms) (\<lambda>has_up.
                   if \<not> has_up then Inr None
                   else res_bind (py_item ms SYS_UP_TIME) (\<lambda>up.
                        res_bind (py_item up ''value'') (\<lambda>new_value.
                        res_bind (py_item up ''type'') (\<lambda>t.
                        res_map (\<lambda>oid. Some (new_value, [(''value'', new_value), (''type'', t), (''oid'', oid)]))
                          (py_item up ''oid''))))))) of
        Inl e \<Rightarrow> ([], Inl e)
      | Inr None \<Rightarrow> ([], Inr ())
      | Inr (Some (new_value, state)) \<Rightarrow>
          (case (if \<not> dict_has current_target ''sysUpTime'' then Inr []
                 else res_bind (dict_item current_target ''sysUpTime'') (\<lambda>old.
                      res_bind (py_item old ''value'') (\<lambda>old_value.
                      res_bind (py_int new_value) (\<lambda>n.
                      res_map (\<lambda>m. if n < m then trigger_walk_after_restart from_key address else [])
                        (py_int old_value))))) of
             Inl e \<Rightarrow> ([ESetUpTime state], Inl e)
           | Inr cmds \<Rightarrow> (ESetUpTime state # map ETask cmds, Inr ())))"

fun check_restart :: "from_key_fn \<Rightarrow> doc \<Rightarrow> string \<Rightarrow> doc \<Rightarrow> (enrich_cmd, unit) effect" where
  "check_restart from_key current_target address [] = ([], Inr ())"
| "check_restart from_key current_target address ((_, group_dict) # groups) =
     eff_bind (check_restart_group from_key current_target address group_dict)
       (\<lambda>_. check_restart from_key current_target address groups)"

section \<open>The fields of a group\<close>

definition TRACKED_F :: "string list" where
  "TRACKED_F = [''SNMPv2-MIB.sysDescr'', ''SNMPv2-MIB.sysObjectID'', ''SNMPv2-MIB.sysContact'',
                ''SNMPv2-MIB.sysName'', ''SNMPv2-MIB.sysLocation'']"

definition MONGO_UPDATE_BATCH_THRESHOLD :: nat where "MONGO_UPDATE_BATCH_THRESHOLD = 20"

definition key_hash :: "string \<Rightarrow> string" where "key_hash k = str_replace ''.'' ''|'' k"

record enrich_acc =
  ea_updates :: "set_op list"
  ea_attribute_updates :: "set_op list"
  ea_new_fields :: "set_op list"
  ea_cmds :: "enrich_cmd list"

definition no_updates :: enrich_acc where
  "no_updates = \<lparr>ea_updates = [], ea_attribute_updates = [], ea_new_fields = [], ea_cmds = []\<rparr>"

definition stored_field :: "doc option \<Rightarrow> string \<Rightarrow> pyval result" where
  \<comment> \<open>\<open>cv\<close>\<close>
  "stored_field current field_key_hash =
     (case current of
        None \<Rightarrow> Inr PNone
      | Some c \<Rightarrow>
          if c = [] then Inr PNone
          else res_bind (py_in field_key_hash (dict_get_or c ''fields'' (PDict []))) (\<lambda>has.
            if has then res_bind (dict_item c ''fields'') (\<lambda>fs. py_item fs field_key_hash) else Inr PNone))"

datatype field_state = FieldModified | FieldUnchanged | FieldNew

definition field_state :: "pyval \<Rightarrow> pyval \<Rightarrow> field_state" where
  "field_state cv field_value =
     (if py_truthy cv \<and> \<not> py_eq cv field_value then FieldModified
      else if py_truthy cv then FieldUnchanged else FieldNew)"

definition flush_updates :: "string \<Rightarrow> enrich_acc \<Rightarrow> enrich_acc" where
  \<comment> \<open>the batches that are full are sent\<close>
  "flush_updates group_key_hash a =
     (let a1 = (if MONGO_UPDATE_BATCH_THRESHOLD \<le> length (ea_updates a)
                then a\<lparr>ea_updates := [], ea_cmds := ea_cmds a @ [EUpdateTarget (ea_updates a)]\<rparr> else a)
      in if MONGO_UPDATE_BATCH_THRESHOLD \<le> length (ea_attribute_updates a1)
         then a1\<lparr>ea_attribute_updates := [],
                 ea_cmds := ea_cmds a1 @ [EUpdateAttributes group_key_hash (ea_attribute_updates a1) True]\<rparr>
         else a1)"

definition set_attribute_update ::
  "string \<Rightarrow> doc option \<Rightarrow> string \<times> pyval \<Rightarrow> doc \<times> enrich_acc \<Rightarrow> (doc \<times> enrich_acc) result" where
  \<comment> \<open>the body of the loop, over the fields with their names\<close>
  "set_attribute_update group_key_hash current = (\<lambda>(field_key, v) (flds, a).
     case v of
       PDict d \<Rightarrow>
         (let field_value = PDict (dict_set ''name'' (PStr field_key) d); h = key_hash field_key;
              op = (''fields.'' @ h, field_value) in
          res_map (\<lambda>cv.
            let a1 = (case field_state cv field_value of
                        FieldModified \<Rightarrow> a\<lparr>ea_attribute_updates := ea_attribute_updates a @ [op]\<rparr>
                      | FieldUnchanged \<Rightarrow> a
                      | FieldNew \<Rightarrow> a\<lparr>ea_new_fields := ea_new_fields a @ [op]\<rparr>);
                a2 = (if field_key \<in> set TRACKED_F
                      then a1\<lparr>ea_updates := ea_updates a1 @ [(''state.'' @ h, field_value)]\<rparr> else a1)
            in (flds @ [(field_key, field_value)], flush_updates group_key_hash a2))
          (stored_field current h))
     | _ \<Rightarrow> Inl TypeError)"

fun set_attribute_updates ::
  "string \<Rightarrow> doc option \<Rightarrow> doc \<Rightarrow> doc \<times> enrich_acc \<Rightarrow> (doc \<times> enrich_acc) \<times> pyexn option" where
  "set_attribute_updates group_key_hash current [] s = (s, None)"
| "set_attribute_updates group_key_hash current (f # fs) s =
     (case set_attribute_update group_key_hash current f s of
        Inl e \<Rightarrow> (s, Some e)
      | Inr s' \<Rightarrow> set_attribute_updates group_key_hash current fs s')"

definition update_collections :: "string \<Rightarrow> enrich_acc \<Rightarrow> enrich_cmd list" where
  "update_collections group_key_hash a =
     (if ea_updates a \<noteq> [] then [EUpdateTarget (ea_updates a)] else []) @
     (if ea_attribute_updates a \<noteq> []
      then [EUpdateAttributes group_key_hash (ea_attribute_updates a) False] else [])"

definition add_persisted :: "pyval \<Rightarrow> doc \<Rightarrow> doc result" where
  \<comment> \<open>the body of the loop over the stored fields, whose names are strings\<close>
  "add_persisted persist_data snmp_object =
     res_bind (py_item persist_data ''name'') (\<lambda>nv.
     res_bind (case nv of PStr s \<Rightarrow> Inr s | _ \<Rightarrow> Inl TypeError) (\<lambda>name.
     res_bind (dict_item snmp_object ''fields'') (\<lambda>fv.
     res_bind (py_in name fv) (\<lambda>present.
       if present then Inr snmp_object
       else (case fv of
               PDict flds \<Rightarrow> Inr (dict_set ''fields'' (PDict (dict_set name persist_data flds)) snmp_object)
             | _ \<Rightarrow> Inl TypeError)))))"

definition enrich_metric_with_fields_from_db :: "doc \<Rightarrow> pyval \<Rightarrow> doc result" where
  "enrich_metric_with_fields_from_db snmp_object fields_from_db =
     (if \<not> py_truthy (dict_get_or snmp_object ''metrics'' (PDict [])) then Inr snmp_object
      else res_bind (py_items fields_from_db) (\<lambda>items. res_fold add_persisted (map snd items) snmp_object))"

section \<open>The task\<close>

definition add_back :: "doc option \<Rightarrow> doc \<Rightarrow> doc result" where
  \<comment> \<open>the end of the loop: the result with the stored fields of the group\<close>
  "add_back current res =
     (case current of
        None \<Rightarrow> Inr res
      | Some c \<Rightarrow>
          if c = [] then Inr res
          else res_bind (dict_item c ''id'') (\<lambda>idv.
               res_bind (case idv of PStr s \<Rightarrow> Inr s | _ \<Rightarrow> Inl TypeError) (\<lambda>group_id.
                 case dict_get res group_id of
                   None \<Rightarrow> Inr res
                 | Some (PDict snmp_object) \<Rightarrow>
                     res_map (\<lambda>o'. dict_set group_id (PDict o') res)
                       (enrich_metric_with_fields_from_db snmp_object (dict_get_or c ''fields'' (PDict [])))
                 | Some _ \<Rightarrow> Inl AttributeError)))"

type_synonym bulk_ops = "(string \<times> set_op list) list"

definition enrich_group ::
  "enrich_env \<Rightarrow> string \<Rightarrow> doc \<times> bulk_ops \<Rightarrow> (enrich_cmd, doc \<times> bulk_ops) effect" where
  \<comment> \<open>the body of the loop for one key of the result\<close>
  "enrich_group env group_key = (\<lambda>(res, bulk).
     (case res_bind (dict_item res group_key) (\<lambda>g.
             res_bind (py_item g ''fields'') (\<lambda>fv. res_map (\<lambda>flds. (g, flds)) (py_items fv))) of
        Inl e \<Rightarrow> ([], Inl e)
      | Inr (g, flds) \<Rightarrow>
          (let h = key_hash group_key;
               current = (if en_any_attributes env then en_attributes env h else None);
               group_data = (case g of PDict d \<Rightarrow> d | _ \<Rightarrow> []);
               new_cmds = (if current = None \<and> flds \<noteq> []
                           then [ENewGroup h group_key (dict_get_or group_data ''indexes'' (PList []))] else [])
           in case set_attribute_updates h current flds ([], no_updates) of
                ((_, a), Some e) \<Rightarrow> (new_cmds @ ea_cmds a, Inl e)
              | ((fields', a), None) \<Rightarrow>
                  (new_cmds @ ea_cmds a @ update_collections h a,
                   res_map (\<lambda>res'. (res', if ea_new_fields a \<noteq> [] then bulk @ [(h, ea_new_fields a)] else bulk))
                     (add_back current
                        (dict_set group_key (PDict (dict_set ''fields'' (PDict fields') group_data)) res))))))"

fun enrich_groups ::
  "enrich_env \<Rightarrow> string list \<Rightarrow> doc \<times> bulk_ops \<Rightarrow> (enrich_cmd, doc \<times> bulk_ops) effect" where
  "enrich_groups env [] s = ([], Inr s)"
| "enrich_groups env (k # ks) s = eff_bind (enrich_group env k s) (enrich_groups env ks)"

definition bulk_write_attributes :: "bulk_ops \<Rightarrow> enrich_cmd list" where
  "bulk_write_attributes ops = (if ops \<noteq> [] then [EBulkWrite ops] else [])"

definition enrich :: "enrich_env \<Rightarrow> doc \<Rightarrow> (enrich_cmd, doc) effect" where
  "enrich env work =
     (case res_bind (dict_item work ''address'') (\<lambda>av.
           res_bind (py_str av) (\<lambda>address.
           res_bind (dict_item work ''result'') (\<lambda>rv.
           res_map (\<lambda>res. (address, res)) (py_items rv)))) of
        Inl e \<Rightarrow> ([], Inl e)
      | Inr (address, res) \<Rightarrow>
          eff_bind (check_restart (en_from_key env) (get_current_target address (en_target env)) address res) (\<lambda>_.
          eff_bind (enrich_groups env (dict_keys res) (res, [])) (\<lambda>(res', bulk).
            (bulk_write_attributes bulk, Inr (dict_set ''result'' (PDict res') work)))))"

section \<open>No update is lost\<close>

definition set_op_of :: "string \<Rightarrow> string \<times> pyval \<Rightarrow> set_op" where
  \<comment> \<open>the update of a field below the given prefix\<close>
  "set_op_of pre kv =
     (pre @ key_hash (fst kv),
      PDict (dict_set ''name'' (PStr (fst kv)) (case snd kv of PDict d \<Rightarrow> d | _ \<Rightarrow> [])))"

definition state_of :: "doc option \<Rightarrow> string \<times> pyval \<Rightarrow> field_state" where
  "state_of current kv =
     (case stored_field current (key_hash (fst kv)) of
        Inr cv \<Rightarrow> field_state cv (snd (set_op_of [] kv)) | Inl _ \<Rightarrow> FieldUnchanged)"

definition field_ops :: "doc option \<Rightarrow> field_state \<Rightarrow> doc \<Rightarrow> set_op list" where
  "field_ops current st flds = map (set_op_of ''fields.'') (filter (\<lambda>kv. state_of current kv = st) flds)"

definition tracked_ops :: "doc \<Rightarrow> set_op list" where
  "tracked_ops flds = map (set_op_of ''state.'') (filter (\<lambda>kv. fst kv \<in> set TRACKED_F) flds)"

definition sent_attributes :: "enrich_cmd list \<Rightarrow> set_op list" where
  "sent_attributes cmds = concat (map (\<lambda>c. case c of EUpdateAttributes _ ops _ \<Rightarrow> ops | _ \<Rightarrow> []) cmds)"

definition sent_targets :: "enrich_cmd list \<Rightarrow> set_op list" where
  "sent_targets cmds = concat (map (\<lambda>c. case c of EUpdateTarget ops \<Rightarrow> ops | _ \<Rightarrow> []) cmds)"

definition batch_size :: "enrich_cmd \<Rightarrow> nat" where
  "batch_size c = (case c of EUpdateTarget ops \<Rightarrow> length ops | EUpdateAttributes _ ops _ \<Rightarrow> length ops | _ \<Rightarrow> 0)"

definition acc_ok :: "doc option \<Rightarrow> doc \<Rightarrow> enrich_acc \<Rightarrow> bool" where
  "acc_ok current done a \<longleftrightarrow>
     sent_attributes (ea_cmds a) @ ea_attribute_updates a = field_ops current FieldModified done \<and>
     ea_new_fields a = field_ops current FieldNew done \<and>
     sent_targets (ea_cmds a) @ ea_updates a = tracked_ops done \<and>
     length (ea_updates a) < MONGO_UPDATE_BATCH_THRESHOLD \<and>
     length (ea_attribute_updates a) < MONGO_UPDATE_BATCH_THRESHOLD \<and>
     (\<forall>c \<in> set (ea_cmds a). batch_size c \<le> MONGO_UPDATE_BATCH_THRESHOLD)"

lemmas acc_defs = acc_ok_def field_ops_def tracked_ops_def sent_attributes_def sent_targets_def batch_size_def

lemma flush_updates_ok:
  assumes "length (ea_updates a) \<le> MONGO_UPDATE_BATCH_THRESHOLD"
    and "length (ea_attribute_updates a) \<le> MONGO_UPDATE_BATCH_THRESHOLD"
    and "sent_attributes (ea_cmds a) @ ea_attribute_updates a = xs" "ea_new_fields a = ys"
    and "sent_targets (ea_cmds a) @ ea_updates a = zs"
    and "\<forall>c \<in> set (ea_cmds a). batch_size c \<le> MONGO_UPDATE_BATCH_THRESHOLD"
    and "b = flush_updates h a"
  shows "sent_attributes (ea_cmds b) @ ea_attribute_updates b = xs \<and> ea_new_fields b = ys \<and>
    sent_targets (ea_cmds b) @ ea_updates b = zs \<and>
    length (ea_updates b) < MONGO_UPDATE_BATCH_THRESHOLD \<and>
    length (ea_attribute_updates b) < MONGO_UPDATE_BATCH_THRESHOLD \<and>
    (\<forall>c \<in> set (ea_cmds b). batch_size c \<le> MONGO_UPDATE_BATCH_THRESHOLD)"
  using assms unfolding flush_updates_def sent_attributes_def sent_targets_def batch_size_def Let_def
  by (simp add: MONGO_UPDATE_BATCH_THRESHOLD_def split: if_splits)

lemma set_attribute_update_ok:
  assumes "set_attribute_update h current kv (out, a) = Inr (out', b)" "acc_ok current done a"
  shows "acc_ok current (done @ [kv]) b \<and> map fst out' = map fst out @ [fst kv]"
proof -
  obtain k v where kv: "kv = (k, v)" by fastforce
  obtain d cv where d: "v = PDict d" "stored_field current (key_hash k) = Inr cv"
    using assms(1) kv by (auto simp: set_attribute_update_def Let_def res_splits split: pyval.splits)
  define op where "op = set_op_of ''fields.'' kv"
  define top where "top = set_op_of ''state.'' kv"
  have ops: "(''fields.'' @ key_hash k, PDict (dict_set ''name'' (PStr k) d)) = op"
    "(''state.'' @ key_hash k, PDict (dict_set ''name'' (PStr k) d)) = top"
    by (simp_all add: op_def top_def set_op_of_def kv d(1))
  have st: "state_of current kv = field_state cv (PDict (dict_set ''name'' (PStr k) d))"
    by (simp add: state_of_def kv d set_op_of_def)
  define a1 where "a1 = (case state_of current kv of
      FieldModified \<Rightarrow> a\<lparr>ea_attribute_updates := ea_attribute_updates a @ [op]\<rparr>
    | FieldUnchanged \<Rightarrow> a | FieldNew \<Rightarrow> a\<lparr>ea_new_fields := ea_new_fields a @ [op]\<rparr>)"
  define a2 where "a2 = (if k \<in> set TRACKED_F then a1\<lparr>ea_updates := ea_updates a1 @ [top]\<rparr> else a1)"
  have b: "b = flush_updates h a2" "out' = out @ [(k, PDict (dict_set ''name'' (PStr k) d))]"
    using assms(1) unfolding kv d(1) set_attribute_update_def Let_def prod.case pyval.case d(2) res_map_simps
      a2_def a1_def st [unfolded kv d(1)] ops [symmetric] sum.inject prod.inject
    by (simp_all only: simp_thms)
  have fo: "field_ops current s (done @ [kv]) = field_ops current s done @ (if state_of current kv = s then [op] else [])" for s
    by (simp add: field_ops_def op_def)
  have tr: "tracked_ops (done @ [kv]) = tracked_ops done @ (if k \<in> set TRACKED_F then [top] else [])"
    by (simp add: tracked_ops_def top_def kv)
  have "acc_ok current (done @ [kv]) b"
    unfolding acc_ok_def fo tr
    by (rule flush_updates_ok [OF _ _ _ _ _ _ b(1)])
       (use assms(2) in \<open>auto simp: acc_ok_def a2_def a1_def split: field_state.splits\<close>)
  then show ?thesis using b(2) kv by simp
qed

lemma set_attribute_updates_ok:
  assumes "set_attribute_updates h current flds (out, a) = ((out', b), None)" "acc_ok current done a"
  shows "acc_ok current (done @ flds) b \<and> map fst out' = map fst out @ map fst flds"
  using assms
proof (induction flds arbitrary: out a "done")
  case (Cons f fs)
  obtain out1 a1 where s: "set_attribute_update h current f (out, a) = Inr (out1, a1)"
    "set_attribute_updates h current fs (out1, a1) = ((out', b), None)"
    using Cons.prems(1) by (auto split: sum.splits)
  show ?case
    using set_attribute_update_ok [OF s(1) Cons.prems(2)] Cons.IH [OF s(2)] by fastforce
qed simp

text \<open>
  C6.  Of the fields of a group exactly those whose stored value differs are sent as updates of
  the attributes, those without a stored value go to the bulk write, and the tracked ones are
  sent to the target; each list is sent completely and in order, in batches of at most twenty.
\<close>

theorem enrich_updates_complete:
  assumes "set_attribute_updates h current flds ([], no_updates) = ((out, a), None)"
    and "cmds = ea_cmds a @ update_collections h a"
  shows "sent_attributes cmds = field_ops current FieldModified flds \<and>
    ea_new_fields a = field_ops current FieldNew flds \<and> sent_targets cmds = tracked_ops flds \<and>
    (\<forall>c \<in> set cmds. batch_size c \<le> MONGO_UPDATE_BATCH_THRESHOLD) \<and> map fst out = map fst flds"
proof -
  have "acc_ok current [] no_updates"
    by (simp add: acc_defs no_updates_def MONGO_UPDATE_BATCH_THRESHOLD_def)
  from set_attribute_updates_ok [OF assms(1) this]
  have "acc_ok current flds a" "map fst out = map fst flds" by simp_all
  then show ?thesis
    unfolding assms(2) acc_ok_def
    by (auto simp: sent_attributes_def sent_targets_def batch_size_def update_collections_def)
qed

theorem enrich_updates_complete_witness:
  "\<exists>out a. set_attribute_updates ''g'' None [(''A.b'', PDict [])] ([], no_updates) = ((out, a), None) \<and>
     ea_new_fields a = [(''fields.A|b'', PDict [(''name'', PStr ''A.b'')])]"
proof -
  have h: "key_hash ''A.b'' = ''A|b''" by code_simp
  obtain out a where s: "set_attribute_updates ''g'' None [(''A.b'', PDict [])] ([], no_updates) = ((out, a), None)"
    by (simp add: set_attribute_update_def stored_field_def Let_def)
  show ?thesis
    using enrich_updates_complete [OF s refl] s
    by (auto simp: field_ops_def set_op_of_def state_of_def h stored_field_def field_state_def py_truthy_def
        dict_set_def)
qed

section \<open>A restart is noticed\<close>

definition up_value :: "pyval \<Rightarrow> pyval option" where
  \<comment> \<open>the uptime that a group reports\<close>
  "up_value g =
     (case g of
        PDict gd \<Rightarrow>
          (case dict_get gd ''metrics'' of
             Some (PDict ms) \<Rightarrow>
               (case dict_get ms SYS_UP_TIME of Some (PDict up) \<Rightarrow> dict_get up ''value'' | _ \<Rightarrow> None)
           | _ \<Rightarrow> None)
      | _ \<Rightarrow> None)"

lemma trigger_walk_existing:
  assumes "from_key (''redbeat:'' @ walk_name address) = Inr e"
  shows "\<exists>e'. trigger_walk_after_restart from_key address = [TcSave e']"
  using assms by (simp add: trigger_walk_after_restart_def walk_task_exists_def manage_task_def dict_get_Cons)

definition went_back :: "pyval \<Rightarrow> pyval \<Rightarrow> bool" where
  "went_back old g \<longleftrightarrow> (\<exists>v n m. up_value g = Some v \<and> py_int v = Inr n \<and> py_int old = Inr m \<and> n < m)"

lemma py_item_dict: "py_item v k = Inr x \<longleftrightarrow> (\<exists>d. v = PDict d \<and> dict_get d k = Some x)"
  by (cases v) (auto simp: py_item_def dict_item_def split: option.splits)

lemma check_restart_group_task:
  assumes "check_restart_group from_key target address g = (cmds, Inr ())"
    and "dict_get target ''sysUpTime'' = Some (PDict old)" "dict_get old ''value'' = Some ov"
    and "from_key (''redbeat:'' @ walk_name address) = Inr e"
  shows "(\<exists>e'. ETask (TcSave e') \<in> set cmds) \<longleftrightarrow> went_back ov g"
proof -
  obtain w where w: "trigger_walk_after_restart from_key address = [TcSave w]"
    using trigger_walk_existing [where from_key = from_key and address = address, OF assms(4)] by blast
  show ?thesis
  proof (cases "up_value g")
    case None
    have "cmds = []"
      using assms(1) None
      by (auto simp: check_restart_group_def res_splits py_item_dict up_value_def dict_has_def
          py_in_def split: sum.splits option.splits if_splits pyval.splits)
    then show ?thesis using None by (simp add: went_back_def)
  next
    case (Some v)
    then obtain gd ms up where g: "g = PDict gd" "dict_get gd ''metrics'' = Some (PDict ms)"
      "dict_get ms SYS_UP_TIME = Some (PDict up)" "dict_get up ''value'' = Some v"
      by (auto simp: up_value_def split: pyval.splits option.splits)
    show ?thesis
      using assms(1-3) w Some
      by (auto simp: check_restart_group_def g dict_item_def dict_has_def went_back_def res_splits
          split: sum.splits option.splits if_splits)
  qed
qed

text \<open>
  When the uptime of a device went back compared with the stored one, and only then, the walk
  task of the device is saved to run at once, provided that the scheduler has it.
\<close>

theorem restart_triggers_walk:
  assumes "check_restart from_key target address groups = (cmds, Inr ())"
    and "dict_get target ''sysUpTime'' = Some (PDict old)" "dict_get old ''value'' = Some ov"
    and "from_key (''redbeat:'' @ walk_name address) = Inr e"
  shows "(\<exists>e'. ETask (TcSave e') \<in> set cmds) \<longleftrightarrow> (\<exists>kg \<in> set groups. went_back ov (snd kg))"
  using assms(1)
proof (induction groups arbitrary: cmds)
  case (Cons kg groups)
  obtain k g where kg: "kg = (k, g)" by fastforce
  obtain c1 c2 where c: "check_restart_group from_key target address g = (c1, Inr ())"
    "check_restart from_key target address groups = (c2, Inr ())" "cmds = c1 @ c2"
    using Cons.prems kg by (auto simp: eff_bind_def split: prod.splits sum.splits)
  show ?case
    using check_restart_group_task [OF c(1) assms(2-4)] Cons.IH [OF c(2)] c(3) kg by auto
qed simp

theorem restart_triggers_walk_witness:
  "\<exists>cmds e. check_restart (\<lambda>_. Inr []) [(''sysUpTime'', PDict [(''value'', PInt 9)])] ''h''
     [(''g'', PDict [(''metrics'', PDict [(SYS_UP_TIME, PDict [(''value'', PInt 5), (''type'', PStr ''g''), (''oid'', PStr [])])])])]
     = (cmds, Inr ()) \<and> ETask (TcSave e) \<in> set cmds"
proof -
  let ?g = "PDict [(''metrics'', PDict [(SYS_UP_TIME, PDict [(''value'', PInt 5), (''type'', PStr ''g''), (''oid'', PStr [])])])]"
  let ?t = "[(''sysUpTime'', PDict [(''value'', PInt 9)])]"
  obtain w where w: "trigger_walk_after_restart (\<lambda>_. Inr []) ''h'' = [TcSave w]"
    using trigger_walk_existing [where from_key = "\<lambda>_. Inr []" and address = "''h''"] by blast
  obtain cmds where c: "check_restart (\<lambda>_. Inr []) ?t ''h'' [(''g'', ?g)] = (cmds, Inr ())"
    by (simp add: check_restart_group_def dict_get_Cons dict_item_def dict_has_def py_int_def eff_bind_def)
  have "went_back (PInt 9) ?g"
    by (simp add: went_back_def up_value_def dict_get_Cons py_int_def)
  then show ?thesis
    using restart_triggers_walk [OF c, of "[(''value'', PInt 9)]" "PInt 9"] c by (auto simp: dict_get_Cons)
qed

end
