(* ===== verification/InventorySetup.thy ===== *)
theory InventorySetup
  imports Poller
begin

text \<open>
  What is set up after a walk (\<^verbatim>\<open>splunk_connect_for_snmp/inventory/tasks.py\<close>): the profiles that
  apply to a host (static, smart, mandatory and conditional ones), the database query of a
  conditional profile, and the poll tasks of the host.

  The search with a regular expression, the answer to the query and the scheduler are
  parameters.  Frequencies are integers, as the schemas of the profiles ask; in the assignment
  a frequency may also be absent.
\<close>

section \<open>Assigning profiles\<close>

type_synonym assigned = "(pyval, string list) dict"   \<comment> \<open>frequency to names\<close>

definition add_profile_to_assigned_list :: "pyval \<Rightarrow> string \<Rightarrow> assigned \<Rightarrow> assigned" where
  "add_profile_to_assigned_list frequency profile_name a =
     dict_set frequency (dict_get_or a frequency [] @ [profile_name]) a"

definition condition_type :: "pyval \<Rightarrow> pyval result" where
  \<comment> \<open>\<open>profile["condition"]["type"]\<close>\<close>
  "condition_type profile = res_bind (py_item profile ''condition'') (\<lambda>c. py_item c ''type'')"

definition res_and :: "bool result \<Rightarrow> (unit \<Rightarrow> bool result) \<Rightarrow> bool result" where
  \<comment> \<open>\<open>and\<close>: the right side is evaluated only when the left one holds\<close>
  "res_and a b = res_bind a (\<lambda>x. if x then b () else Inr False)"

definition is_smart_profile_valid :: "pyval \<Rightarrow> bool result" where
  "is_smart_profile_valid profile =
     res_bind (res_bind (py_get profile ''disabled'' (PBool False)) (\<lambda>d. human_bool d False)) (\<lambda>disabled.
     if disabled then Inr False
     else res_and (py_in ''frequency'' profile) (\<lambda>_.
          res_and (py_in ''condition'' profile) (\<lambda>_.
          res_bind (py_item profile ''condition'') (\<lambda>c.
          res_and (py_in ''type'' c) (\<lambda>_.
          res_bind (py_item c ''type'') (\<lambda>t.
            if t = PStr ''base'' then Inr True
            else if t = PStr ''field''
            then res_and (py_in ''field'' c) (\<lambda>_.
                 res_and (py_in ''patterns'' c) (\<lambda>_.
                 res_map is_plist (py_item c ''patterns'')))
            else Inr False))))))"

type_synonym search_fn = "string \<Rightarrow> string \<Rightarrow> bool result"   \<comment> \<open>\<open>re.search(pattern, text)\<close>\<close>

fun search_all :: "search_fn \<Rightarrow> pyval list \<Rightarrow> pyval \<Rightarrow> pyval \<Rightarrow> string \<Rightarrow> assigned \<Rightarrow> assigned result" where
  \<comment> \<open>the loop over the patterns; a value that is no text cannot be searched\<close>
  "search_all search [] value frequency profile_name a = Inr a"
| "search_all search (p # ps) value frequency profile_name a =
     res_bind (case (p, value) of (PStr pat, PStr s) \<Rightarrow> search pat s | _ \<Rightarrow> Inl TypeError) (\<lambda>hit.
       search_all search ps value frequency profile_name
         (if hit then add_profile_to_assigned_list frequency profile_name a else a))"

definition assign_field_smart_profile ::
  "search_fn \<Rightarrow> pyval \<Rightarrow> string \<Rightarrow> pyval \<Rightarrow> assigned \<Rightarrow> assigned result" where
  "assign_field_smart_profile search profile profile_name target a =
     res_bind (py_in ''state'' target) (\<lambda>has_state.
     if \<not> has_state then Inr a
     else res_bind (py_item profile ''condition'') (\<lambda>c.
          res_bind (py_item c ''field'') (\<lambda>fv.
          res_bind (case fv of PStr s \<Rightarrow> Inr (str_replace ''.'' ''|'' s) | _ \<Rightarrow> Inl AttributeError) (\<lambda>field.
          res_bind (py_item target ''state'') (\<lambda>state.
          res_bind (py_in field state) (\<lambda>has_field.
          if \<not> has_field then Inr a
          else res_bind (py_item state field) (\<lambda>cs.
               res_bind (py_in ''value'' cs) (\<lambda>has_value.
               if \<not> has_value then Inr a
               else res_bind (py_item c ''patterns'') (\<lambda>pv.
                    res_bind (py_iter pv) (\<lambda>patterns.
                    res_bind (py_item cs ''value'') (\<lambda>value.
                    res_bind (if patterns = [] then Inr PNone else py_item profile ''frequency'') (\<lambda>frequency.
                      search_all search patterns value frequency profile_name a)))))))))))) "

definition assign_smart_profile ::
  "search_fn \<Rightarrow> bool \<Rightarrow> pyval \<Rightarrow> string \<times> pyval \<Rightarrow> assigned \<Rightarrow> assigned result" where
  "assign_smart_profile search poll_base target = (\<lambda>(profile_name, profile) a.
     res_bind (is_smart_profile_valid profile) (\<lambda>valid.
     if \<not> valid then Inr a
     else res_bind (condition_type profile) (\<lambda>t.
          if t = PStr ''base'' \<and> poll_base
          then res_map (\<lambda>f. add_profile_to_assigned_list f profile_name a) (py_item profile ''frequency'')
          else if t = PStr ''field'' then assign_field_smart_profile search profile profile_name target a
          else Inr a)))"

definition assign_smart_profiles ::
  "search_fn \<Rightarrow> bool \<Rightarrow> inventory_record \<Rightarrow> doc \<Rightarrow> pyval \<Rightarrow> assigned \<Rightarrow> assigned result" where
  "assign_smart_profiles search poll_base ir profiles target a =
     (if py_truthy (rec_field ir ''smart_profiles'')
      then res_fold (assign_smart_profile search poll_base target) profiles a else Inr a)"

type_synonym computed = "(string \<times> pyval) list"

definition check_profile_type ::
  "doc \<Rightarrow> string \<Rightarrow> assigned \<times> computed \<Rightarrow> (assigned \<times> computed) result" where
  "check_profile_type profiles profile_name = (\<lambda>(a, computed).
     (case dict_get profiles profile_name of
        None \<Rightarrow> Inr (a, computed)
      | Some profile \<Rightarrow>
          (let static = res_bind (py_in ''frequency'' profile) (\<lambda>has.
                 if \<not> has then Inr (a, computed)
                 else res_map (\<lambda>f. (add_profile_to_assigned_list f profile_name a, computed))
                        (py_item profile ''frequency'')) in
           res_bind (py_in ''condition'' profile) (\<lambda>has_condition.
           if has_condition
           then res_bind (res_bind (py_item profile ''condition'') (\<lambda>c. py_get c ''type'' PNone)) (\<lambda>t.
                if t = PStr ''walk'' then Inr (a, computed) else static)
           else res_bind (py_in ''conditions'' profile) (\<lambda>has_conditions.
                if has_conditions then Inr (a, computed @ [(profile_name, profile)]) else static)))))"

definition check_profiles_type ::
  "inventory_record \<Rightarrow> doc \<Rightarrow> assigned \<times> computed \<Rightarrow> (assigned \<times> computed) result" where
  "check_profiles_type ir profiles s =
     res_bind (py_iter (rec_field ir ''profiles'')) (\<lambda>names.
     res_fold (\<lambda>n s. case n of PStr name \<Rightarrow> check_profile_type profiles name s | _ \<Rightarrow> Inr s) names s)"

definition mandatory_profiles :: "doc \<Rightarrow> (string \<times> pyval) list result" where
  "mandatory_profiles profiles =
     res_map concat (res_list (\<lambda>(profile_name, profile).
        res_bind (py_get profile ''condition'' (PDict [])) (\<lambda>c.
        res_bind (py_get c ''type'' PNone) (\<lambda>t.
          if t = PStr ''mandatory''
          then res_map (\<lambda>f. [(profile_name, f)]) (py_get profile ''frequency'' PNone) else Inr []))) profiles)"

definition assign_profiles ::
  "search_fn \<Rightarrow> bool \<Rightarrow> inventory_record \<Rightarrow> doc \<Rightarrow> pyval \<Rightarrow> (assigned \<times> computed) result" where
  "assign_profiles search poll_base ir profiles target =
     res_bind (record_key ir) (\<lambda>_.
     res_bind (assign_smart_profiles search poll_base ir profiles target []) (\<lambda>a.
     res_bind (check_profiles_type ir profiles (a, [])) (\<lambda>(a, computed).
     res_map (\<lambda>ms. (fold (\<lambda>(n, f). add_profile_to_assigned_list f n) ms a, computed))
       (mandatory_profiles profiles))))"

section \<open>Conditional profiles\<close>

definition mongo_operator :: "bool \<Rightarrow> string \<Rightarrow> string" where
  \<comment> \<open>\<open>profile_mappings\<close>, for a negated condition and an operation\<close>
  "mongo_operator negate operation =
     (if operation = ''equals'' then (if negate then ''$ne'' else ''$eq'')
      else if operation = ''gt'' then (if negate then ''$lte'' else ''$gt'')
      else if operation = ''lt'' then (if negate then ''$gte'' else ''$lt'')
      else if operation = ''in'' then (if negate then ''$nin'' else ''$in'')
      else if operation = ''regex'' then ''$regex''
      else [])"

definition parse_mib_component :: "string \<Rightarrow> string result" where
  "parse_mib_component field =
     (let components = str_split ''|'' field in
      if length components < 2 then Inl BadlyFormattedFieldError else Inr (hd components))"

definition str_strip_chars :: "char list \<Rightarrow> string \<Rightarrow> string" where
  "str_strip_chars cs s = rev (dropWhile (\<lambda>c. c \<in> set cs) (rev (dropWhile (\<lambda>c. c \<in> set cs) s)))"

definition prepare_regex :: "string \<Rightarrow> pyval" where
  "prepare_regex value =
     (let pattern = str_split ''/'' (str_strip_chars ''/'' value) in
      if 1 < length pattern then PList (map PStr pattern) else PStr (hd pattern))"

definition get_value_for_operation :: "string \<Rightarrow> pyval \<Rightarrow> pyval result" where
  "get_value_for_operation operation value =
     (if operation \<in> {''lt'', ''gt''} then convert_to_float value False
      else if operation = ''in''
      then res_bind (py_iter value) (\<lambda>xs. res_map PList (res_list (\<lambda>x. convert_to_float x True) xs))
      else if operation = ''regex''
      then (case value of PStr s \<Rightarrow> Inr (prepare_regex s) | PBytes _ \<Rightarrow> Inl TypeError | _ \<Rightarrow> Inl AttributeError)
      else Inr value)"

definition prepare_query_input :: "string \<Rightarrow> pyval \<Rightarrow> string \<Rightarrow> bool \<Rightarrow> string \<Rightarrow> pyval" where
  "prepare_query_input operation value field negate mongo_op =
     (let query = (case value of
             PList (v0 # v1 # _) \<Rightarrow>
               if operation = ''regex'' then PDict [(mongo_op, v0), (''$options'', v1)] else PDict [(mongo_op, value)]
           | _ \<Rightarrow> PDict [(mongo_op, value)]);
          query' = (if operation = ''regex'' \<and> negate then PDict [(''$not'', query)] else query)
      in PDict [(''fields.'' @ field @ ''.value'', query')])"

definition create_filter :: "pyval \<Rightarrow> (string \<times> pyval) result" where
  \<comment> \<open>one condition: its field and its filter\<close>
  "create_filter condition =
     res_bind (py_item condition ''field'') (\<lambda>fv.
     res_bind (case fv of PStr s \<Rightarrow> Inr (str_replace ''.'' ''|'' s) | _ \<Rightarrow> Inl AttributeError) (\<lambda>field.
     res_bind (py_item condition ''value'') (\<lambda>value.
     res_bind (py_get condition ''negate_operation'' (PBool False)) (\<lambda>nv.
     res_bind (human_bool nv False) (\<lambda>negate.
     res_bind (py_item condition ''operation'') (\<lambda>ov.
     res_bind (case ov of PStr s \<Rightarrow> Inr (str_lower s) | _ \<Rightarrow> Inl AttributeError) (\<lambda>operation.
     res_map (\<lambda>v. (field, prepare_query_input operation v field negate (mongo_operator negate operation)))
       (get_value_for_operation operation value))))))))"

definition create_query :: "pyval \<Rightarrow> string \<Rightarrow> pyval result" where
  \<comment> \<open>without any condition the variable \<open>field\<close> is unbound\<close>
  "create_query conditions address =
     res_bind (py_iter conditions) (\<lambda>cs.
     res_bind (res_list create_filter cs) (\<lambda>filters.
     if filters = [] then Inl OtherError
     else res_map (\<lambda>mib. PDict [(''$and'', PList
               ([PDict [(''address'', PStr address)],
                 PDict [(''group_key_hash'', PDict [(''$regex'', PStr (''^'' @ mib))])]] @ map snd filters))])
            (parse_mib_component (fst (last filters)))))"

definition create_profile :: "string \<Rightarrow> pyval \<Rightarrow> pyval \<Rightarrow> doc list \<Rightarrow> doc result" where
  "create_profile profile_name frequency varbinds records =
     res_map (\<lambda>vbs. [(profile_name, PDict [(''frequency'', frequency), (''varBinds'', PList (concat vbs))])])
       (res_list (\<lambda>record.
          res_bind (py_iter varbinds) (\<lambda>vbs.
          res_map concat (res_list (\<lambda>vb.
            case vb of
              PList xs \<Rightarrow>
                if length xs \<noteq> 2 then Inr []
                else res_bind (dict_item record ''indexes'') (\<lambda>ix.
                     case ix of PList ys \<Rightarrow> Inr [PList (xs @ ys)] | _ \<Rightarrow> Inl TypeError)
            | _ \<Rightarrow> Inl TypeError) vbs))) records)"

definition filter_condition_on_database :: "(pyval \<Rightarrow> doc list) \<Rightarrow> string \<Rightarrow> pyval \<Rightarrow> doc list result" where
  \<comment> \<open>the first argument answers the query, with the fields that are asked for\<close>
  "filter_condition_on_database find_attributes address conditions =
     res_map find_attributes (create_query conditions address)"

definition generate_conditional_profile ::
  "(pyval \<Rightarrow> doc list) \<Rightarrow> string \<Rightarrow> pyval \<Rightarrow> string \<Rightarrow> doc result" where
  \<comment> \<open>the first argument answers the query\<close>
  "generate_conditional_profile find_attributes profile_name body address =
     res_bind (py_get body ''conditions'' PNone) (\<lambda>conditions.
     res_bind (py_get body ''varBinds'' PNone) (\<lambda>varbinds.
     res_bind (py_get body ''frequency'' PNone) (\<lambda>frequency.
     if \<not> py_truthy varbinds then Inl BadlyFormattedFieldError
     else res_bind (filter_condition_on_database find_attributes address conditions)
            (create_profile profile_name frequency varbinds))))"

section \<open>The task\<close>

datatype setup_cmd = SReplaceProfile string doc | STask tcmd

definition generate_poll_task_definition ::
  "string \<Rightarrow> assigned \<Rightarrow> pyval \<Rightarrow> pyval \<Rightarrow> pyval \<Rightarrow> task_data result" where
  "generate_poll_task_definition address assigned_profiles period expiry grp =
     (case period of
        PInt i \<Rightarrow> Inr (poll_task_definition address i grp (remdups (dict_get_or assigned_profiles period [])) expiry)
      | _ \<Rightarrow> Inl TypeError)"

record setup_env =
  su_search :: search_fn
  su_poll_base :: bool
  su_profiles :: doc
  su_resolves :: "string \<Rightarrow> pyval \<Rightarrow> bool"
  su_inventory :: "string \<Rightarrow> int \<Rightarrow> doc option"
  su_target :: pyval                     \<comment> \<open>the target document, or \<open>None\<close>\<close>
  su_find :: "pyval \<Rightarrow> doc list"
  su_scan :: scan_fn
  su_from_key :: from_key_fn

fun setup_conditional ::
  "setup_env \<Rightarrow> string \<Rightarrow> computed \<Rightarrow> assigned \<Rightarrow> (setup_cmd, assigned) effect" where
  \<comment> \<open>a profile that cannot be generated is skipped\<close>
  "setup_conditional env address [] a = ([], Inr a)"
| "setup_conditional env address ((name, body) # rest) a =
     (let tag = name @ ''__'' @ str_replace ''.'' ''|'' address in
      case generate_conditional_profile (su_find env) tag body address of
        Inl _ \<Rightarrow> setup_conditional env address rest a
      | Inr generated \<Rightarrow>
          eff_bind ([SReplaceProfile tag generated], py_item body ''frequency'') (\<lambda>f.
            setup_conditional env address rest (add_profile_to_assigned_list f tag a)))"

fun setup_polls ::
  "setup_env \<Rightarrow> string \<Rightarrow> pyval \<Rightarrow> pyval \<Rightarrow> assigned \<Rightarrow> pyval list \<Rightarrow> string list \<Rightarrow> (setup_cmd, string list) effect" where
  \<comment> \<open>the loop over the periods; the names of the tasks are collected\<close>
  "setup_polls env address expiry grp a [] active = ([], Inr active)"
| "setup_polls env address expiry grp a (period # periods) active =
     eff_bind ([], generate_poll_task_definition address a period expiry grp) (\<lambda>td.
     eff_bind (case manage_task (su_from_key env) td of
                 Inl e \<Rightarrow> ([], Inl e) | Inr cmds \<Rightarrow> (map STask cmds, Inr ())) (\<lambda>_.
       setup_polls env address expiry grp a periods (active @ [attr_str ''name'' td])))"

definition inventory_setup_poller :: "setup_env \<Rightarrow> doc \<Rightarrow> (setup_cmd, unit) effect" where
  "inventory_setup_poller env work =
     eff_bind ([], res_bind (dict_item work ''address'') py_str) (\<lambda>address.
     let grp = dict_get_or work ''group'' PNone; expiry = dict_get_or work ''chain_of_tasks_expiry_time'' PNone in
     eff_bind ([], get_inventory (su_resolves env) (su_inventory env) address) (\<lambda>ir.
     eff_bind ([], assign_profiles (su_search env) (su_poll_base env) ir (su_profiles env) (su_target env))
       (\<lambda>(assigned0, computed).
     eff_bind (setup_conditional env address computed assigned0) (\<lambda>a.
     eff_bind (setup_polls env address expiry grp a (dict_keys a) []) (\<lambda>active.
     case delete_unused_poll_tasks (su_scan env) (su_from_key env) address active of
       Inl e \<Rightarrow> ([], Inl e)
     | Inr cmds \<Rightarrow> (map STask cmds, Inr ()))))))"

section \<open>Assignments\<close>

definition has_profile :: "assigned \<Rightarrow> pyval \<Rightarrow> string \<Rightarrow> bool" where
  "has_profile a f n \<longleftrightarrow> n \<in> set (dict_get_or a f [])"

lemma has_profile_add [simp]:
  "has_profile (add_profile_to_assigned_list f n a) g m \<longleftrightarrow> has_profile a g m \<or> g = f \<and> m = n"
  by (auto simp: has_profile_def add_profile_to_assigned_list_def dict_get_or_def split: option.splits)

lemma has_profile_fold:
  "has_profile (fold (\<lambda>(n, f). add_profile_to_assigned_list f n) ms a) g m \<longleftrightarrow>
     has_profile a g m \<or> (m, g) \<in> set ms"
proof (induction ms arbitrary: a)
  case (Cons x ms)
  obtain n f where x: "x = (n, f)" by fastforce
  show ?case using Cons.IH [of "add_profile_to_assigned_list f n a"] unfolding x by auto
qed simp

definition is_mandatory :: "pyval \<Rightarrow> bool" where
  "is_mandatory profile \<longleftrightarrow>
     (\<exists>d c. profile = PDict d \<and> dict_get d ''condition'' = Some (PDict c) \<and>
            dict_get c ''type'' = Some (PStr ''mandatory''))"

lemma mandatory_profiles_has:
  assumes "mandatory_profiles profiles = Inr ms" "(n, profile) \<in> set profiles" "is_mandatory profile"
    and "py_get profile ''frequency'' PNone = Inr f"
  shows "(n, f) \<in> set ms"
proof -
  obtain d c where d: "profile = PDict d" "dict_get d ''condition'' = Some (PDict c)"
    "dict_get c ''type'' = Some (PStr ''mandatory'')"
    using assms(3) unfolding is_mandatory_def by blast
  let ?f = "\<lambda>(profile_name, profile).
        res_bind (py_get profile ''condition'' (PDict [])) (\<lambda>c.
        res_bind (py_get c ''type'' PNone) (\<lambda>t.
          if t = PStr ''mandatory''
          then res_map (\<lambda>f. [(profile_name, f)]) (py_get profile ''frequency'' PNone) else Inr []))"
  obtain yss where y: "res_list ?f profiles = Inr yss" "ms = concat yss"
    using assms(1) unfolding mandatory_profiles_def by (auto simp only: res_map_Inr)
  have "?f (n, profile) = Inr [(n, f)]"
    using d assms(4) by (simp add: dict_get_or_def)
  then have "[(n, f)] \<in> set yss" using res_list_image [OF y(1) assms(2)] by auto
  then show ?thesis using y(2) by (auto intro!: bexI [of _ "[(n, f)]"])
qed

text \<open>
  C31.  Every mandatory profile of the configuration is assigned, under its frequency, to every
  host, whatever profiles the host lists and whether or not it takes smart profiles.
\<close>

theorem mandatory_profiles_assigned:
  assumes "assign_profiles search poll_base ir profiles target = Inr (a, computed)"
    and "(n, PDict d) \<in> set profiles" "is_mandatory (PDict d)" "dict_get d ''frequency'' = Some f"
  shows "has_profile a f n"
proof -
  obtain a0 ms where "mandatory_profiles profiles = Inr ms"
    "a = fold (\<lambda>(n, f). add_profile_to_assigned_list f n) ms a0"
    using assms(1) by (auto simp: assign_profiles_def res_splits)
  then show ?thesis
    using mandatory_profiles_has [OF _ assms(2,3), of ms f] assms(4)
    by (simp add: has_profile_fold dict_get_or_def)
qed

definition mandatory_sample :: doc where
  "mandatory_sample = [(''m'', PDict [(''frequency'', PInt 60), (''condition'', PDict [(''type'', PStr ''mandatory'')])])]"

theorem mandatory_profiles_assigned_witness:
  "\<exists>a computed. assign_profiles (\<lambda>_ _. Inr False) True
      [(''address'', PStr ''h''), (''port'', PInt 161), (''profiles'', PList [])] mandatory_sample PNone = Inr (a, computed) \<and>
    has_profile a (PInt 60) ''m''"
proof -
  let ?ir = "[(''address'', PStr ''h''), (''port'', PInt 161), (''profiles'', PList [])]"
  have "is_ok (assign_profiles (\<lambda>_ _. Inr False) True ?ir mandatory_sample PNone)"
    by (simp add: assign_profiles_def record_key_def rec_field_def dict_get_or_def dict_get_Cons py_str_def
        transform_address_to_key_def py_truthy_def py_int_def assign_smart_profiles_def check_profiles_type_def
        py_iter_def mandatory_profiles_def mandatory_sample_def)
  then obtain a computed where a: "assign_profiles (\<lambda>_ _. Inr False) True ?ir mandatory_sample PNone = Inr (a, computed)"
    by (auto simp: res_splits)
  have "has_profile a (PInt 60) ''m''"
    by (rule mandatory_profiles_assigned [OF a, of _ "[(''frequency'', PInt 60), (''condition'', PDict [(''type'', PStr ''mandatory'')])]"])
       (simp_all add: mandatory_sample_def is_mandatory_def dict_get_Cons)
  with a show ?thesis by blast
qed

section \<open>A stored value that is a number\<close>

text \<open>
  A smart profile with a condition on a field whose stored value is a number makes the
  assignment fail as a whole, so no poll task of the host is set up: only texts can be
  searched, and the poller stores every text that reads as a number as that number.
\<close>

theorem numeric_state_blocks_setup:
  assumes "py_truthy (rec_field ir ''smart_profiles'')" "record_key ir = Inr key"
    and "is_smart_profile_valid (PDict d) = Inr True" "dict_get d ''condition'' = Some (PDict c)"
    and "dict_get c ''type'' = Some (PStr ''field'')" "dict_get c ''field'' = Some (PStr fld)"
    and "dict_get c ''patterns'' = Some (PList (p # ps))"
    and "dict_get t ''state'' = Some (PDict st)" "dict_get st (str_replace ''.'' ''|'' fld) = Some (PDict cs)"
    and "dict_get cs ''value'' = Some (PFloat x)"
  shows "assign_profiles search poll_base ir ((n, PDict d) # rest) (PDict t) = Inl TypeError"
proof -
  have freq: "\<exists>f. dict_get d ''frequency'' = Some f"
    using assms(3) by (cases "dict_get d ''frequency''")
      (auto simp: is_smart_profile_valid_def res_and_def dict_has_def res_splits split: if_splits)
  then have "assign_field_smart_profile search (PDict d) n (PDict t) [] = Inl TypeError"
    using assms by (cases p) (auto simp: assign_field_smart_profile_def dict_has_def dict_item_def py_iter_def)
  then have "assign_smart_profile search poll_base (PDict t) (n, PDict d) [] = Inl TypeError"
    using assms by (simp add: assign_smart_profile_def condition_type_def dict_item_def)
  then show ?thesis using assms(1,2) by (simp add: assign_profiles_def assign_smart_profiles_def)
qed

definition field_profile :: doc where
  "field_profile = [(''frequency'', PInt 60), (''condition'', PDict [(''type'', PStr ''field''),
     (''field'', PStr ''f''), (''patterns'', PList [PStr ''x''])])]"

theorem numeric_state_blocks_setup_witness:
  "assign_profiles (\<lambda>_ _. Inr True) True
     [(''address'', PStr ''h''), (''port'', PInt 161), (''smart_profiles'', PBool True)]
     [(''p'', PDict field_profile)]
     (PDict [(''state'', PDict [(''f'', PDict [(''value'', PFloat (FFin 1))])])]) = Inl TypeError"
proof -
  have r: "str_replace ''.'' ''|'' ''f'' = ''f''" by code_simp
  show ?thesis
    by (rule numeric_state_blocks_setup [where key = "''h:161''" and fld = "''f''" and p = "PStr ''x''" and ps = "[]"
          and c = "[(''type'', PStr ''field''), (''field'', PStr ''f''), (''patterns'', PList [PStr ''x''])]"
          and st = "[(''f'', PDict [(''value'', PFloat (FFin 1))])]" and cs = "[(''value'', PFloat (FFin 1))]" and x = "FFin 1"])
       (simp_all add: rec_field_def dict_get_or_def dict_get_Cons record_key_def py_str_def py_truthy_def r
         transform_address_to_key_def py_int_def field_profile_def is_smart_profile_valid_def human_bool_def
         res_and_def dict_has_def dict_item_def is_plist_def)
qed

section \<open>The varbinds of a conditional profile\<close>

text \<open>
  C32.  A generated profile asks, for every object found in the database in turn, for every
  two-part varbind of the conditional profile at the index of that object, and for nothing
  else.
\<close>

theorem create_profile_varbinds:
  assumes "create_profile name frequency (PList (map PList vbs)) records = Inr profile"
    and "\<forall>r \<in> set records. dict_get r ''indexes'' = Some (PList (ix r))"
  shows "profile = [(name, PDict [(''frequency'', frequency),
    (''varBinds'', PList (concat (map (\<lambda>r. map (\<lambda>xs. PList (xs @ ix r)) (filter (\<lambda>xs. length xs = 2) vbs)) records)))])]"
proof -
  have inner: "res_list (\<lambda>vb. case vb of
              PList xs \<Rightarrow>
                if length xs \<noteq> 2 then Inr []
                else res_bind (dict_item r ''indexes'') (\<lambda>ix.
                     case ix of PList ys \<Rightarrow> Inr [PList (xs @ ys)] | _ \<Rightarrow> Inl TypeError)
            | _ \<Rightarrow> Inl TypeError) (map PList vbs) =
      Inr (map (\<lambda>xs. if length xs = 2 then [PList (xs @ ix r)] else []) vbs)"
    if "dict_get r ''indexes'' = Some (PList (ix r))" for r
    using that by (induction vbs) (simp_all add: dict_item_def)
  have flat: "concat (map (\<lambda>xs. if length xs = 2 then [f xs] else []) ys) = map f (filter (\<lambda>xs. length xs = 2) ys)"
    for f :: "pyval list \<Rightarrow> pyval" and ys
    by (induction ys) auto
  have "res_list (\<lambda>record.
          res_bind (py_iter (PList (map PList vbs))) (\<lambda>vbs.
          res_map concat (res_list (\<lambda>vb.
            case vb of
              PList xs \<Rightarrow>
                if length xs \<noteq> 2 then Inr []
                else res_bind (dict_item record ''indexes'') (\<lambda>ix.
                     case ix of PList ys \<Rightarrow> Inr [PList (xs @ ys)] | _ \<Rightarrow> Inl TypeError)
            | _ \<Rightarrow> Inl TypeError) vbs))) records =
      Inr (map (\<lambda>r. map (\<lambda>xs. PList (xs @ ix r)) (filter (\<lambda>xs. length xs = 2) vbs)) records)"
    by (rule res_list_Inr) (use assms(2) inner flat in \<open>simp add: py_iter_def\<close>)
  then show ?thesis using assms(1) unfolding create_profile_def by simp
qed

theorem create_profile_varbinds_witness:
  "create_profile ''p'' (PInt 60) (PList (map PList [[PStr ''A''], [PStr ''A'', PStr ''b'']])) [[(''indexes'', PList [PInt 1])]] =
     Inr [(''p'', PDict [(''frequency'', PInt 60), (''varBinds'', PList [PList [PStr ''A'', PStr ''b'', PInt 1]])])]"
proof -
  obtain profile where p: "create_profile ''p'' (PInt 60) (PList (map PList [[PStr ''A''], [PStr ''A'', PStr ''b'']]))
      [[(''indexes'', PList [PInt 1])]] = Inr profile"
    by (simp add: create_profile_def py_iter_def dict_item_def dict_get_Cons)
  then show ?thesis
    using create_profile_varbinds [OF p, of "\<lambda>_. [PInt 1]"] by (simp add: dict_get_Cons)
qed

section \<open>The poll tasks of a host\<close>

lemma poll_task_name [simp]:
  "attr_str ''name'' (poll_task_definition address i grp ps expiry) = poll_name address i"
  by (simp add: attr_str_def poll_task_definition_def set_kwargs_def)

lemma setup_polls_managed:
  assumes "setup_polls env address expiry grp a periods active = (cmds, Inr active')"
  shows "\<exists>is managed. periods = map PInt is \<and> active' = active @ map (poll_name address) is \<and>
    cmds = map STask (concat managed) \<and>
    res_list (manage_task (su_from_key env))
      (map (\<lambda>i. poll_task_definition address i grp (remdups (dict_get_or a (PInt i) [])) expiry) is) = Inr managed"
  using assms
proof (induction periods arbitrary: active cmds)
  case (Cons p ps)
  then obtain i where i: "p = PInt i"
    by (cases p) (auto simp: eff_bind_def generate_poll_task_definition_def)
  let ?td = "poll_task_definition address i grp (remdups (dict_get_or a (PInt i) [])) expiry"
  have td: "generate_poll_task_definition address a (PInt i) expiry grp = Inr ?td"
    by (simp add: generate_poll_task_definition_def)
  obtain ms where ms: "manage_task (su_from_key env) ?td = Inr ms"
    using Cons.prems i td by (cases "manage_task (su_from_key env) ?td") auto
  obtain cs r where rest: "setup_polls env address expiry grp a ps (active @ [poll_name address i]) = (cs, r)"
    by fastforce
  have "r = Inr active'" and cmds: "cmds = map STask ms @ cs" using Cons.prems i td ms rest by auto
  then obtain "is" managed where "ps = map PInt is" "active' = (active @ [poll_name address i]) @ map (poll_name address) is"
    "cs = map STask (concat managed)"
    "res_list (manage_task (su_from_key env))
      (map (\<lambda>i. poll_task_definition address i grp (remdups (dict_get_or a (PInt i) [])) expiry) is) = Inr managed"
    using Cons.IH rest by blast
  then show ?case
    using i ms cmds by (intro exI [of _ "i # is"] exI [of _ "ms # managed"]) simp
qed simp

definition is_task_cmd :: "setup_cmd \<Rightarrow> bool" where
  "is_task_cmd c = (case c of STask _ \<Rightarrow> True | SReplaceProfile _ _ \<Rightarrow> False)"

lemma setup_conditional_no_tasks:
  "filter is_task_cmd (fst (setup_conditional env address ps a)) = []"
proof (induction env address ps a rule: setup_conditional.induct)
  case (2 env address name body rest a)
  then show ?case
    by (cases "py_item body ''frequency''") (auto simp: is_task_cmd_def Let_def split: sum.split)
qed simp

lemma filter_STask [simp]: "filter is_task_cmd (map STask cs) = map STask cs"
  by (induction cs) (simp_all add: is_task_cmd_def)

lemma setup_success:
  assumes "inventory_setup_poller env work = (cmds, Inr ())"
    and "res_bind (dict_item work ''address'') py_str = Inr address"
  shows "\<exists>ir a0 computed cond a is managed deletions.
    get_inventory (su_resolves env) (su_inventory env) address = Inr ir \<and>
    assign_profiles (su_search env) (su_poll_base env) ir (su_profiles env) (su_target env) = Inr (a0, computed) \<and>
    setup_conditional env address computed a0 = (cond, Inr a) \<and>
    dict_keys a = map PInt is \<and>
    res_list (manage_task (su_from_key env))
      (map (\<lambda>i. poll_task_definition address i (dict_get_or work ''group'' PNone)
          (remdups (dict_get_or a (PInt i) [])) (dict_get_or work ''chain_of_tasks_expiry_time'' PNone)) is) = Inr managed \<and>
    delete_unused_poll_tasks (su_scan env) (su_from_key env) address (map (poll_name address) is) = Inr deletions \<and>
    filter is_task_cmd cmds = map STask (concat managed @ deletions)"
proof -
  have bind: "eff_bind m f = (cs, Inr y) \<longleftrightarrow>
      (\<exists>ds es x. m = (ds, Inr x) \<and> f x = (es, Inr y) \<and> cs = ds @ es)"
    for m :: "(setup_cmd, 'x) effect" and f :: "'x \<Rightarrow> (setup_cmd, 'y) effect" and cs y
    by (cases m; cases "snd m") (auto simp: eff_bind_def split: prod.splits)
  have cleanup: "(case x of Inl e \<Rightarrow> ([], Inl e) | Inr ts \<Rightarrow> (map STask ts, Inr ())) = (es, Inr ()) \<longleftrightarrow>
      (\<exists>ts. x = Inr ts \<and> es = map STask ts)" for x :: "tcmd list result" and es
    by (cases x) auto
  let ?grp = "dict_get_or work ''group'' PNone"
  let ?expiry = "dict_get_or work ''chain_of_tasks_expiry_time'' PNone"
  obtain ir computed a0 a cond polls active ds where
    ir: "get_inventory (su_resolves env) (su_inventory env) address = Inr ir"
      "assign_profiles (su_search env) (su_poll_base env) ir (su_profiles env) (su_target env) = Inr (a0, computed)" and
    cond: "setup_conditional env address computed a0 = (cond, Inr a)" and
    polls: "setup_polls env address ?expiry ?grp a (dict_keys a) [] = (polls, Inr active)" and
    unused: "delete_unused_poll_tasks (su_scan env) (su_from_key env) address active = Inr ds" and
    cmds: "cmds = cond @ polls @ map STask ds"
    using assms by (auto simp: inventory_setup_poller_def bind cleanup Let_def split: prod.splits)
  obtain "is" managed where "is": "dict_keys a = map PInt is" "active = map (poll_name address) is"
      "polls = map STask (concat managed)"
      "res_list (manage_task (su_from_key env))
        (map (\<lambda>i. poll_task_definition address i ?grp (remdups (dict_get_or a (PInt i) [])) ?expiry) is) = Inr managed"
    using setup_polls_managed [OF polls] by auto
  have none: "filter is_task_cmd cond = []" using setup_conditional_no_tasks [of env address computed a0] cond by simp
  have "filter is_task_cmd cmds = map STask (concat managed @ ds)" by (simp add: cmds none "is"(3))
  then show ?thesis using ir cond "is"(1,4) unused [unfolded "is"(2)] by blast
qed

text \<open>
  Setting up a host manages one poll task for every period that has profiles assigned, with
  those profiles, and deletes no other task than poll tasks of other names: never one that it
  has just set up.
\<close>

theorem setup_keeps_active_polls:
  assumes "inventory_setup_poller env work = (cmds, Inr ())"
    and "res_bind (dict_item work ''address'') py_str = Inr address"
  shows "\<exists>ir a0 computed cond a is managed deletions.
    get_inventory (su_resolves env) (su_inventory env) address = Inr ir \<and>
    assign_profiles (su_search env) (su_poll_base env) ir (su_profiles env) (su_target env) = Inr (a0, computed) \<and>
    setup_conditional env address computed a0 = (cond, Inr a) \<and>
    dict_keys a = map PInt is \<and>
    res_list (manage_task (su_from_key env))
      (map (\<lambda>i. poll_task_definition address i (dict_get_or work ''group'' PNone)
          (remdups (dict_get_or a (PInt i) [])) (dict_get_or work ''chain_of_tasks_expiry_time'' PNone)) is) = Inr managed \<and>
    filter is_task_cmd cmds = map STask (concat managed @ deletions) \<and>
    (\<forall>n. STask (TcDelete n) \<in> set cmds \<longrightarrow> n \<notin> poll_name address ` set is)"
proof -
  obtain ir a0 computed cond a "is" managed deletions where s:
    "get_inventory (su_resolves env) (su_inventory env) address = Inr ir"
    "assign_profiles (su_search env) (su_poll_base env) ir (su_profiles env) (su_target env) = Inr (a0, computed)"
    "setup_conditional env address computed a0 = (cond, Inr a)" "dict_keys a = map PInt is"
    "res_list (manage_task (su_from_key env))
      (map (\<lambda>i. poll_task_definition address i (dict_get_or work ''group'' PNone)
          (remdups (dict_get_or a (PInt i) [])) (dict_get_or work ''chain_of_tasks_expiry_time'' PNone)) is) = Inr managed"
    "delete_unused_poll_tasks (su_scan env) (su_from_key env) address (map (poll_name address) is) = Inr deletions"
    "filter is_task_cmd cmds = map STask (concat managed @ deletions)"
    using setup_success [OF assms] by blast
  have "n \<notin> poll_name address ` set is" if "STask (TcDelete n) \<in> set cmds" for n
  proof -
    have "STask (TcDelete n) \<in> set (filter is_task_cmd cmds)" using that by (simp add: is_task_cmd_def)
    then have "TcDelete n \<in> set (concat managed) \<or> TcDelete n \<in> set deletions"
      by (auto simp: s(7) simp del: set_concat)
    then have "TcDelete n \<in> set deletions" using sink.manage_all_keeps [OF s(5)] by blast
    then have "n \<notin> set (map (poll_name address) is)" by (rule delete_unused_poll_tasks_spares [OF s(6)])
    then show ?thesis by simp
  qed
  then show ?thesis using s by blast
qed

definition sample_setup :: setup_env where
  "sample_setup = \<lparr>su_search = (\<lambda>_ _. Inr True), su_poll_base = True, su_profiles = mandatory_sample,
     su_resolves = (\<lambda>_ _. True), su_inventory = (\<lambda>_ _. Some sample_given), su_target = PDict [],
     su_find = (\<lambda>_. []), su_scan = (\<lambda>_. []), su_from_key = (\<lambda>_. Inl KeyError)\<rparr>"

definition sample_work :: doc where
  "sample_work = [(''address'', PStr ''h'')]"

lemma sample_setup_runs:
  "inventory_setup_poller (sample_setup\<lparr>su_scan := scan, su_from_key := from_key\<rparr>) sample_work =
    eff_bind (setup_polls (sample_setup\<lparr>su_scan := scan, su_from_key := from_key\<rparr>) ''h'' PNone PNone [(PInt 60, [''m''])] [PInt 60] [])
      (\<lambda>active. case delete_unused_poll_tasks scan from_key ''h'' active of
        Inl e \<Rightarrow> ([], Inl e) | Inr cmds \<Rightarrow> (map STask cmds, Inr ()))"
proof -
  have inv: "get_inventory (\<lambda>_ _. True) (\<lambda>_ _. Some sample_given) ''h'' = Inr valid_sample"
    using sample_given_valid
    by (simp add: get_inventory_def return_address_and_port_def sample_given_def dict_del_def str_rcut_def)
  have prof: "assign_profiles (\<lambda>_ _. Inr True) True valid_sample mandatory_sample (PDict []) = Inr ([(PInt 60, [''m''])], [])"
    by code_simp
  show ?thesis
    by (simp add: inventory_setup_poller_def eff_bind_def inv prof sample_setup_def sample_work_def dict_item_def
        dict_get_Cons dict_get_or_def py_str_def dict_keys_def Let_def)
qed

lemma sample_setup_ok: "is_ok (snd (inventory_setup_poller sample_setup sample_work))"
proof -
  have "sample_setup = sample_setup\<lparr>su_scan := (\<lambda>_. []), su_from_key := (\<lambda>_. Inl KeyError)\<rparr>"
    by (simp add: sample_setup_def)
  moreover have "is_ok (snd (eff_bind (setup_polls (sample_setup\<lparr>su_scan := (\<lambda>_. []), su_from_key := (\<lambda>_. Inl KeyError)\<rparr>)
      ''h'' PNone PNone [(PInt 60, [''m''])] [PInt 60] [])
      (\<lambda>active. case delete_unused_poll_tasks (\<lambda>_. []) (\<lambda>_. Inl KeyError) ''h'' active of
        Inl e \<Rightarrow> ([], Inl e) | Inr cmds \<Rightarrow> (map STask cmds, Inr ()))))"
    by code_simp
  ultimately show ?thesis using sample_setup_runs [where scan = "\<lambda>_. []" and from_key = "\<lambda>_. Inl KeyError"] by simp
qed

theorem setup_keeps_active_polls_witness:
  "\<exists>cmds. inventory_setup_poller sample_setup sample_work = (cmds, Inr ()) \<and>
     (\<exists>is. \<forall>n. STask (TcDelete n) \<in> set cmds \<longrightarrow> n \<notin> poll_name ''h'' ` set is)"
proof -
  obtain cmds where s: "inventory_setup_poller sample_setup sample_work = (cmds, Inr ())"
    using sample_setup_ok by (metis (full_types) is_ok_iff old.unit.exhaust prod.collapse)
  have "res_bind (dict_item sample_work ''address'') py_str = Inr ''h''" by code_simp
  from setup_keeps_active_polls [OF s this]
  obtain "is" where "\<forall>n. STask (TcDelete n) \<in> set cmds \<longrightarrow> n \<notin> poll_name ''h'' ` set is"
    by (elim exE conjE) rule
  with s show ?thesis by (intro exI conjI)
qed

end
