(* ===== verification/Schedule.thy ===== *)
theory Schedule
  imports InventorySetup
begin

text \<open>
  The scheduler's store as the periodic tasks see it, and what the setup of a host
  (\<^verbatim>\<open>inventory/tasks.py\<close>) makes of it: the commands that the operations of \<^verbatim>\<open>customtaskmanager.py\<close>
  send are carried out on a dictionary of entries by name, and the readers of the store return what
  is in it.
\<close>

section \<open>The store\<close>

type_synonym schedule = "(string, task_data) dict"

definition exec_task :: "(string \<Rightarrow> schedule \<Rightarrow> schedule) \<Rightarrow> tcmd \<Rightarrow> schedule \<Rightarrow> schedule" where
  \<comment> \<open>the entries after a command; how the scheduler finds the entries of a target is the first
      argument, and when an entry runs next does not change which entries there are\<close>
  "exec_task drop_target c st =
     (case c of
        TcDelete n \<Rightarrow> dict_del n st
      | TcSave e \<Rightarrow> dict_set (attr_str ''name'' e) e st
      | TcReschedule _ \<Rightarrow> st
      | TcRunImmediately _ \<Rightarrow> st
      | TcDeleteTarget t \<Rightarrow> drop_target t st)"

definition store_key :: "string \<Rightarrow> string" where
  "store_key n = ''redbeat:'' @ n"

definition key_of_target :: "string \<Rightarrow> string \<Rightarrow> bool" where
  \<comment> \<open>the keys that the pattern of a target matches\<close>
  "key_of_target target n = str_contains (store_key n) (target @ '';'')"

definition reads_store :: "schedule \<Rightarrow> string \<Rightarrow> scan_fn \<Rightarrow> from_key_fn \<Rightarrow> bool" where
  \<comment> \<open>the readers return what is in the store, whose entries are stored under their names\<close>
  "reads_store st target scan from_key \<longleftrightarrow>
     dict_wf st \<and> (\<forall>(n, e) \<in> set st. attr_str ''name'' e = n) \<and>
     (\<forall>n. from_key (store_key n) = (case dict_get st n of None \<Rightarrow> Inl KeyError | Some e \<Rightarrow> Inr e)) \<and>
     set (scan (''*'' @ target @ '';*'')) = store_key ` {n \<in> set (dict_keys st). key_of_target target n}"

definition reads_entries :: "schedule \<Rightarrow> from_key_fn \<Rightarrow> bool" where
  \<comment> \<open>the reader of entries returns what is in the store, where they are under their names\<close>
  "reads_entries st from_key \<longleftrightarrow>
     (\<forall>n. from_key (store_key n) = (case dict_get st n of None \<Rightarrow> Inl KeyError | Some e \<Rightarrow> Inr e)) \<and>
     (\<forall>n e. dict_get st n = Some e \<longrightarrow> attr_str ''name'' e = n)"

lemma reads_store_entries: "reads_store st target scan from_key \<Longrightarrow> reads_entries st from_key"
  by (auto simp: reads_store_def reads_entries_def dest: dict_get_SomeD)

section \<open>Managing tasks\<close>

definition saved_task :: "from_key_fn \<Rightarrow> task_data \<Rightarrow> task_data" where
  \<comment> \<open>what managing a task saves\<close>
  "saved_task from_key td =
     (case from_key (store_key (attr_str ''name'' td)) of
        Inr old \<Rightarrow> fold (\<lambda>arg e. case dict_get td arg of None \<Rightarrow> e | Some v \<Rightarrow> dict_set arg v e) args_list old
      | Inl _ \<Rightarrow> td)"

definition complete_task :: "string \<Rightarrow> task_data \<Rightarrow> bool" where
  \<comment> \<open>a definition that can be set up under a name\<close>
  "complete_task n td \<longleftrightarrow> dict_get td ''name'' = Some (PStr n) \<and>
     (\<forall>f \<in> set REQUIRED_NEW_TASK_FIELDS. dict_get_or td f PNone \<noteq> PNone)"

lemma manage_task_saves:
  assumes "manage_task from_key td = Inr cmds" "complete_task n td"
  shows "\<exists>rest. cmds = TcSave (saved_task from_key td) # rest \<and> set rest \<subseteq> {TcReschedule n}"
proof -
  have n: "attr_str ''name'' td = n" using assms(2) by (simp add: complete_task_def attr_str_def)
  have f: "filter (\<lambda>f. dict_get_or td f PNone = PNone) REQUIRED_NEW_TASK_FIELDS = []"
    using assms(2) by (simp add: complete_task_def filter_empty_conv)
  show ?thesis
  proof (cases "from_key (store_key n)")
    case (Inl e)
    then show ?thesis
      using assms n f by (cases e) (auto simp: manage_task_def complete_task_def saved_task_def store_key_def Let_def)
  next
    case (Inr old)
    then show ?thesis
      using assms n by (auto simp: manage_task_def complete_task_def saved_task_def store_key_def Let_def)
  qed
qed

lemma saved_task_get:
  "dict_get (saved_task from_key td) k =
     (case from_key (store_key (attr_str ''name'' td)) of
        Inr old \<Rightarrow> if k \<in> set args_list \<and> dict_has td k then dict_get td k else dict_get old k
      | Inl _ \<Rightarrow> dict_get td k)"
  by (auto simp: saved_task_def fold_args_get split: sum.split)

lemma saved_task_name:
  assumes "reads_entries st from_key" "complete_task n td"
  shows "attr_str ''name'' (saved_task from_key td) = n"
proof -
  have n: "attr_str ''name'' td = n" using assms(2) by (simp add: complete_task_def attr_str_def)
  show ?thesis
  proof (cases "dict_get st n")
    case None
    then show ?thesis using assms(1) n by (simp add: reads_entries_def saved_task_def)
  next
    case (Some e)
    then have "attr_str ''name'' e = n" "from_key (store_key n) = Inr e"
      using assms(1) by (simp_all add: reads_entries_def)
    then show ?thesis
      using n by (simp add: attr_str_def saved_task_get args_list_def)
  qed
qed

text \<open>Managing a complete task saves the task of its name and does nothing to any other.\<close>

definition saves :: "string \<Rightarrow> task_data \<Rightarrow> tcmd list \<Rightarrow> bool" where
  "saves n e ts \<longleftrightarrow> attr_str ''name'' e = n \<and> (\<exists>rest. ts = TcSave e # rest \<and> set rest \<subseteq> {TcReschedule n})"

lemma manage_task_saves_entry:
  assumes "manage_task from_key td = Inr ts" "complete_task n td" "reads_entries st from_key"
  shows "saves n (saved_task from_key td) ts"
  using manage_task_saves [OF assms(1,2)] saved_task_name [OF assms(3,2)] by (auto simp: saves_def)

lemma exec_saves:
  assumes "saves n e ts"
  shows "fold (exec_task dt) ts st = dict_set n e st"
proof -
  obtain rest where ts: "ts = TcSave e # rest" "attr_str ''name'' e = n" "set rest \<subseteq> {TcReschedule n}"
    using assms by (auto simp: saves_def)
  have "fold (exec_task dt) rest u = u" for u
    using ts(3) by (induction rest arbitrary: u) (auto simp: exec_task_def)
  then show ?thesis by (simp add: ts(1,2) exec_task_def)
qed

lemma exec_managed:
  assumes "reads_entries st0 from_key"
    and "res_list (manage_task from_key) (map td is) = Inr managed"
    and "\<And>i. complete_task (name i) (td i)" "inj name"
  shows "dict_get (fold (exec_task dt) (concat managed) st) m =
    (if m \<in> name ` set is then Some (saved_task from_key (td (the_inv name m))) else dict_get st m)"
  using assms(2)
proof (induction "is" arbitrary: managed st)
  case (Cons i "is")
  then obtain cmds rest where m: "manage_task from_key (td i) = Inr cmds" "managed = cmds # rest"
      "res_list (manage_task from_key) (map td is) = Inr rest"
    by (auto simp: res_splits)
  have "fold (exec_task dt) cmds st = dict_set (name i) (saved_task from_key (td i)) st"
    by (rule exec_saves [OF manage_task_saves_entry [OF m(1) assms(3,1)]])
  then show ?case
    using Cons.IH [OF m(3)] by (auto simp: m(2) the_inv_f_f [OF assms(4)])
qed simp


text \<open>A reader of entries taken from a store, for the witnesses.\<close>

definition store_entry :: "schedule \<Rightarrow> from_key_fn" where
  "store_entry st k = (case dict_get st (drop 8 k) of None \<Rightarrow> Inl KeyError | Some e \<Rightarrow> Inr e)"

lemma named_entries:
  "dict_get (fold (exec_task (\<lambda>_ st. st)) ts st) n = Some e \<Longrightarrow>
    (\<And>n e. dict_get st n = Some e \<Longrightarrow> attr_str ''name'' e = n) \<Longrightarrow> attr_str ''name'' e = n"
proof (induction ts arbitrary: st)
  case (Cons t ts)
  show ?case
    using Cons.prems(1) unfolding fold_simps(2) comp_apply
    by (rule Cons.IH) (use Cons.prems(2) in \<open>auto simp: exec_task_def split: tcmd.splits if_splits\<close>)
qed simp

lemma store_entry_reads:
  assumes "\<And>n e. dict_get st n = Some e \<Longrightarrow> attr_str ''name'' e = n"
  shows "reads_entries (fold (exec_task (\<lambda>_ st. st)) ts st) (store_entry (fold (exec_task (\<lambda>_ st. st)) ts st))"
proof -
  have "drop 8 (store_key n) = n" for n by (simp add: store_key_def)
  moreover have "attr_str ''name'' e = n" if "dict_get (fold (exec_task (\<lambda>_ st. st)) ts st) n = Some e" for n e
    using that assms by (rule named_entries)
  ultimately show ?thesis by (simp add: reads_entries_def store_entry_def)
qed

section \<open>Cleaning up\<close>

lemma load_schedules_present:
  assumes "load_schedules scan from_key p = Inr es" "\<And>k. k \<in> set (scan p) \<Longrightarrow> is_ok (from_key k)"
  shows "set es = {e. \<exists>k \<in> set (scan p). from_key k = Inr e}"
proof -
  let ?f = "\<lambda>key. case from_key key of Inr e \<Rightarrow> Inr (Some e) | Inl KeyError \<Rightarrow> Inr None | Inl ValueError \<Rightarrow> Inr None | Inl e \<Rightarrow> Inl e"
  have "set (somes os) = {e. \<exists>k \<in> set ks. from_key k = Inr e}"
    if "res_list ?f ks = Inr os" "\<And>k. k \<in> set ks \<Longrightarrow> is_ok (from_key k)" for ks os
    using that
  proof (induction ks arbitrary: os)
    case (Cons k ks)
    obtain e where "from_key k = Inr e" using Cons.prems(2) [of k] by (auto simp: is_ok_iff)
    then show ?case using Cons by (auto simp: res_splits)
  qed simp
  then show ?thesis using assms by (auto simp: load_schedules_def res_splits)
qed

lemma cleanup_deletes:
  assumes "reads_store st target scan from_key"
    and "delete_unused_poll_tasks scan from_key target active = Inr cmds"
  shows "set cmds = TcDelete ` {n. \<exists>e. dict_get st n = Some e \<and> key_of_target target n \<and>
    attr_str ''task'' e = POLL_TASK \<and> n \<notin> set active}"
proof -
  obtain es where es: "load_schedules scan from_key (''*'' @ target @ '';*'') = Inr es"
      "cmds = map (\<lambda>e. TcDelete (attr_str ''name'' e))
        (filter (\<lambda>e. attr_str ''task'' e = POLL_TASK \<and> attr_str ''name'' e \<notin> set active) es)"
    using assms(2) by (auto simp: delete_unused_poll_tasks_def get_schedules_by_target_def res_splits)
  have keys: "set (scan (''*'' @ target @ '';*'')) = store_key ` {n \<in> set (dict_keys st). key_of_target target n}"
    and entry: "from_key (store_key n) = (case dict_get st n of None \<Rightarrow> Inl KeyError | Some e \<Rightarrow> Inr e)"
    and name: "dict_get st n = Some e \<Longrightarrow> attr_str ''name'' e = n" for n e
    using assms(1) dict_get_SomeD [of st n e] by (auto simp: reads_store_def)
  have ok: "is_ok (from_key k)" if "k \<in> set (scan (''*'' @ target @ '';*''))" for k
    using that dict_get_None_iff [of st] unfolding keys by (auto simp: entry split: option.split)
  have "set es = {e. \<exists>k \<in> set (scan (''*'' @ target @ '';*'')). from_key k = Inr e}"
    by (rule load_schedules_present [OF es(1)]) (erule ok)
  then have "set es = {e. \<exists>n. dict_get st n = Some e \<and> key_of_target target n}"
    unfolding keys by (auto simp: entry dict_get_key split: option.splits)
  then show ?thesis using name by (auto simp: es(2))
qed

lemma exec_deletions:
  "set ds \<subseteq> range TcDelete \<Longrightarrow>
    dict_get (fold (exec_task dt) ds st) m = (if TcDelete m \<in> set ds then None else dict_get st m)"
  by (induction ds arbitrary: st) (auto simp: exec_task_def split: if_splits)

text \<open>
  The setup reads the store through the same readers before and after it saves the poll tasks.  The
  cleanup would delete the same entries if it read the store again after that: what was saved in
  between are only entries that it spares.
\<close>

lemma cleanup_rereads:
  assumes "reads_store st target scan from_key" "reads_store st' target scan' from_key'"
    and "\<And>n. n \<notin> set active \<Longrightarrow> dict_get st' n = dict_get st n"
    and "delete_unused_poll_tasks scan from_key target active = Inr cmds"
    and "delete_unused_poll_tasks scan' from_key' target active = Inr cmds'"
  shows "set cmds' = set cmds"
  unfolding cleanup_deletes [OF assms(1,4)] cleanup_deletes [OF assms(2,5)] using assms(3) by auto

section \<open>The poll tasks of a host\<close>

lemma poll_task_complete: "complete_task (poll_name address i) (poll_task_definition address i grp ps expiry)"
  by (simp add: complete_task_def poll_task_definition_def schedule_of_def set_kwargs_def REQUIRED_NEW_TASK_FIELDS_def
      dict_get_or_def generate_task_definition_def dict_get_Cons)

lemma inj_poll_name: "inj (poll_name address)"
  by (auto simp: inj_def poll_name_def dest: int_text.show_inject [OF TrueI TrueI])


definition task_cmds :: "setup_cmd list \<Rightarrow> tcmd list" where
  \<comment> \<open>the commands to the scheduler\<close>
  "task_cmds cmds = concat (map (\<lambda>c. case c of STask t \<Rightarrow> [t] | _ \<Rightarrow> []) cmds)"

lemma task_cmds_filter: "task_cmds (filter is_task_cmd cmds) = task_cmds cmds"
  by (induction cmds) (auto simp: task_cmds_def is_task_cmd_def split: setup_cmd.split)

lemma task_cmds_STask [simp]: "task_cmds (map STask ts) = ts"
  by (induction ts) (auto simp: task_cmds_def)

definition poll_entry_name :: "string \<Rightarrow> int \<Rightarrow> string" where
  "poll_entry_name address i = ''sc4snmp;'' @ address @ '';'' @ str_of_int i @ '';poll''"

definition poll_entry ::
  "string \<Rightarrow> int \<Rightarrow> pyval \<Rightarrow> string list \<Rightarrow> pyval \<Rightarrow> task_data option \<Rightarrow> task_data \<Rightarrow> bool" where
  \<comment> \<open>the task that polls a host for the given profiles, each once, every so many seconds: a new entry is
     complete, an existing one keeps its name, its task and its options\<close>
  "poll_entry address i grp profiles expiry old e \<longleftrightarrow>
     dict_get e ''target'' = Some (PStr address) \<and>
     dict_get e ''schedule'' = Some (PTuple [PStr ''schedule'', PInt i]) \<and>
     dict_get e ''run_immediately'' = Some (PBool (300 < i)) \<and> dict_get e ''enabled'' = Some (PBool True) \<and>
     (\<exists>kw ps. dict_get e ''kwargs'' = Some (PDict kw) \<and> dict_get kw ''address'' = Some (PStr address) \<and>
        dict_get kw ''profiles'' = Some (PList (map PStr ps)) \<and> distinct ps \<and> set ps = set profiles \<and>
        dict_get kw ''frequency'' = Some (PInt i) \<and> dict_get kw ''priority'' = Some (PInt 2) \<and>
        dict_get kw ''group'' = (if py_truthy grp then Some grp else None)) \<and>
     (case old of
        Some known \<Rightarrow>
          (\<forall>k. k \<notin> {''target'', ''args'', ''kwargs'', ''run_immediately'', ''schedule'', ''enabled''} \<longrightarrow>
             dict_get e k = dict_get known k)
      | None \<Rightarrow>
          dict_get e ''name'' = Some (PStr (poll_entry_name address i)) \<and>
          dict_get e ''task'' = Some (PStr ''splunk_connect_for_snmp.snmp.tasks.poll'') \<and>
          expires_of e = expiry)"

lemma poll_definition_get:
  shows "dict_get (poll_task_definition address i grp ps expiry) ''target'' = Some (PStr address)"
    and "dict_get (poll_task_definition address i grp ps expiry) ''schedule'' = Some (PTuple [PStr ''schedule'', PInt i])"
    and "dict_get (poll_task_definition address i grp ps expiry) ''run_immediately'' = Some (PBool (300 < i))"
    and "dict_get (poll_task_definition address i grp ps expiry) ''enabled'' = Some (PBool True)"
    and "\<exists>kw. dict_get (poll_task_definition address i grp ps expiry) ''kwargs'' = Some (PDict kw) \<and>
        dict_get kw ''address'' = Some (PStr address) \<and> dict_get kw ''profiles'' = Some (PList (map PStr ps)) \<and>
        dict_get kw ''frequency'' = Some (PInt i) \<and> dict_get kw ''priority'' = Some (PInt 2) \<and>
        dict_get kw ''group'' = (if py_truthy grp then Some grp else None)"
    and "dict_get (poll_task_definition address i grp ps expiry) ''name'' = Some (PStr (poll_entry_name address i))"
    and "dict_get (poll_task_definition address i grp ps expiry) ''task'' =
        Some (PStr ''splunk_connect_for_snmp.snmp.tasks.poll'')"
    and "expires_of (poll_task_definition address i grp ps expiry) = expiry"
  unfolding poll_task_definition_def set_kwargs_def generate_task_definition_def
  by (simp_all add: dict_get_Cons schedule_of_def poll_name_def poll_entry_name_def POLL_TASK_def expires_of_def
      POLL_CHAIN_OF_TASKS_def dict_get_or_def poll_run_immediately_def)

lemma poll_task_saved:
  assumes "reads_store st target scan from_key"
  shows "poll_entry address i grp profiles expiry (dict_get st (poll_entry_name address i))
    (saved_task from_key (poll_task_definition address i grp (remdups profiles) expiry))"
proof -
  let ?td = "poll_task_definition address i grp (remdups profiles) expiry"
  note get = poll_definition_get [of address i grp "remdups profiles" expiry]
  have entry: "from_key (store_key (poll_entry_name address i)) =
      (case dict_get st (poll_entry_name address i) of None \<Rightarrow> Inl KeyError | Some e \<Rightarrow> Inr e)"
    using assms by (simp add: reads_store_def)
  have name: "attr_str ''name'' ?td = poll_entry_name address i" using get(6) by (simp add: attr_str_def)
  obtain kw where kw: "dict_get ?td ''kwargs'' = Some (PDict kw)" "dict_get kw ''address'' = Some (PStr address)"
    "dict_get kw ''profiles'' = Some (PList (map PStr (remdups profiles)))" "dict_get kw ''frequency'' = Some (PInt i)"
    "dict_get kw ''priority'' = Some (PInt 2)" "dict_get kw ''group'' = (if py_truthy grp then Some grp else None)"
    using get(5) by blast
  have task: "\<exists>kw' ps. Some (PDict kw) = Some (PDict kw') \<and> dict_get kw' ''address'' = Some (PStr address) \<and>
        dict_get kw' ''profiles'' = Some (PList (map PStr ps)) \<and> distinct ps \<and> set ps = set profiles \<and>
        dict_get kw' ''frequency'' = Some (PInt i) \<and> dict_get kw' ''priority'' = Some (PInt 2) \<and>
        dict_get kw' ''group'' = (if py_truthy grp then Some grp else None)"
    using kw(2-6) by (intro exI [of _ kw] exI [of _ "remdups profiles"]) simp
  show ?thesis
  proof (cases "dict_get st (poll_entry_name address i)")
    case None
    then have "from_key (store_key (attr_str ''name'' ?td)) = Inl KeyError" unfolding name using entry by simp
    then have "saved_task from_key ?td = ?td" unfolding saved_task_def by (simp only: sum.case)
    then show ?thesis using None get(1-4,6-8) task unfolding poll_entry_def by (simp only: kw(1) option.case)
  next
    case (Some old)
    have e: "dict_get (saved_task from_key ?td) k =
        (if k \<in> set args_list \<and> dict_has ?td k then dict_get ?td k else dict_get old k)" for k
    proof -
      have "from_key (store_key (attr_str ''name'' ?td)) = Inr old" unfolding name using entry Some by simp
      then show ?thesis unfolding saved_task_get by (simp only: sum.case)
    qed
    have new: "dict_get (saved_task from_key ?td) k = Some v" if "k \<in> set args_list" "dict_get ?td k = Some v" for k v
      using that by (simp add: e dict_has_def)
    have args: "set args_list = {''target'', ''args'', ''kwargs'', ''run_immediately'', ''schedule'', ''enabled''}"
      by (simp add: args_list_def)
    have "dict_get (saved_task from_key ?td) ''kwargs'' = Some (PDict kw)"
      by (rule new [OF _ kw(1)]) (simp add: args)
    moreover have "\<forall>k. k \<notin> {''target'', ''args'', ''kwargs'', ''run_immediately'', ''schedule'', ''enabled''} \<longrightarrow>
        dict_get (saved_task from_key ?td) k = dict_get old k"
      unfolding args [symmetric] e by simp
    ultimately show ?thesis
      using new [OF _ get(1)] new [OF _ get(2)] new [OF _ get(3)] new [OF _ get(4)] task
      unfolding poll_entry_def Some option.case by (simp add: args)
  qed
qed

text \<open>
  C10.  Setting up a host brings the scheduler in line with the profiles assigned to it: for every
  period with profiles there is the task that polls the host for exactly those profiles every so
  many seconds, an existing one with its options as they were; every other poll task that the
  pattern of the host matches is gone; and every other entry is as it was.
\<close>

theorem setup_synchronizes_schedule:
  assumes "inventory_setup_poller env work = (cmds, Inr ())"
    and "res_bind (dict_item work ''address'') py_str = Inr address"
    and "reads_store st address (su_scan env) (su_from_key env)"
  shows "\<exists>ir a0 computed cond a is.
    get_inventory (su_resolves env) (su_inventory env) address = Inr ir \<and>
    assign_profiles (su_search env) (su_poll_base env) ir (su_profiles env) (su_target env) = Inr (a0, computed) \<and>
    setup_conditional env address computed a0 = (cond, Inr a) \<and> dict_keys a = map PInt is \<and>
    (\<forall>i \<in> set is. \<exists>e. dict_get (fold (exec_task dt) (task_cmds cmds) st) (poll_entry_name address i) = Some e \<and>
       poll_entry address i (dict_get_or work ''group'' PNone) (dict_get_or a (PInt i) [])
         (dict_get_or work ''chain_of_tasks_expiry_time'' PNone) (dict_get st (poll_entry_name address i)) e) \<and>
    (\<forall>n. n \<notin> poll_entry_name address ` set is \<longrightarrow>
       dict_get (fold (exec_task dt) (task_cmds cmds) st) n =
         (case dict_get st n of
            None \<Rightarrow> None
          | Some e \<Rightarrow> if key_of_target address n \<and> attr_str ''task'' e = ''splunk_connect_for_snmp.snmp.tasks.poll''
                      then None else Some e))"
proof -
  have names: "poll_entry_name = poll_name" by (intro ext) (simp add: poll_entry_name_def poll_name_def)
  let ?td = "\<lambda>a i. poll_task_definition address i (dict_get_or work ''group'' PNone)
    (remdups (dict_get_or a (PInt i) [])) (dict_get_or work ''chain_of_tasks_expiry_time'' PNone)"
  obtain ir a0 computed cond a "is" managed deletions where s:
    "get_inventory (su_resolves env) (su_inventory env) address = Inr ir"
    "assign_profiles (su_search env) (su_poll_base env) ir (su_profiles env) (su_target env) = Inr (a0, computed)"
    "setup_conditional env address computed a0 = (cond, Inr a)" "dict_keys a = map PInt is"
    "res_list (manage_task (su_from_key env)) (map (?td a) is) = Inr managed"
    "delete_unused_poll_tasks (su_scan env) (su_from_key env) address (map (poll_name address) is) = Inr deletions"
    "filter is_task_cmd cmds = map STask (concat managed @ deletions)"
    using setup_success [OF assms(1,2)] by blast
  have cmds: "task_cmds cmds = concat managed @ deletions"
    using task_cmds_filter [of cmds, symmetric] unfolding s(7) task_cmds_STask .
  note dels = cleanup_deletes [OF assms(3) s(6)]
  have range: "set deletions \<subseteq> range TcDelete" by (auto simp: dels)
  have exec: "dict_get (fold (exec_task dt) (task_cmds cmds) st) n =
      (if TcDelete n \<in> set deletions then None
       else if n \<in> poll_name address ` set is
            then Some (saved_task (su_from_key env) (?td a (the_inv (poll_name address) n))) else dict_get st n)" for n
    unfolding cmds fold_append comp_apply exec_deletions [OF range]
      exec_managed [OF reads_store_entries [OF assms(3)] s(5) poll_task_complete inj_poll_name] ..
  have "\<exists>e. dict_get (fold (exec_task dt) (task_cmds cmds) st) (poll_entry_name address i) = Some e \<and>
      poll_entry address i (dict_get_or work ''group'' PNone) (dict_get_or a (PInt i) [])
         (dict_get_or work ''chain_of_tasks_expiry_time'' PNone) (dict_get st (poll_entry_name address i)) e"
    if "i \<in> set is" for i
  proof -
    have "dict_get (fold (exec_task dt) (task_cmds cmds) st) (poll_name address i) =
        Some (saved_task (su_from_key env) (?td a i))"
      using that by (auto simp: exec dels the_inv_f_f [OF inj_poll_name])
    then show ?thesis using poll_task_saved [OF assms(3)] unfolding names by blast
  qed
  moreover have "dict_get (fold (exec_task dt) (task_cmds cmds) st) n =
      (case dict_get st n of
         None \<Rightarrow> None
       | Some e \<Rightarrow> if key_of_target address n \<and> attr_str ''task'' e = ''splunk_connect_for_snmp.snmp.tasks.poll''
                   then None else Some e)"
    if "n \<notin> poll_entry_name address ` set is" for n
    using that unfolding names by (auto simp: exec dels POLL_TASK_def split: option.split)
  ultimately show ?thesis using s(1-4) by blast
qed


definition sample_schedule :: schedule where
  "sample_schedule = [(''sc4snmp;h;60;poll'', sample_entry ''sc4snmp;h;60;poll'' POLL_TASK 60),
     (''sc4snmp;h;90;poll'', sample_entry ''sc4snmp;h;90;poll'' POLL_TASK 60),
     (''sc4snmp;i;60;poll'', sample_entry ''sc4snmp;i;60;poll'' POLL_TASK 60)]"

definition stored_setup :: setup_env where
  "stored_setup = sample_setup\<lparr>
     su_scan := (\<lambda>_. map store_key (filter (key_of_target ''h'') (dict_keys sample_schedule))),
     su_from_key := (\<lambda>k. case dict_get sample_schedule (drop 8 k) of None \<Rightarrow> Inl KeyError | Some e \<Rightarrow> Inr e)\<rparr>"

lemma stored_setup_reads: "reads_store sample_schedule ''h'' (su_scan stored_setup) (su_from_key stored_setup)"
proof -
  have "dict_wf sample_schedule" "\<forall>(n, e) \<in> set sample_schedule. attr_str ''name'' e = n" by code_simp+
  moreover have "drop 8 (store_key n) = n" for n by (simp add: store_key_def)
  ultimately show ?thesis by (auto simp: reads_store_def stored_setup_def)
qed


lemma stored_setup_ok: "is_ok (snd (inventory_setup_poller stored_setup sample_work))"
  unfolding stored_setup_def sample_setup_runs by code_simp

theorem setup_synchronizes_schedule_witness:
  "\<exists>cmds. inventory_setup_poller stored_setup sample_work = (cmds, Inr ()) \<and>
     dict_get (fold (exec_task (\<lambda>_ st. st)) (task_cmds cmds) sample_schedule) ''sc4snmp;i;60;poll'' \<noteq> None"
proof -
  obtain cmds where s: "inventory_setup_poller stored_setup sample_work = (cmds, Inr ())"
    using stored_setup_ok by (metis (full_types) is_ok_iff old.unit.exhaust prod.collapse)
  have "res_bind (dict_item sample_work ''address'') py_str = Inr ''h''" by code_simp
  from setup_synchronizes_schedule [OF s this stored_setup_reads, of "\<lambda>_ st. st"]
  obtain "is" where "\<forall>n. n \<notin> poll_entry_name ''h'' ` set is \<longrightarrow>
      dict_get (fold (exec_task (\<lambda>_ st. st)) (task_cmds cmds) sample_schedule) n =
        (case dict_get sample_schedule n of
           None \<Rightarrow> None
         | Some e \<Rightarrow> if key_of_target ''h'' n \<and> attr_str ''task'' e = ''splunk_connect_for_snmp.snmp.tasks.poll'' then None else Some e)"
    by (elim exE conjE) rule
  moreover have "''sc4snmp;i;60;poll'' \<notin> poll_entry_name ''h'' ` set is" by (auto simp: poll_entry_name_def)
  moreover have "\<not> key_of_target ''h'' ''sc4snmp;i;60;poll''" "dict_get sample_schedule ''sc4snmp;i;60;poll'' \<noteq> None" by code_simp+
  ultimately show ?thesis using s by (auto split: option.splits)
qed

end
