(* ===== verification/InventoryStore.thy ===== *)
theory InventoryStore
  imports Schedule
begin

text \<open>
  What the loading of the inventory (\<^verbatim>\<open>inventory/loader.py\<close>, \<^verbatim>\<open>common/inventory_processor.py\<close>)
  makes of the collection of inventory documents: the commands that it sends are carried out one
  after the other, and the result is compared with what the lines of the inventory ask for.
\<close>

section \<open>The collection\<close>

text \<open>
  The database is outside of the program.  The loader relies on a collection with one document for
  each address and port, in which an upsert sets the fields that it is given and leaves the other
  documents alone, and a deletion removes the document of its key.
\<close>

type_synonym host_id = "pyval \<times> pyval"

definition host_id :: "inventory_record \<Rightarrow> host_id" where
  \<comment> \<open>the filter of the upsert\<close>
  "host_id ir = (rec_field ir ''address'', rec_field ir ''port'')"

definition document_store ::
  "('c \<Rightarrow> host_id \<Rightarrow> doc option) \<Rightarrow> (inventory_record \<Rightarrow> 'c \<Rightarrow> 'c) \<Rightarrow> (host_id \<Rightarrow> 'c \<Rightarrow> 'c) \<Rightarrow> bool" where
  "document_store look upsert remove \<longleftrightarrow>
     (\<forall>ir c k. look (upsert ir c) k =
        (if k = host_id ir then Some (dict_update (case look c k of None \<Rightarrow> [] | Some d \<Rightarrow> d) ir) else look c k)) \<and>
     (\<forall>h c k. look (remove h c) k = (if k = h then None else look c k))"

lemma look_upsert:
  "document_store look upsert remove \<Longrightarrow> look (upsert ir c) k =
     (if k = host_id ir then Some (dict_update (case look c k of None \<Rightarrow> [] | Some d \<Rightarrow> d) ir) else look c k)"
  unfolding document_store_def by blast

lemma look_remove:
  "document_store look upsert remove \<Longrightarrow> look (remove h c) k = (if k = h then None else look c k)"
  unfolding document_store_def by blast

definition exec_inventory ::
  "(inventory_record \<Rightarrow> 'c \<Rightarrow> 'c) \<Rightarrow> (host_id \<Rightarrow> 'c \<Rightarrow> 'c) \<Rightarrow> inv_cmd \<Rightarrow> 'c \<Rightarrow> 'c" where
  \<comment> \<open>the collection of inventory documents after a command\<close>
  "exec_inventory upsert remove cmd c =
     (case cmd of
        IUpsertInventory ir \<Rightarrow> upsert ir c
      | IDeleteInventory address port \<Rightarrow> remove (PStr address, PInt port) c
      | _ \<Rightarrow> c)"

section \<open>What the lines ask for\<close>

definition line_record :: "inv_env \<Rightarrow> doc \<Rightarrow> source_record \<Rightarrow> inventory_record \<Rightarrow> inventory_record result" where
  \<comment> \<open>the record as it is saved\<close>
  "line_record env profiles line ir =
     res_bind (dict_item line ''profiles'') (\<lambda>ps.
     res_bind (case ps of PStr s \<Rightarrow> Inr (str_split '';'' s) | PBytes _ \<Rightarrow> Inl TypeError | _ \<Rightarrow> Inl AttributeError) (\<lambda>names.
     res_bind (return_walk_profile (enable_full_walk env) profiles names) (\<lambda>walk_profile.
       update_walk_interval walk_profile line ir)))"

definition line_write :: "inv_env \<Rightarrow> doc \<Rightarrow> source_record \<Rightarrow> (host_id \<times> inventory_record option) option" where
  \<comment> \<open>the host that a line is about, and the record to keep for it, or none to remove it\<close>
  "line_write env profiles line =
     (case InventoryRecord (name_resolves env) line of
        Inl _ \<Rightarrow> None
      | Inr ir \<Rightarrow>
          (if py_truthy (rec_field ir ''delete'')
           then (case py_str (rec_field ir ''address'') of
                   Inl _ \<Rightarrow> None | Inr a \<Rightarrow> Some ((PStr a, rec_field ir ''port''), None))
           else (case line_record env profiles line ir of
                   Inl _ \<Rightarrow> None | Inr saved \<Rightarrow> Some (host_id saved, Some saved))))"

definition last_write ::
  "inv_env \<Rightarrow> doc \<Rightarrow> source_record list \<Rightarrow> host_id \<Rightarrow> inventory_record option option" where
  \<comment> \<open>what the last line about a host asks for, if there is one\<close>
  "last_write env profiles lines k =
     fold (\<lambda>line w. case line_write env profiles line of
         Some (h, r) \<Rightarrow> if h = k then Some r else w | None \<Rightarrow> w) lines None"

section \<open>The commands of a line\<close>

lemma valid_record:
  assumes "InventoryRecord resolves line = Inr ir"
  obtains a p where "py_str (rec_field ir ''address'') = Inr a" "rec_field ir ''port'' = PInt p" "p \<noteq> 0"
proof -
  have "int_in 1 65535 (rec_field ir ''port'')" "address_ok resolves (rec_field ir ''address'')"
    using inventory_record_field [OF assms _ inventory_fields_ok(1)]
      inventory_record_field [OF assms _ inventory_fields_ok(2)] unfolding inventory_field_names by simp_all
  then show thesis
    by (auto simp: int_in_def address_ok_def py_str_def split: pyval.splits intro: that)
qed

lemma delete_record_of_host:
  assumes "transform_address_to_key a (PInt p) = Inr target" "p \<noteq> 0"
  shows "delete_record target = Inr (map ITask (delete_all_tasks_of_host target) @
    [IDeleteInventory a p, IDeleteTargets target, IDeleteAttributes target])"
proof -
  have "transform_key_to_address target = Inr (a, p)"
    using key_splits [OF assms(1)] assms(2) by (auto simp: port_number_def py_truthy_def py_int_def)
  then show ?thesis by (simp add: delete_record_def)
qed

lemma exec_ITask [simp]: "fold (exec_inventory upsert remove) (map ITask ts) c = c"
  by (induction ts) (simp_all add: exec_inventory_def)

lemma exec_ui [simp]: "fold (exec_inventory upsert remove) (delete_from_ui_inventory m ir) c = c"
  by (simp add: delete_from_ui_inventory_def exec_inventory_def)

lemma exec_failure [simp]: "fold (exec_inventory upsert remove) (fst (manage_failure env line)) c = c"
proof -
  have "fst (manage_failure env line) = [] \<or> (\<exists>f. fst (manage_failure env line) = [IDeleteUi f])"
    by (auto simp: manage_failure_def res_splits split: sum.split)
  then show ?thesis by (auto simp: exec_inventory_def)
qed

lemma key_total: "\<exists>target. transform_address_to_key a (PInt p) = Inr target"
  by (simp add: transform_address_to_key_def py_int_def py_str_def)

lemma update_record_writes:
  "fold (exec_inventory upsert remove) (fst (update_record env ir line profiles changed)) c =
    (case line_record env profiles line ir of Inl _ \<Rightarrow> c | Inr saved \<Rightarrow> upsert saved c)"
  by (simp add: update_record_def line_record_def exec_inventory_def res_bind_def res_map_def split: sum.split pyval.split)

lemma line_cmds_write:
  "fold (exec_inventory upsert remove) (line_cmds env profiles changed line) c =
    (case line_write env profiles line of
       None \<Rightarrow> c | Some (h, None) \<Rightarrow> remove h c | Some (h, Some saved) \<Rightarrow> upsert saved c)"
proof (cases "InventoryRecord (name_resolves env) line")
  case (Inl e)
  then show ?thesis by (simp add: line_cmds_def line_write_def manage_line_def)
next
  case (Inr ir)
  obtain a p where r: "py_str (rec_field ir ''address'') = Inr a" "rec_field ir ''port'' = PInt p" "p \<noteq> 0"
    using valid_record [OF Inr] .
  obtain target where t: "transform_address_to_key a (PInt p) = Inr target" using key_total by blast
  show ?thesis
  proof (cases "py_truthy (rec_field ir ''delete'')")
    case True
    then show ?thesis
      using Inr r t delete_record_of_host [OF t r(3)]
      by (simp add: line_cmds_def line_write_def manage_line_def delete_all_tasks_of_host_def exec_inventory_def)
  next
    case False
    then have "manage_line env profiles changed line = update_record env ir line profiles changed"
      using Inr r t by (simp add: manage_line_def)
    then show ?thesis
      using Inr False update_record_writes [of upsert remove env ir line profiles changed c]
      by (auto simp: line_cmds_def line_write_def split: prod.split option.split sum.split)
  qed
qed

section \<open>The collection after a loading\<close>

lemma manage_lines_returns:
  assumes "manage_lines env profiles changed lines errors = (cmds, Inr failed)"
  shows "cmds = lines_cmds env profiles changed lines"
  using assms
  by (induction lines arbitrary: env errors cmds)
     (auto simp: line_cmds_def split: prod.splits option.splits)

lemma delete_hosts_writes:
  assumes "delete_hosts hosts = (cmds, None)" "document_store look upsert remove"
  shows "look (fold (exec_inventory upsert remove) cmds c) k =
    (if \<exists>host a p. host \<in> set hosts \<and> transform_key_to_address host = Inr (a, p) \<and> k = (PStr a, PInt p)
     then None else look c k)"
  using assms(1)
proof (induction hosts arbitrary: cmds c)
  case (Cons host hosts)
  obtain own rest where d: "delete_record host = Inr own" "delete_hosts hosts = (rest, None)" "cmds = own @ rest"
    using Cons.prems by (auto split: sum.splits prod.splits)
  obtain a p where k: "transform_key_to_address host = Inr (a, p)"
      "own = map ITask (delete_all_tasks_of_host host) @ [IDeleteInventory a p, IDeleteTargets host, IDeleteAttributes host]"
    using d(1) by (auto simp: delete_record_def res_splits)
  have "fold (exec_inventory upsert remove) own c = remove (PStr a, PInt p) c"
    by (simp add: k(2) exec_inventory_def)
  then show ?case using look_remove [OF assms(2)] Cons.IH [OF d(2)] k(1) by (auto simp: d(3))
qed simp

lemma manage_lines_flag:
  assumes "manage_lines env profiles changed lines errors = (cmds, Inr failed)"
  shows "failed \<longleftrightarrow> errors \<or> lines_failed env profiles changed lines"
  using assms
proof (induction lines arbitrary: env errors cmds)
  case (Cons l lines)
  obtain own e where l: "manage_line env profiles changed l = (own, e)" by fastforce
  show ?case
  proof (cases e)
    case None
    then obtain rest where "manage_lines (after_cmds env own) profiles changed lines errors = (rest, Inr failed)"
      using Cons.prems l by (auto split: prod.splits)
    from Cons.IH [OF this] show ?thesis using l None by (simp add: line_failed_def line_cmds_def)
  next
    case (Some x)
    then obtain rep rest where "manage_failure env l = (rep, None)"
      "manage_lines (after_cmds env (own @ rep)) profiles changed lines True = (rest, Inr failed)"
      using Cons.prems l by (auto split: prod.splits option.splits)
    with Cons.IH [OF this(2)] show ?thesis using l Some by (simp add: line_failed_def line_cmds_def)
  qed
qed simp

lemma line_record_after [simp]: "line_record (after_cmds env cmds) profiles line ir = line_record env profiles line ir"
  unfolding line_record_def after_cmds_simps ..

lemma line_write_after [simp]: "line_write (after_cmds env cmds) profiles line = line_write env profiles line"
  unfolding line_write_def after_cmds_simps line_record_after ..

lemma last_write_after [simp]: "last_write (after_cmds env cmds) profiles lines k = last_write env profiles lines k"
  by (simp add: last_write_def)

definition keeps_write :: "(host_id \<Rightarrow> doc option) \<Rightarrow> (host_id \<Rightarrow> doc option) \<Rightarrow> host_id \<Rightarrow> inventory_record option option \<Rightarrow> bool" where
  \<comment> \<open>the document of a host is as it was, is gone, or has the fields asked for\<close>
  "keeps_write before after k w =
     (case w of
        None \<Rightarrow> after k = before k
      | Some None \<Rightarrow> after k = None
      | Some (Some ir) \<Rightarrow> (\<exists>d. after k = Some d \<and> (\<forall>f v. dict_get ir f = Some v \<longrightarrow> dict_get d f = Some v)))"

lemma line_write_record:
  assumes "line_write env profiles line = Some (h, Some saved)"
  shows "h = host_id saved \<and> dict_wf saved"
proof -
  obtain ir where ir: "InventoryRecord (name_resolves env) line = Inr ir" "line_record env profiles line ir = Inr saved"
      "h = host_id saved"
    using assms by (auto simp: line_write_def split: sum.splits if_splits)
  moreover have "dict_wf saved"
    using ir(2) inventory_record_wf [OF ir(1)]
    by (auto simp: line_record_def update_walk_interval_def res_splits split: if_splits)
  ultimately show ?thesis by simp
qed

lemma lines_write:
  assumes "document_store look upsert remove"
  shows "keeps_write (look c)
    (look (fold (exec_inventory upsert remove) (lines_cmds env profiles changed lines) c)) k
    (last_write env profiles lines k)"
proof (induction lines rule: rev_induct)
  case Nil
  show ?case by (simp add: keeps_write_def last_write_def)
next
  case (snoc line lines)
  let ?c = "fold (exec_inventory upsert remove) (lines_cmds env profiles changed lines) c"
  note laws = look_upsert [OF assms] look_remove [OF assms]
  have step: "last_write env profiles (lines @ [line]) k =
      (case line_write env profiles line of
         Some (h, r) \<Rightarrow> if h = k then Some r else last_write env profiles lines k
       | None \<Rightarrow> last_write env profiles lines k)"
    unfolding last_write_def by simp
  show ?case
  proof (cases "line_write env profiles line")
    case None
    then show ?thesis using snoc by (simp add: step lines_cmds_append line_cmds_write)
  next
    case (Some w)
    obtain h r where w: "w = (h, r)" by (rule prod.exhaust)
    show ?thesis
    proof (cases r)
      case None
      then show ?thesis using Some w snoc by (auto simp: step lines_cmds_append line_cmds_write laws keeps_write_def)
    next
      case (Some saved)
      then have "h = host_id saved" "dict_wf saved"
        using line_write_record \<open>line_write env profiles line = Some w\<close> w by blast+
      then show ?thesis
        using \<open>line_write env profiles line = Some w\<close> w Some snoc
        by (auto simp: step lines_cmds_append line_cmds_write laws keeps_write_def dict_get_update dict_get_rev)
    qed
  qed
qed

lemma records_follow_lines:
  assumes "document_store look upsert remove"
    and "manage_inventory_records env profiles changed hosts False lines = (cmds, Inr failed)"
  shows "(failed \<longleftrightarrow> lines_failed (after_cmds env (fst (delete_hosts hosts))) profiles changed lines) \<and>
    keeps_write
      (\<lambda>h. if \<exists>host a p. host \<in> set hosts \<and> transform_key_to_address host = Inr (a, p) \<and> h = (PStr a, PInt p)
           then None else look c h)
      (look (fold (exec_inventory upsert remove) cmds c)) k (last_write env profiles lines k)"
proof -
  obtain del rest where d: "delete_hosts hosts = (del, None)" "cmds = del @ rest"
      "manage_lines (after_cmds env del) profiles changed lines False = (rest, Inr failed)"
    using assms(2) by (auto simp: manage_inventory_records_def split: prod.splits option.splits)
  have "failed \<longleftrightarrow> lines_failed (after_cmds env (fst (delete_hosts hosts))) profiles changed lines"
    using manage_lines_flag [OF d(3)] d(1) by simp
  then show ?thesis
    using lines_write [OF assms(1), of "fold (exec_inventory upsert remove) del c" "after_cmds env del" profiles changed lines,
        unfolded last_write_after]
    unfolding manage_lines_returns [OF d(3)] d(2) fold_append comp_apply delete_hosts_writes [OF d(1) assms(1), abs_def]
    by blast
qed

definition inventory_cmds :: "load_cmd list \<Rightarrow> inv_cmd list" where
  \<comment> \<open>the commands that the records of the inventory gave\<close>
  "inventory_cmds cmds = concat (map (\<lambda>c. case c of LInv i \<Rightarrow> [i] | _ \<Rightarrow> []) cmds)"

lemma inventory_cmds_simps [simp]:
  "inventory_cmds [] = []" "inventory_cmds (cmds @ cmds') = inventory_cmds cmds @ inventory_cmds cmds'"
  "inventory_cmds (map LMigrate ms) = []" "inventory_cmds (map LUi us) = []" "inventory_cmds (map LTask ts) = []"
  "inventory_cmds (map LProfiles ps) = []" "inventory_cmds (map LGroups gs) = []" "inventory_cmds (map LInv is) = is"
proof -
  show "inventory_cmds (map LInv is) = is" by (induction "is") (simp_all add: inventory_cmds_def)
qed (simp_all add: inventory_cmds_def comp_def)

lemma eff_bind_Inr:
  "eff_bind m f = (cs, Inr y) \<longleftrightarrow> (\<exists>cs1 x cs2. m = (cs1, Inr x) \<and> f x = (cs2, Inr y) \<and> cs = cs1 @ cs2)"
  by (cases m; cases "snd m") (auto simp: eff_bind_def split: prod.splits)

lemma case_result_Inr:
  "(case r of Inl e \<Rightarrow> ([], Inl e) | Inr x \<Rightarrow> (g x, Inr (h x))) = (cs, Inr y) \<longleftrightarrow>
    (\<exists>x. r = Inr x \<and> cs = g x \<and> y = h x)"
  by (auto split: sum.split)

lemma eff_of_Inr: "eff_of f m = (cs, Inr xs) \<longleftrightarrow> m = (xs, None) \<and> cs = map f xs"
  by (cases m) (auto simp: eff_of_def split: option.split)

lemma inventory_cmds_migrate [simp]: "inventory_cmds (map LMigrate ms @ cmds) = inventory_cmds cmds"
  by simp

section \<open>Migrations\<close>

definition inventory_store ::
  "('c \<Rightarrow> host_id \<Rightarrow> doc option) \<Rightarrow> (inventory_record \<Rightarrow> 'c \<Rightarrow> 'c) \<Rightarrow> (host_id \<Rightarrow> 'c \<Rightarrow> 'c) \<Rightarrow> ('c \<Rightarrow> 'c) \<Rightarrow> bool" where
  \<comment> \<open>a collection whose last operation sets the group of every document to none\<close>
  "inventory_store look upsert remove ungroup \<longleftrightarrow>
     document_store look upsert remove \<and>
     (\<forall>c k. look (ungroup c) k = map_option (dict_set ''group'' PNone) (look c k))"

definition exec_load ::
  "(inventory_record \<Rightarrow> 'c \<Rightarrow> 'c) \<Rightarrow> (host_id \<Rightarrow> 'c \<Rightarrow> 'c) \<Rightarrow> ('c \<Rightarrow> 'c) \<Rightarrow> load_cmd \<Rightarrow> 'c \<Rightarrow> 'c" where
  \<comment> \<open>the collection of inventory documents after a command of a loading\<close>
  "exec_load upsert remove ungroup cmd c =
     (case cmd of
        LMigrate m \<Rightarrow> if m = UngroupInventory then ungroup c else c
      | LInv i \<Rightarrow> exec_inventory upsert remove i c
      | _ \<Rightarrow> c)"

definition before_version_5 :: "doc option \<Rightarrow> bool" where
  \<comment> \<open>the stored version of the schema, none for a new database\<close>
  "before_version_5 stored \<longleftrightarrow>
     (case stored of
        None \<Rightarrow> True
      | Some d \<Rightarrow> (case dict_get d ''version'' of Some (PInt i) \<Rightarrow> i < 5 | Some (PBool _) \<Rightarrow> True | _ \<Rightarrow> False))"

lemma fold_others:
  "\<forall>m. LMigrate m \<notin> set cmds \<Longrightarrow>
   fold (exec_load upsert remove ungroup) cmds c = fold (exec_inventory upsert remove) (inventory_cmds cmds) c"
  by (induction cmds arbitrary: c) (auto simp: exec_load_def inventory_cmds_def split: load_cmd.splits)

lemma migrations_of:
  assumes "migrate_database stored = (ms, None)"
  shows "fold (exec_load upsert remove ungroup) (map LMigrate ms) c = (if before_version_5 stored then ungroup c else c)"
proof -
  obtain v where v: "fetch_schema_version stored = Inr v"
    using assms by (cases "fetch_schema_version stored") (auto simp: migrate_database_def)
  then have before: "before_version_5 stored \<longleftrightarrow> v < 5"
    by (auto simp: fetch_schema_version_def before_version_5_def dict_item_def res_splits
        split: option.splits pyval.splits if_splits)
  show ?thesis
  proof (cases "v < CURRENT_SCHEMA_VERSION")
    case False
    then show ?thesis using assms v before by (auto simp: migrate_database_def CURRENT_SCHEMA_VERSION_def)
  next
    case True
    then obtain steps where steps: "res_list (\<lambda>x. migrate_to_version (x + 1)) [v..CURRENT_SCHEMA_VERSION - 1] = Inr steps"
        "ms = concat steps @ [SaveVersion CURRENT_SCHEMA_VERSION]"
      using assms v by (auto simp: migrate_database_def split: sum.splits)
    have "v \<in> set [v..CURRENT_SCHEMA_VERSION - 1]" using True by (simp add: CURRENT_SCHEMA_VERSION_def)
    then have "\<exists>y. migrate_to_version (v + 1) = Inr y" using res_list_image [OF steps(1)] by blast
    then have "0 \<le> v" by (auto simp: migrate_to_version_def split: if_splits)
    then have "v \<in> {0, 1, 2, 3, 4, 5}" using True by (auto simp: CURRENT_SCHEMA_VERSION_def)
    then show ?thesis
      using steps before
      by (auto simp: migrate_to_version_def CURRENT_SCHEMA_VERSION_def upto.simps exec_load_def)
  qed
qed

definition inventory_rows :: "load_env \<Rightarrow> ui_cmd list \<Rightarrow> source_record list result" where
  \<comment> \<open>the rows of the inventory, from the collection of the user interface or from the file\<close>
  "inventory_rows env ui =
     (if config_from_mongo (le_inv env) then Inr (fst (ui_docs_after ui (le_ui env))) else le_inventory env)"

lemma load_stages:
  assumes "load env = (cmds, Inr failed)"
  obtains ms rest ui changed ts profiles groups lines ports hosts
  where "migrate_database (le_version env) = (ms, None)" "cmds = map LMigrate ms @ rest" "\<forall>m. LMigrate m \<notin> set rest"
    "did_expiry_time_change (le_scan env) (le_from_key env) (chain_expiry (le_inv env)) [WALK_TASK, POLL_TASK] =
       Inr (changed, ts)"
    "configure_ui_database (config_from_mongo (le_inv env)) (le_used_ui env) (le_inventory env) (le_config env) = (ui, None)"
    "update_all (le_valid env) get_all_profile_schemas
       (gather_profiles (config_from_mongo (le_inv env)) (le_shared env) (snd (snd (ui_docs_after ui (le_ui env)))) (le_config env))
       (le_profiles env) = Inr profiles"
    "update_all (le_valid env) get_all_group_schemas
       (gather_groups (config_from_mongo (le_inv env)) (fst (snd (ui_docs_after ui (le_ui env)))) (le_config env))
       (le_groups env) = Inr groups"
    "res_bind (inventory_rows env ui) (get_all_hosts (last groups)) = Inr (lines, ports)"
    "return_hosts_from_deleted_groups (return_collection (\<lambda>_. le_groups env))
       (return_collection (\<lambda>_. last groups)) ports = Inr hosts"
    "manage_inventory_records (le_inv env) (return_collection (\<lambda>_. last profiles)) changed hosts False lines =
       (inventory_cmds cmds, Inr failed)"
  using assms
  unfolding load_def Let_def case_prod_beta eff_bind_Inr eff_of_Inr case_result_Inr inventory_rows_def [symmetric]
proof (elim exE conjE, simp only: split_paired_all prod.inject fst_conv snd_conv, elim conjE)
qed (rule that, assumption, assumption, force, assumption, assumption, assumption, assumption, assumption, assumption,
    auto simp: prod_eq_iff)

text \<open>
  C5.  After a loading that returns, the collection holds what the inventory asks for, whatever
  lines failed.  The lines are those of the file or of the user interface, expanded with the groups
  as they were just updated.  For each host the last of its lines that could be read decides: a
  line that is marked as deleted removes the document and any other one gives it all fields of its
  record.  A host without such a line lost its document exactly when it left its group, and is as
  it was otherwise, except that a database from before version 5 of the schema is migrated first,
  which leaves every document without its group.  The loading reports an error exactly when a line
  failed.
\<close>

theorem inventory_follows_lines:
  assumes "inventory_store look upsert remove ungroup" "load env = (cmds, Inr failed)"
  shows "\<exists>ui changed ts profiles groups lines ports hosts.
    did_expiry_time_change (le_scan env) (le_from_key env) (chain_expiry (le_inv env)) [WALK_TASK, POLL_TASK] =
      Inr (changed, ts) \<and>
    configure_ui_database (config_from_mongo (le_inv env)) (le_used_ui env) (le_inventory env) (le_config env) = (ui, None) \<and>
    update_all (le_valid env) get_all_profile_schemas
      (gather_profiles (config_from_mongo (le_inv env)) (le_shared env) (snd (snd (ui_docs_after ui (le_ui env)))) (le_config env))
      (le_profiles env) = Inr profiles \<and>
    update_all (le_valid env) get_all_group_schemas
      (gather_groups (config_from_mongo (le_inv env)) (fst (snd (ui_docs_after ui (le_ui env)))) (le_config env))
      (le_groups env) = Inr groups \<and>
    res_bind (inventory_rows env ui) (get_all_hosts (last groups)) = Inr (lines, ports) \<and>
    return_hosts_from_deleted_groups (return_collection (\<lambda>_. le_groups env))
      (return_collection (\<lambda>_. last groups)) ports = Inr hosts \<and>
    (failed \<longleftrightarrow> lines_failed (after_cmds (le_inv env) (fst (delete_hosts hosts)))
       (return_collection (\<lambda>_. last profiles)) changed lines) \<and>
    (\<forall>k. keeps_write
      (\<lambda>h. if \<exists>host a p. host \<in> set hosts \<and> transform_key_to_address host = Inr (a, p) \<and> h = (PStr a, PInt p)
           then None
           else if before_version_5 (le_version env) then map_option (dict_set ''group'' PNone) (look c h) else look c h)
      (look (fold (exec_load upsert remove ungroup) cmds c)) k
      (last_write (le_inv env) (return_collection (\<lambda>_. last profiles)) lines k))"
proof -
  obtain ms rest ui changed ts profiles groups lines ports hosts where
    mig: "migrate_database (le_version env) = (ms, None)" "cmds = map LMigrate ms @ rest" "\<forall>m. LMigrate m \<notin> set rest"
    and l: "did_expiry_time_change (le_scan env) (le_from_key env) (chain_expiry (le_inv env)) [WALK_TASK, POLL_TASK] =
       Inr (changed, ts)"
    "configure_ui_database (config_from_mongo (le_inv env)) (le_used_ui env) (le_inventory env) (le_config env) = (ui, None)"
    "update_all (le_valid env) get_all_profile_schemas
       (gather_profiles (config_from_mongo (le_inv env)) (le_shared env) (snd (snd (ui_docs_after ui (le_ui env)))) (le_config env))
       (le_profiles env) = Inr profiles"
    "update_all (le_valid env) get_all_group_schemas
       (gather_groups (config_from_mongo (le_inv env)) (fst (snd (ui_docs_after ui (le_ui env)))) (le_config env))
       (le_groups env) = Inr groups"
    "res_bind (inventory_rows env ui) (get_all_hosts (last groups)) = Inr (lines, ports)"
    "return_hosts_from_deleted_groups (return_collection (\<lambda>_. le_groups env))
       (return_collection (\<lambda>_. last groups)) ports = Inr hosts"
    and m: "manage_inventory_records (le_inv env) (return_collection (\<lambda>_. last profiles)) changed hosts False lines =
       (inventory_cmds cmds, Inr failed)"
    by (rule load_stages [OF assms(2)])
  have store: "document_store look upsert remove"
    and plain: "look (ungroup c) k = map_option (dict_set ''group'' PNone) (look c k)" for k
    using assms(1) unfolding inventory_store_def by blast+
  let ?c = "if before_version_5 (le_version env) then ungroup c else c"
  have run: "fold (exec_load upsert remove ungroup) cmds c = fold (exec_inventory upsert remove) (inventory_cmds cmds) ?c"
    unfolding mig(2) fold_append comp_apply migrations_of [OF mig(1)] fold_others [OF mig(3)] inventory_cmds_migrate ..
  have base: "look ?c k = (if before_version_5 (le_version env) then map_option (dict_set ''group'' PNone) (look c k) else look c k)" for k
    by (simp add: plain)
  note r = records_follow_lines [OF store m, of ?c, unfolded base run [symmetric]]
  show ?thesis by (intro exI conjI allI) (rule l | rule conjunct1 [OF r] | rule conjunct2 [OF r])+
qed

text \<open>A collection kept as a dictionary of documents by host, for the witnesses.\<close>

definition upsert_doc :: "inventory_record \<Rightarrow> (host_id \<Rightarrow> doc option) \<Rightarrow> host_id \<Rightarrow> doc option" where
  "upsert_doc ir c = c(host_id ir \<mapsto> dict_update (case c (host_id ir) of None \<Rightarrow> [] | Some d \<Rightarrow> d) ir)"

definition remove_doc :: "host_id \<Rightarrow> (host_id \<Rightarrow> doc option) \<Rightarrow> host_id \<Rightarrow> doc option" where
  "remove_doc h c = c(h := None)"

lemma map_store: "document_store (\<lambda>c. c) upsert_doc remove_doc"
  unfolding document_store_def upsert_doc_def remove_doc_def by auto

definition ungroup_docs :: "(host_id \<Rightarrow> doc option) \<Rightarrow> host_id \<Rightarrow> doc option" where
  "ungroup_docs c = (\<lambda>k. map_option (dict_set ''group'' PNone) (c k))"

lemma map_inventory: "inventory_store (\<lambda>c. c) upsert_doc remove_doc ungroup_docs"
  using map_store by (simp add: inventory_store_def ungroup_docs_def)

definition given_line :: source_record where
  "given_line = [(''address'', PStr ''h''), (''walk_interval'', PInt 60), (''profiles'', PStr [])]"

lemma given_line_valid: "InventoryRecord (\<lambda>_ _. True) given_line = Inr valid_sample"
proof -
  have h: "ip_address ''h'' = Inl ValueError" "str_strip [] = []" by code_simp+
  show ?thesis
    unfolding InventoryRecord_def rename_fields_def ALTERNATIVE_FIELDS_def given_line_def valid_sample_def
      inventory_fields_def Let_def
    by (simp add: dict_get_Cons address_validator_def h str_startswith_def dict_item_def blank_def py_truthy_def
        walk_interval_validator_def py_int_def profiles_validator_def opt_list_def res_splits dict_set_def)
qed

definition saved_sample :: inventory_record where
  "saved_sample = dict_set ''walk_interval'' (PInt 60) valid_sample"

lemma saved_sample_fields:
  "rec_field saved_sample ''address'' = PStr ''h''" "rec_field saved_sample ''port'' = PInt 161"
  "rec_field valid_sample ''address'' = PStr ''h''" "rec_field valid_sample ''port'' = PInt 161"
  "rec_field valid_sample ''delete'' = PNone"
  by (simp_all add: saved_sample_def valid_sample_def rec_field_def dict_get_or_def dict_get_Cons)

lemma given_line_walk_profile: "return_walk_profile False [] [[]] = Inr (PStr ''WalkProfile'')"
  by (simp add: return_walk_profile_def walk_condition_def py_str_def dict_get_or_def)

lemma given_line_interval: "update_walk_interval (PStr ''WalkProfile'') given_line valid_sample = Inr saved_sample"
  by (simp add: update_walk_interval_def py_truthy_def given_line_def dict_item_def dict_get_Cons py_int_def
      saved_sample_def)

definition fresh_env :: "inv_env \<Rightarrow> bool" where
  \<comment> \<open>nothing was sent, the database and the scheduler are empty\<close>
  "fresh_env env \<longleftrightarrow> \<not> enable_full_walk env \<and> name_resolves env = (\<lambda>_ _. True) \<and>
     (\<forall>ir. matched_count (upsert_answer env ir) = 0) \<and> entry_of_key env = (\<lambda>_. Inl KeyError)"

lemma sample_env_fresh: "fresh_env sample_env"
  by (simp add: fresh_env_def sample_env_def upsert_answer_def entry_of_key_def)

lemma fresh_line_write:
  assumes "fresh_env env"
  shows "line_write env [] given_line = Some (host_id saved_sample, Some saved_sample)"
proof -
  have env: "enable_full_walk env = False" "name_resolves env = (\<lambda>_ _. True)" using assms by (simp_all add: fresh_env_def)
  have "str_split '';'' [] = [[]]" by code_simp
  moreover have "dict_item given_line ''profiles'' = Inr (PStr [])"
    by (simp add: given_line_def dict_item_def dict_get_Cons)
  ultimately have "line_record env [] given_line valid_sample = Inr saved_sample"
    using given_line_walk_profile given_line_interval by (simp add: line_record_def env)
  then show ?thesis using given_line_valid by (simp add: line_write_def env saved_sample_fields py_truthy_def)
qed

lemmas given_line_write = fresh_line_write [OF sample_env_fresh]

lemma fresh_line_loads:
  assumes "fresh_env env"
  shows "\<exists>cmds. manage_inventory_records env [] False [] False [given_line] = (cmds, Inr False)"
proof -
  have env: "enable_full_walk env = False" "name_resolves env = (\<lambda>_ _. True)" "entry_of_key env = (\<lambda>_. Inl KeyError)"
    using assms by (simp_all add: fresh_env_def)
  have sp: "str_split '';'' [] = [[]]" by code_simp
  have m: "\<exists>c. manage_task (\<lambda>_. Inl KeyError) td = Inr c" for td
    by (simp add: manage_task_def Let_def)
  have go: "needs_walk_task env False ir = Inr True" for ir
    using assms by (simp add: needs_walk_task_def fresh_env_def)
  have key: "transform_address_to_key ''h'' (PInt 161) = Inr ''h:161''"
    by (simp add: transform_address_to_key_def py_int_def)
  obtain c where "res_bind (gen_walk_task (chain_expiry env) saved_sample
        (PStr ''WalkProfile'') (dict_get_or given_line ''group'' PNone)) (manage_task (entry_of_key env)) = Inr c"
    using m by (auto simp: gen_walk_task_def saved_sample_fields py_str_def key env)
  moreover have "dict_item given_line ''profiles'' = Inr (PStr [])"
    by (simp add: given_line_def dict_item_def dict_get_Cons)
  ultimately have "\<exists>cmds. update_record env valid_sample given_line [] False = (cmds, None)"
    by (simp add: update_record_def sp given_line_walk_profile given_line_interval go env(1))
  then have "\<exists>cmds. manage_line env [] False given_line = (cmds, None)"
    using given_line_valid by (simp add: manage_line_def saved_sample_fields py_str_def key py_truthy_def env(2))
  then show ?thesis by (auto simp: manage_inventory_records_def)
qed

definition sample_load :: load_env where
  \<comment> \<open>a file with one line, and a database of version 4\<close>
  "sample_load = \<lparr>le_inv = sample_env, le_version = Some [(''version'', PInt 4)],
     le_used_ui = None, le_config = Inr (PDict []), le_inventory = Inr [given_line], le_ui = ([], [], []),
     le_groups = [], le_profiles = [], le_shared = [], le_valid = (\<lambda>_ _. True), le_scan = (\<lambda>_. []),
     le_from_key = (\<lambda>_. Inl KeyError)\<rparr>"

lemma sample_load_fields:
  "le_inv sample_load = sample_env" "le_used_ui sample_load = None" "le_config sample_load = Inr (PDict [])"
  "le_inventory sample_load = Inr [given_line]" "le_ui sample_load = ([], [], [])" "le_groups sample_load = []"
  "le_profiles sample_load = []" "le_shared sample_load = []" "le_valid sample_load = (\<lambda>_ _. True)"
  by (simp_all add: sample_load_def)

lemma sample_load_ok: "snd (load sample_load) = Inr False"
  by code_simp

lemma sample_load_parts:
  "configure_ui_database False None (Inr [given_line]) (Inr (PDict [])) = ([], None)"
  "update_all (\<lambda>_ _. True) get_all_profile_schemas (gather_profiles False [] [] (Inr (PDict []))) [] = Inr [[]]"
  "update_all (\<lambda>_ _. True) get_all_group_schemas (gather_groups False [] (Inr (PDict []))) [] = Inr [[]]"
  "get_all_hosts [] [given_line] = Inr ([given_line], [])"
  "return_collection (\<lambda>_. []) = []"
  by code_simp+

definition old_docs :: "host_id \<Rightarrow> doc option" where
  "old_docs = [(PStr ''o'', PInt 161) \<mapsto> [(''group'', PStr ''g'')]]"

theorem inventory_follows_lines_witness:
  "\<exists>cmds d d'. load sample_load = (cmds, Inr False) \<and>
     fold (exec_load upsert_doc remove_doc ungroup_docs) cmds old_docs (PStr ''h'', PInt 161) = Some d \<and>
     dict_get d ''walk_interval'' = Some (PInt 60) \<and>
     fold (exec_load upsert_doc remove_doc ungroup_docs) cmds old_docs (PStr ''o'', PInt 161) = Some d' \<and>
     dict_get d' ''group'' = Some PNone"
proof -
  obtain cmds where c: "load sample_load = (cmds, Inr False)"
    using sample_load_ok by (metis prod.collapse)
  have env: "config_from_mongo sample_env = False" by (simp add: sample_env_def)
  have w: "last_write sample_env [] [given_line] (PStr ''h'', PInt 161) = Some (Some saved_sample)"
    by (simp add: last_write_def given_line_write host_id_def saved_sample_fields)
  have w': "last_write sample_env [] [given_line] (PStr ''o'', PInt 161) = None"
    by (simp add: last_write_def given_line_write host_id_def saved_sample_fields)
  have "dict_get saved_sample ''walk_interval'' = Some (PInt 60)" by (simp add: saved_sample_def)
  moreover from inventory_follows_lines [OF map_inventory c, of old_docs]
  obtain ui profiles groups lines ports hosts where f:
    "configure_ui_database (config_from_mongo (le_inv sample_load)) (le_used_ui sample_load) (le_inventory sample_load)
       (le_config sample_load) = (ui, None)"
    "update_all (le_valid sample_load) get_all_profile_schemas
       (gather_profiles (config_from_mongo (le_inv sample_load)) (le_shared sample_load)
          (snd (snd (ui_docs_after ui (le_ui sample_load)))) (le_config sample_load)) (le_profiles sample_load) = Inr profiles"
    "update_all (le_valid sample_load) get_all_group_schemas
       (gather_groups (config_from_mongo (le_inv sample_load)) (fst (snd (ui_docs_after ui (le_ui sample_load))))
          (le_config sample_load)) (le_groups sample_load) = Inr groups"
    "res_bind (inventory_rows sample_load ui) (get_all_hosts (last groups)) = Inr (lines, ports)"
    "return_hosts_from_deleted_groups (return_collection (\<lambda>_. le_groups sample_load))
      (return_collection (\<lambda>_. last groups)) ports = Inr hosts"
    and k: "\<forall>k. keeps_write (\<lambda>h. if \<exists>host a p. host \<in> set hosts \<and> transform_key_to_address host = Inr (a, p) \<and>
          h = (PStr a, PInt p) then None
          else if before_version_5 (le_version sample_load) then map_option (dict_set ''group'' PNone) (old_docs h) else old_docs h)
        (fold (exec_load upsert_doc remove_doc ungroup_docs) cmds old_docs) k
        (last_write (le_inv sample_load) (return_collection (\<lambda>_. last profiles)) lines k)"
    by (elim exE conjE) rule
  note fields = f [unfolded sample_load_fields env]
  have "ui = []" using fields(1) by (simp add: sample_load_parts)
  then have "profiles = [[]]" "groups = [[]]" using fields(2,3) by (simp_all add: sample_load_parts)
  moreover have "lines = [given_line]"
    using fields(4) env \<open>groups = [[]]\<close> by (simp add: inventory_rows_def sample_load_fields sample_load_parts)
  moreover have "hosts = []"
    using fields(5) by (simp add: sample_load_fields sample_load_parts)
  moreover have "before_version_5 (le_version sample_load)"
    by (simp add: before_version_5_def sample_load_def dict_get_Cons)
  ultimately show ?thesis
    using k [rule_format, of "(PStr ''h'', PInt 161)"] k [rule_format, of "(PStr ''o'', PInt 161)"] c w w'
    by (auto simp: keeps_write_def sample_load_parts sample_load_fields old_docs_def)
qed

section \<open>Loading the same inventory again\<close>

definition inventory_tasks :: "inv_cmd list \<Rightarrow> tcmd list" where
  \<comment> \<open>the commands to the scheduler\<close>
  "inventory_tasks cmds = concat (map (\<lambda>c. case c of ITask t \<Rightarrow> [t] | _ \<Rightarrow> []) cmds)"

lemma inventory_tasks_simps [simp]:
  "inventory_tasks [] = []" "inventory_tasks (IUpsertInventory ir # cmds) = inventory_tasks cmds"
  "inventory_tasks (cmds @ cmds') = inventory_tasks cmds @ inventory_tasks cmds'"
  "inventory_tasks (map ITask ts) = ts"
proof -
  show "inventory_tasks (map ITask ts) = ts" by (induction ts) (simp_all add: inventory_tasks_def)
qed (simp_all add: inventory_tasks_def)

definition answers_store :: "('c \<Rightarrow> host_id \<Rightarrow> doc option) \<Rightarrow> 'c \<Rightarrow> (inventory_record \<Rightarrow> upsert_status) \<Rightarrow> bool" where
  \<comment> \<open>an upsert of what a document already holds is reported as no change\<close>
  "answers_store look c answer \<longleftrightarrow>
     (\<forall>ir d. look c (host_id ir) = Some d \<and> dict_update d ir = d \<longrightarrow> upsert_unchanged (answer ir))"

lemma walk_task_exists_iff:
  "reads_entries st from_key \<Longrightarrow> walk_task_exists from_key target = Inr (dict_get st (walk_name target) \<noteq> None)"
  by (simp add: walk_task_exists_def reads_entries_def store_key_def split: option.split)

lemma dict_set_same: "dict_get d k = Some v \<Longrightarrow> dict_set k v d = d"
  by (induction d) (auto simp: dict_set_def dict_get_def split: if_splits)

lemma dict_update_same: "\<forall>f v. dict_get e f = Some v \<longrightarrow> dict_get d f = Some v \<Longrightarrow> dict_wf e \<Longrightarrow> dict_update d e = d"
proof (induction d e rule: dict_update.induct)
  case (2 d k v e)
  then have "dict_get d k = Some v" by (simp add: dict_get_Cons)
  moreover have "\<forall>f v. dict_get e f = Some v \<longrightarrow> dict_get d f = Some v"
    using 2(2,3) by (auto simp: dict_get_Cons dict_wf_def dict_get_def dest: map_of_SomeD split: if_splits)
  moreover have "dict_wf e" using 2(3) by (simp add: dict_wf_def)
  ultimately show ?case using "2.IH" by (simp add: dict_set_same)
qed simp

lemma walk_task_complete: "complete_task (walk_name target) (walk_task_definition expiry target (PInt i) grp profile)"
  using walk_definition_fields [of expiry target "PInt i" grp profile]
  by (simp add: complete_task_def filter_empty_conv walk_task_definition_def set_kwargs_def dict_get_Cons)

lemma saves_present:
  assumes "saves n e ts"
  shows "dict_get (fold (exec_task dt) ts st) m = None \<longleftrightarrow> m \<noteq> n \<and> dict_get st m = None"
  by (simp add: exec_saves [OF assms])

text \<open>A line that keeps its host: the record is saved, and afterwards there is its walk task.\<close>

lemma line_record_fields:
  assumes "InventoryRecord resolves line = Inr ir" "line_record env profiles line ir = Inr saved"
  shows "host_id saved = host_id ir \<and> (\<exists>i. rec_field saved ''walk_interval'' = PInt i) \<and>
    (\<exists>target. record_key saved = Inr target)"
proof -
  obtain a p where r: "py_str (rec_field ir ''address'') = Inr a" "rec_field ir ''port'' = PInt p"
    using valid_record [OF assms(1)] .
  have "int_in 1800 604800 (rec_field ir ''walk_interval'')"
    using inventory_record_field [OF assms(1) _ inventory_fields_ok(4)] unfolding inventory_field_names by simp
  then obtain i where i: "rec_field ir ''walk_interval'' = PInt i" by (auto simp: int_in_def split: pyval.splits)
  have "saved = ir \<or> (\<exists>j. saved = dict_set ''walk_interval'' (PInt j) ir)"
    using assms(2) by (auto simp: line_record_def update_walk_interval_def res_splits split: if_splits)
  then have h: "host_id saved = host_id ir" "\<exists>i. rec_field saved ''walk_interval'' = PInt i"
    using i by (auto simp: host_id_def rec_field_def dict_get_or_def)
  then have "record_key saved = transform_address_to_key a (PInt p)"
    using r by (simp add: record_key_def host_id_def)
  then show ?thesis using h key_total by metis
qed

lemma kept_line:
  assumes "line_write env profiles line = Some (h, Some saved)"
  obtains ir i target where "InventoryRecord (name_resolves env) line = Inr ir"
    "\<not> py_truthy (rec_field ir ''delete'')" "line_record env profiles line ir = Inr saved"
    "rec_field saved ''walk_interval'' = PInt i" "record_key saved = Inr target"
    "manage_line env' profiles changed line = (if name_resolves env' = name_resolves env
       then update_record env' ir line profiles changed else manage_line env' profiles changed line)"
proof -
  obtain ir where ir: "InventoryRecord (name_resolves env) line = Inr ir" "\<not> py_truthy (rec_field ir ''delete'')"
      "line_record env profiles line ir = Inr saved"
    using assms by (auto simp: line_write_def split: sum.splits if_splits)
  obtain a p target where "py_str (rec_field ir ''address'') = Inr a" "rec_field ir ''port'' = PInt p"
      "transform_address_to_key a (PInt p) = Inr target"
    using valid_record [OF ir(1)] key_total by metis
  then have "manage_line env' profiles changed line = update_record env' ir line profiles changed"
    if "name_resolves env' = name_resolves env"
    using ir that by (simp add: manage_line_def)
  then show thesis using that ir line_record_fields [OF ir(1,3)] by auto
qed

lemma update_record_cmds:
  assumes "update_record env ir line profiles changed = (cmds, None)" "line_record env profiles line ir = Inr saved"
  obtains wp go ts where "needs_walk_task env changed saved = Inr go" "cmds = IUpsertInventory saved # map ITask ts"
    "(if \<not> go then Inr [] else res_bind (gen_walk_task (chain_expiry env) saved wp
       (dict_get_or line ''group'' PNone)) (manage_task (entry_of_key env))) = Inr ts"
  using assms by (auto simp: update_record_def line_record_def res_splits split: sum.splits)

lemma line_task_present:
  assumes "manage_line env profiles changed line = (cmds, None)" "reads_entries st (entry_of_key env)"
    and "line_write env profiles line = Some (h, Some saved)" "record_key saved = Inr target"
  shows "(inventory_tasks cmds = [] \<and> dict_get st (walk_name target) \<noteq> None) \<or>
    (\<exists>e. saves (walk_name target) e (inventory_tasks cmds))"
proof -
  obtain ir i target' where l: "line_record env profiles line ir = Inr saved"
      "rec_field saved ''walk_interval'' = PInt i"
      "manage_line env profiles changed line = update_record env ir line profiles changed"
    using kept_line [OF assms(3), where env' = env and changed = changed] by metis
  obtain wp go ts where u: "needs_walk_task env changed saved = Inr go" "cmds = IUpsertInventory saved # map ITask ts"
      "(if \<not> go then Inr [] else res_bind (gen_walk_task (chain_expiry env) saved wp
         (dict_get_or line ''group'' PNone)) (manage_task (entry_of_key env))) = Inr ts"
    using update_record_cmds [OF assms(1) [unfolded l(3)] l(1)] .
  show ?thesis
  proof (cases go)
    case True
    then have "manage_task (entry_of_key env) (walk_task_definition (chain_expiry env) target (PInt i)
        (dict_get_or line ''group'' PNone) wp) = Inr ts"
      using u(3) assms(4) l(2) by (auto simp: gen_walk_task_def record_key_def res_splits)
    from manage_task_saves_entry [OF this walk_task_complete assms(2)] show ?thesis using u(2) by auto
  next
    case False
    then have "walk_task_exists (entry_of_key env) target = Inr True"
      using u(1) assms(4) by (auto simp: needs_walk_task_iff split: if_splits)
    then have "dict_get st (walk_name target) \<noteq> None"
      using walk_task_exists_iff [OF assms(2)] by simp
    then show ?thesis using False u by simp
  qed
qed

definition managed :: "inv_env \<Rightarrow> doc \<Rightarrow> bool \<Rightarrow> source_record \<Rightarrow> bool" where
  \<comment> \<open>the line is handled without an exception\<close>
  "managed env profiles changed l \<longleftrightarrow> snd (manage_line env profiles changed l) = None"

lemma not_failed: "\<not> lines_failed env profiles changed (l # ls) \<longleftrightarrow>
    managed env profiles changed l \<and> \<not> lines_failed (after_cmds env (line_cmds env profiles changed l)) profiles changed ls"
  by (simp add: managed_def line_failed_def)

lemma managed_cmds: "managed env profiles changed l \<Longrightarrow> manage_line env profiles changed l = (line_cmds env profiles changed l, None)"
  by (auto simp: managed_def line_cmds_def split: prod.split)

lemma lines_tasks_present:
  assumes "\<not> lines_failed env profiles changed lines"
    and "\<And>h. reads_entries (fold (exec_task dt) (inventory_tasks h) st) (entries_of_key env h)"
    and "\<forall>l \<in> set lines. \<exists>h saved. line_write env profiles l = Some (h, Some saved)"
  defines "S \<equiv> \<lambda>h. fold (exec_task dt) (inventory_tasks h) st"
  shows "(\<forall>m. dict_get (S (sent_cmds env)) m \<noteq> None \<longrightarrow>
      dict_get (S (sent_cmds env @ lines_cmds env profiles changed lines)) m \<noteq> None) \<and>
    (\<forall>l \<in> set lines. \<forall>h saved target. line_write env profiles l = Some (h, Some saved) \<longrightarrow>
       record_key saved = Inr target \<longrightarrow>
       dict_get (S (sent_cmds env @ lines_cmds env profiles changed lines)) (walk_name target) \<noteq> None)"
  using assms(1-3)
proof (induction lines arbitrary: env)
  case (Cons l lines)
  let ?own = "line_cmds env profiles changed l"
  let ?env = "after_cmds env ?own"
  have m: "managed env profiles changed l" and rest: "\<not> lines_failed ?env profiles changed lines"
    using Cons.prems(1) unfolding not_failed by auto
  obtain h saved where w: "line_write env profiles l = Some (h, Some saved)" using Cons.prems(3) by auto
  obtain target where t: "record_key saved = Inr target" using kept_line [OF w] by metis
  have "reads_entries (S (sent_cmds env)) (entry_of_key env)"
    using Cons.prems(2) by (simp add: S_def entry_of_key_def)
  from line_task_present [OF managed_cmds [OF m] this w t]
  have own: "(inventory_tasks ?own = [] \<and> dict_get (S (sent_cmds env)) (walk_name target) \<noteq> None) \<or>
      (\<exists>e. saves (walk_name target) e (inventory_tasks ?own))" .
  have S: "S (sent_cmds env @ ?own) = fold (exec_task dt) (inventory_tasks ?own) (S (sent_cmds env))"
    by (simp add: S_def)
  have keep: "dict_get (S (sent_cmds env)) x \<noteq> None \<Longrightarrow> dict_get (S (sent_cmds ?env)) x \<noteq> None" for x
    using own saves_present [of "walk_name target" _ "inventory_tasks ?own" dt "S (sent_cmds env)" x] by (auto simp: S)
  have new: "dict_get (S (sent_cmds ?env)) (walk_name target) \<noteq> None"
    using own saves_present [of "walk_name target" _ "inventory_tasks ?own" dt "S (sent_cmds env)" "walk_name target"]
    by (auto simp: S)
  have entries: "\<And>h. reads_entries (fold (exec_task dt) (inventory_tasks h) st) (entries_of_key ?env h)"
    using Cons.prems(2) by simp
  have lines: "\<forall>l \<in> set lines. \<exists>h saved. line_write ?env profiles l = Some (h, Some saved)"
    using Cons.prems(3) by simp
  have same: "sent_cmds ?env @ lines_cmds ?env profiles changed lines = sent_cmds env @ lines_cmds env profiles changed (l # lines)"
    by simp
  note IH = Cons.IH [OF rest entries lines, unfolded same line_write_after]
  have "dict_get (S (sent_cmds env @ lines_cmds env profiles changed (l # lines))) (walk_name target') \<noteq> None"
    if "line_write env profiles l = Some (h', Some saved')" "record_key saved' = Inr target'" for h' saved' target'
    using that w t new IH by simp
  then show ?case using IH keep by auto
qed simp

lemma line_managed_write:
  assumes "manage_line env profiles changed line = (cmds, None)"
  shows "line_write env profiles line \<noteq> None"
  using assms
  by (auto simp: manage_line_def line_write_def update_record_def line_record_def res_splits
      split: sum.splits if_splits)

lemma last_write_distinct:
  assumes "distinct (map (map_option fst \<circ> line_write env profiles) lines)" "l \<in> set lines"
    and "line_write env profiles l = Some (h, r)"
  shows "last_write env profiles lines h = Some r"
  using assms(1,2)
proof (induction lines rule: rev_induct)
  case (snoc line lines)
  show ?case
  proof (cases "l = line")
    case True
    then show ?thesis using assms(3) by (simp add: last_write_def)
  next
    case False
    then have "l \<in> set lines" "map_option fst (line_write env profiles line) \<noteq> Some h"
      using snoc.prems assms(3) by (force simp: image_iff)+
    then show ?thesis
      using snoc by (auto simp: last_write_def split: option.splits)
  qed
qed simp

lemma update_record_unchanged:
  assumes "line_record env profiles line ir = Inr saved" "needs_walk_task env changed saved = Inr False"
  shows "update_record env ir line profiles changed = ([IUpsertInventory saved], None)"
  using assms by (auto simp: update_record_def line_record_def res_splits)

lemma reloaded_line:
  assumes "line_write env profiles line = Some (h, Some saved)" "record_key saved = Inr target"
    and "upsert_unchanged (upsert_answer env saved)" "walk_task_exists (entry_of_key env) target = Inr True"
  shows "manage_line env profiles False line = ([IUpsertInventory saved], None)"
proof -
  obtain ir where ir: "line_record env profiles line ir = Inr saved"
      "manage_line env profiles False line = update_record env ir line profiles False"
    using kept_line [OF assms(1), where env' = env and changed = False and thesis = thesis] by simp
  have "needs_walk_task env False saved = Inr False"
    using assms(2-4) by (auto simp: needs_walk_task_iff)
  then show ?thesis using update_record_unchanged ir by simp
qed

lemma idle_upserts:
  assumes "document_store look upsert remove"
    and "\<forall>ir \<in> set irs. \<exists>d. look c (host_id ir) = Some d \<and> dict_update d ir = d"
  shows "look (fold (exec_inventory upsert remove) (map IUpsertInventory irs) c) = look c"
  using assms(2)
proof (induction irs arbitrary: c)
  case (Cons ir irs)
  have "look (upsert ir c) = look c"
    using Cons.prems look_upsert [OF assms(1)] by fastforce
  then show ?case using Cons by (simp add: exec_inventory_def)
qed simp

lemma reload_cmds:
  assumes "document_store look upsert remove"
    and "\<And>h. reads_entries (fold (exec_task dt) (inventory_tasks h) st) (entries_of_key env h)"
    and "\<And>h. answers_store look (fold (exec_inventory upsert remove) h c) (upsert_answers env h)"
    and "\<forall>l \<in> set lines. \<exists>h target. line_write env profiles l = Some (h, Some (f l)) \<and> record_key (f l) = Inr target \<and>
      dict_get (fold (exec_task dt) (inventory_tasks (sent_cmds env)) st) (walk_name target) \<noteq> None \<and>
      (\<exists>d. look (fold (exec_inventory upsert remove) (sent_cmds env) c) (host_id (f l)) = Some d \<and> dict_update d (f l) = d)"
  shows "manage_lines env profiles False lines False = (map (IUpsertInventory \<circ> f) lines, Inr False)"
  using assms(2-4)
proof (induction lines arbitrary: env)
  case (Cons l lines)
  let ?c = "fold (exec_inventory upsert remove) (sent_cmds env) c"
  have "l \<in> set (l # lines)" by simp
  from Cons.prems(3) [rule_format, OF this]
  obtain h target d where l: "line_write env profiles l = Some (h, Some (f l))" "record_key (f l) = Inr target"
      "dict_get (fold (exec_task dt) (inventory_tasks (sent_cmds env)) st) (walk_name target) \<noteq> None"
      "look ?c (host_id (f l)) = Some d" "dict_update d (f l) = d" by blast
  have "upsert_unchanged (upsert_answer env (f l))"
    using Cons.prems(2) [of "sent_cmds env"] l(4,5) by (auto simp: answers_store_def upsert_answer_def)
  moreover have "walk_task_exists (entry_of_key env) target = Inr True"
    using walk_task_exists_iff [OF Cons.prems(1) [of "sent_cmds env"]] l(3) by (simp add: entry_of_key_def)
  ultimately have own: "manage_line env profiles False l = ([IUpsertInventory (f l)], None)"
    by (rule reloaded_line [OF l(1,2)])
  let ?env = "after_cmds env [IUpsertInventory (f l)]"
  have idle: "look (fold (exec_inventory upsert remove) (sent_cmds ?env) c) = look ?c"
    using idle_upserts [OF assms(1), of "[f l]" ?c] l(4,5) by simp
  have "manage_lines ?env profiles False lines False = (map (IUpsertInventory \<circ> f) lines, Inr False)"
  proof (rule Cons.IH)
    show "\<forall>l \<in> set lines. \<exists>h target. line_write ?env profiles l = Some (h, Some (f l)) \<and> record_key (f l) = Inr target \<and>
        dict_get (fold (exec_task dt) (inventory_tasks (sent_cmds ?env)) st) (walk_name target) \<noteq> None \<and>
        (\<exists>d. look (fold (exec_inventory upsert remove) (sent_cmds ?env) c) (host_id (f l)) = Some d \<and> dict_update d (f l) = d)"
      unfolding idle using Cons.prems(3) by simp
  qed (use Cons.prems(1,2) in simp_all)
  then show ?case using own by simp
qed simp


text \<open>Answers taken from the collection, for the witness.\<close>

definition store_answer :: "('c \<Rightarrow> host_id \<Rightarrow> doc option) \<Rightarrow> 'c \<Rightarrow> inventory_record \<Rightarrow> upsert_status" where
  "store_answer look c ir =
     (case look c (host_id ir) of
        None \<Rightarrow> \<lparr>matched_count = 0, modified_count = 0, upserted_id = PInt 1\<rparr>
      | Some d \<Rightarrow> \<lparr>matched_count = 1, modified_count = (if dict_update d ir = d then 0 else 1), upserted_id = PNone\<rparr>)"

lemma store_answers: "answers_store look c (store_answer look c)"
  by (simp add: answers_store_def store_answer_def upsert_unchanged_def)

definition docs_after :: "inv_cmd list \<Rightarrow> host_id \<Rightarrow> doc option" where
  "docs_after cmds = fold (exec_inventory upsert_doc remove_doc) cmds (\<lambda>_. None)"

definition tasks_after :: "inv_cmd list \<Rightarrow> schedule" where
  "tasks_after cmds = fold (exec_task (\<lambda>_ st. st)) (inventory_tasks cmds) []"

definition stored_env :: inv_env where
  \<comment> \<open>the database and the scheduler answer from what the commands left behind\<close>
  "stored_env = sample_env\<lparr>upsert_answers := (\<lambda>h. store_answer (\<lambda>c. c) (docs_after h)),
     entries_of_key := (\<lambda>h. store_entry (tasks_after h))\<rparr>"

lemma stored_env_fresh: "fresh_env stored_env"
proof -
  have "entry_of_key stored_env = (\<lambda>_. Inl KeyError)"
    by (rule ext) (simp add: entry_of_key_def stored_env_def sample_env_def tasks_after_def store_entry_def)
  then show ?thesis
    by (simp add: fresh_env_def) (simp add: stored_env_def sample_env_def upsert_answer_def docs_after_def store_answer_def)
qed


end
