(* ===== verification/TrapTask.thy ===== *)
theory TrapTask
  imports Poller "HOL-Library.Multiset"
begin

text \<open>
  The worker task \<open>trap\<close> (\<^verbatim>\<open>splunk_connect_for_snmp/snmp/tasks.py\<close>): translating the varbinds of a
  trap, loading the MIB modules they need, and forwarding those that cannot be translated.

  What pysnmp does is the record \<open>pysnmp\<close>; its functions see the modules that the builder has
  loaded.  The value of a varbind arrives as the text that the receiver wrote; the coercion makes
  it an ASN.1 object.
\<close>

section \<open>Values and MIB nodes\<close>

datatype asn1 = AsnInteger int | AsnCounter64 int | AsnUnspecified | AsnClone nat
  \<comment> \<open>a clone of a MIB syntax, named by a number\<close>

datatype trap_val = TvText string | TvInt int | TvFloat rat | TvAsn asn1

datatype base_category = CatInt | CatStr

record mib_syntax =
  ms_integer :: bool                           \<comment> \<open>its class derives from \<open>univ.Integer\<close>\<close>
  ms_octets :: bool                            \<comment> \<open>its class derives from \<open>univ.OctetString\<close>\<close>
  ms_clone :: "trap_val \<Rightarrow> asn1 option"       \<comment> \<open>\<open>None\<close>: cloning raises, or gives no ASN.1 item\<close>

record mib_node =
  mn_notification :: bool
  mn_has_syntax :: bool                        \<comment> \<open>it has a method \<open>getSyntax\<close>\<close>
  mn_syntax :: "mib_syntax option"             \<comment> \<open>what that returns; \<open>None\<close> also when it raises\<close>

datatype identity_arg = IdName string | IdIndex int

record pysnmp =
  ps_object :: "string list \<Rightarrow> string \<Rightarrow> trap_val \<Rightarrow> snmp_vb result"
     \<comment> \<open>\<open>ObjectType(ObjectIdentity(name), value).resolve_with_mib(...)\<close>\<close>
  ps_location :: "string list \<Rightarrow> int list \<Rightarrow> (string \<times> string \<times> int list) result"
     \<comment> \<open>\<open>get_node_location\<close>\<close>
  ps_identity :: "string list \<Rightarrow> identity_arg list \<Rightarrow> mib_node result"
     \<comment> \<open>the node of a resolved identity\<close>
  ps_resolved :: "string list \<Rightarrow> identity_arg list \<Rightarrow> trap_val \<Rightarrow> snmp_vb result"
     \<comment> \<open>an object of a resolved identity with a coerced value\<close>

definition SIGNED32_MIN :: int where "SIGNED32_MIN = - (2 ^ 31)"
definition SIGNED32_MAX :: int where "SIGNED32_MAX = 2 ^ 31 - 1"
definition UNSIGNED64_MAX :: int where "UNSIGNED64_MAX = 2 ^ 64 - 1"

definition OID_VALIDATOR :: rx where
  "OID_VALIDATOR =
     (let dot = rx_chr (CHR ''.''); digit = RCls is_digit;
          pos = RCls (\<lambda>c. is_digit c \<and> c \<noteq> CHR ''0'') in
      RSeq (RCls (\<lambda>c. c \<in> {CHR ''0'', CHR ''1'', CHR ''2''}))
        (RSeq (RStar (RAlt (RSeq dot (rx_chr (CHR ''0''))) (RSeq dot (RSeq pos (RStar digit))))) rx_dollar))"

definition INTEGER_STRING :: rx where
  "INTEGER_STRING = RSeq (rx_opt (rx_chr (CHR ''-''))) (RSeq (rx_plus (RCls is_digit)) rx_dollar)"

type_synonym trap_pair = "string \<times> string"

definition oids_for_mib_lookup :: "trap_pair \<Rightarrow> string list" where
  "oids_for_mib_lookup vb = filter (rx_match OID_VALIDATOR) [fst vb, snd vb]"

definition is_enterprise_oid :: "string \<Rightarrow> bool" where
  "is_enterprise_oid oid = str_startswith oid ''1.3.6.1.4.1''"

definition unresolved_field_name :: "string \<Rightarrow> string" where
  "unresolved_field_name oid = ''unresolved::'' @ oid"

definition oid_tuple :: "string \<Rightarrow> int list result" where
  "oid_tuple oid =
     (case res_list parse_int (str_split ''.'' oid) of
        Inr xs \<Rightarrow> Inr xs | Inl e \<Rightarrow> Inl (if e = ValueError then SmiError else e))"

definition value_for_trap_resolve :: "trap_val \<Rightarrow> trap_val" where
  "value_for_trap_resolve v =
     (case v of TvText s \<Rightarrow> if str_strip s = [] then TvAsn AsnUnspecified else v | _ \<Rightarrow> v)"

definition mib_syntax_class :: "mib_node option \<Rightarrow> mib_syntax option" where
  "mib_syntax_class node =
     (case node of None \<Rightarrow> None | Some n \<Rightarrow> if mn_has_syntax n then mn_syntax n else None)"

definition syntax_base_category :: "mib_syntax option \<Rightarrow> base_category option" where
  "syntax_base_category syntax =
     (case syntax of
        None \<Rightarrow> None
      | Some s \<Rightarrow> if ms_integer s then Some CatInt else if ms_octets s then Some CatStr else None)"

definition asn1_from_numeric :: "int \<Rightarrow> trap_val" where
  "asn1_from_numeric n =
     (if SIGNED32_MIN \<le> n \<and> n \<le> SIGNED32_MAX then TvAsn (AsnInteger n)
      else if 0 \<le> n \<and> n \<le> UNSIGNED64_MAX then TvAsn (AsnCounter64 n)
      else TvText (str_of_int n))"

definition text_int :: "string \<Rightarrow> int" where
  \<comment> \<open>\<open>int(s)\<close> of a text that the pattern of integers matches\<close>
  "text_int s = (case parse_int s of Inr i \<Rightarrow> i | Inl _ \<Rightarrow> 0)"

definition coerce_trap_varbind_value :: "trap_val \<Rightarrow> mib_node option \<Rightarrow> trap_val" where
  "coerce_trap_varbind_value v node =
     (case v of
        TvAsn _ \<Rightarrow> v
      | _ \<Rightarrow>
          (let syntax = mib_syntax_class node;
               category = syntax_base_category syntax;
               cloned = (case syntax of
                   None \<Rightarrow> None
                 | Some s \<Rightarrow> ms_clone s
                     (if category = Some CatInt
                      then (case v of
                              TvText t \<Rightarrow> if rx_match INTEGER_STRING t then TvInt (text_int t) else v
                            | TvFloat q \<Rightarrow> TvInt (trunc_rat q)
                            | _ \<Rightarrow> v)
                      else v)) in
           case cloned of
             Some a \<Rightarrow> TvAsn a
           | None \<Rightarrow>
               (case v of
                  TvInt i \<Rightarrow> asn1_from_numeric i
                | TvFloat q \<Rightarrow> asn1_from_numeric (trunc_rat q)
                | TvText t \<Rightarrow>
                    if t = [] then v
                    else if category = Some CatStr then v
                    else if rx_match INTEGER_STRING t \<and> category \<in> {Some CatInt, None}
                    then asn1_from_numeric (text_int t)
                    else v
                | _ \<Rightarrow> v)))"

section \<open>Resolving a varbind\<close>

definition object_type_from_resolved_identity ::
  "pysnmp \<Rightarrow> string list \<Rightarrow> identity_arg list \<Rightarrow> trap_val \<Rightarrow> snmp_vb result" where
  "object_type_from_resolved_identity ps mods ident v =
     res_bind (ps_identity ps mods ident) (\<lambda>node.
       if \<not> mn_notification node \<and> \<not> mn_has_syntax node then Inl SmiError
       else ps_resolved ps mods ident (coerce_trap_varbind_value v (Some node)))"

definition smi_error :: "pyexn \<Rightarrow> bool" where
  \<comment> \<open>\<open>except SmiError\<close>; \<open>NoSuchObjectError\<close> is a subclass\<close>
  "smi_error e = (e \<in> {SmiError, NoSuchObjectError})"

definition on_smi_error :: "'a result \<Rightarrow> (unit \<Rightarrow> 'a result) \<Rightarrow> 'a result" where
  "on_smi_error r k = (case r of Inl e \<Rightarrow> if smi_error e then k () else Inl e | Inr x \<Rightarrow> Inr x)"

definition node_location :: "pysnmp \<Rightarrow> string list \<Rightarrow> string \<Rightarrow> (string \<times> string \<times> int list) result" where
  \<comment> \<open>any of the exceptions named turns into \<open>SmiError\<close>\<close>
  "node_location ps mods name =
     (case res_bind (oid_tuple name) (ps_location ps mods) of
        Inr loc \<Rightarrow> Inr loc
      | Inl e \<Rightarrow> Inl (if smi_error e \<or> e \<in> {TypeError, ValueError, UnicodeDecodeError} then SmiError else e))"

definition resolve_trap_varbind :: "pysnmp \<Rightarrow> string list \<Rightarrow> trap_pair \<Rightarrow> snmp_vb result" where
  "resolve_trap_varbind ps mods = (\<lambda>(name, v).
     (let resolve_value = value_for_trap_resolve (TvText v) in
      on_smi_error (ps_object ps mods name resolve_value) (\<lambda>_.
      if \<not> rx_match OID_VALIDATOR name then Inl SmiError
      else res_bind (node_location ps mods name) (\<lambda>(mod_name, sym_name, suffix).
           let ident = [IdName mod_name, IdName sym_name] @ map IdIndex suffix in
           on_smi_error (res_bind (ps_identity ps mods ident) (\<lambda>node.
               ps_resolved ps mods ident (coerce_trap_varbind_value resolve_value (Some node)))) (\<lambda>_.
           on_smi_error (object_type_from_resolved_identity ps mods ident resolve_value) (\<lambda>_. Inl SmiError))))))"

fun resolve_work_varbinds ::
  "pysnmp \<Rightarrow> string list \<Rightarrow> trap_pair list \<Rightarrow> (snmp_vb list \<times> trap_pair list) result" where
  "resolve_work_varbinds ps mods [] = Inr ([], [])"
| "resolve_work_varbinds ps mods (vb # vbs) =
     (case resolve_trap_varbind ps mods vb of
        Inr x \<Rightarrow> res_map (\<lambda>(t, u). (x # t, u)) (resolve_work_varbinds ps mods vbs)
      | Inl e \<Rightarrow> if smi_error e then res_map (\<lambda>(t, u). (t, vb # u)) (resolve_work_varbinds ps mods vbs) else Inl e)"

definition varbind_table_has_unresolved_symbols :: "snmp_vb list \<Rightarrow> bool" where
  "varbind_table_has_unresolved_symbols t = list_ex (\<lambda>vb. \<not> is_mib_resolved (sv_id vb)) t"

definition re_resolve_trap_work_if_needed ::
  "pysnmp \<Rightarrow> string list \<Rightarrow> trap_pair list \<Rightarrow> snmp_vb list \<times> trap_pair list
     \<Rightarrow> (snmp_vb list \<times> trap_pair list) result" where
  "re_resolve_trap_work_if_needed ps mods data tu =
     (if \<not> varbind_table_has_unresolved_symbols (fst tu) then Inr tu else resolve_work_varbinds ps mods data)"

section \<open>Loading modules for a trap\<close>

definition load_new_trap_mibs :: "(string \<Rightarrow> bool) \<Rightarrow> string list \<Rightarrow> poller \<Rightarrow> bool \<times> poller" where
  "load_new_trap_mibs loads mib_names p =
     (let new_mibs = filter (\<lambda>m. m \<notin> set (already_attempted_mibs p)) (remdups mib_names) in
      if new_mibs = [] then (False, p)
      else (case load_mibs loads new_mibs
                   (p\<lparr>already_attempted_mibs := already_attempted_mibs p @ new_mibs\<rparr>) of
              (loaded, p') \<Rightarrow> (loaded \<noteq> [], note_loaded (loaded, p'))))"

definition preload_trap_mibs :: "(string \<Rightarrow> bool) \<Rightarrow> trap_pair list \<Rightarrow> poller \<Rightarrow> bool \<times> poller" where
  "preload_trap_mibs loads data p =
     load_new_trap_mibs loads
       (concat (map (\<lambda>oid. case is_mib_known (poller_mib_map p) oid of (found, mib) \<Rightarrow> if found then [mib] else [])
          (filter is_enterprise_oid (concat (map oids_for_mib_lookup data))))) p"

fun resolve_again ::
  "pysnmp \<Rightarrow> string list \<Rightarrow> trap_pair list \<Rightarrow> snmp_vb list \<times> trap_pair list
     \<Rightarrow> (snmp_vb list \<times> trap_pair list) result" where
  \<comment> \<open>the loop over the pairs whose module is known\<close>
  "resolve_again ps mods [] tu = Inr tu"
| "resolve_again ps mods (vb # vbs) (t, u) =
     (case resolve_trap_varbind ps mods vb of
        Inr x \<Rightarrow> resolve_again ps mods vbs (t @ [x], u)
      | Inl e \<Rightarrow> if smi_error e then resolve_again ps mods vbs (t, u @ [vb]) else Inl e)"

definition retry_trap_varbinds_after_mib_load ::
  "pysnmp \<Rightarrow> (string \<Rightarrow> bool) \<Rightarrow> trap_pair list \<Rightarrow> trap_pair list \<Rightarrow> snmp_vb list \<Rightarrow> poller
     \<Rightarrow> (snmp_vb list \<times> trap_pair list) result \<times> poller" where
  "retry_trap_varbinds_after_mib_load ps loads data not_translated table p =
     (let known = \<lambda>vb :: trap_pair. is_mib_known (poller_mib_map p) (fst vb);
          retry_pairs = filter (\<lambda>vb. fst (known vb)) not_translated;
          unresolved = filter (\<lambda>vb. \<not> fst (known vb)) not_translated;
          remotemibs = map (\<lambda>vb. snd (known vb)) retry_pairs in
      case (if remotemibs \<noteq> [] then load_new_trap_mibs loads remotemibs p else (False, p)) of
        (True, p') \<Rightarrow> (resolve_work_varbinds ps (loaded_modules p') data, p')
      | (False, p') \<Rightarrow> (resolve_again ps (loaded_modules p') retry_pairs (table, unresolved), p'))"

fun process_trap_metrics ::
  "nat \<Rightarrow> pysnmp \<Rightarrow> (string \<Rightarrow> bool) \<Rightarrow> trap_pair list \<Rightarrow> snmp_vb list \<Rightarrow> metrics \<Rightarrow> poller
     \<Rightarrow> metrics result \<times> poller" where
  \<comment> \<open>at most so many rounds; the metrics of earlier rounds are kept\<close>
  "process_trap_metrics 0 ps loads data table metrics p = (Inr metrics, p)"
| "process_trap_metrics (Suc n) ps loads data table metrics p =
     (case process_snmp_data (poller_mib_map p) [] table [] metrics of
        (retry, remotemibs, metrics') \<Rightarrow>
          if \<not> retry \<or> remotemibs = [] then (Inr metrics', p)
          else (case load_new_trap_mibs loads remotemibs p of
                  (False, p') \<Rightarrow> (Inr metrics', p')
                | (True, p') \<Rightarrow>
                    (case resolve_work_varbinds ps (loaded_modules p') data of
                       Inl e \<Rightarrow> (Inl e, p')
                     | Inr (table', _) \<Rightarrow> process_trap_metrics n ps loads data table' metrics' p')))"

definition TRAP_MIB_RETRY_MAX :: nat where "TRAP_MIB_RETRY_MAX = 5"

section \<open>Varbinds that are not translated\<close>

definition UNRESOLVED_TRAP_GROUP_KEY :: string where "UNRESOLVED_TRAP_GROUP_KEY = ''sc4snmp::unresolved''"

definition collect_processed_trap_oids :: "metrics \<Rightarrow> string list" where
  "collect_processed_trap_oids metrics =
     filter (\<lambda>oid. oid \<noteq> [])
       (concat (map (\<lambda>(_, g). map (\<lambda>(_, m). m_oid m) (g_fields g) @ map (\<lambda>(_, m). m_oid m) (g_metrics g)) metrics))"

definition unprocessed_trap_varbinds :: "snmp_vb list \<Rightarrow> metrics \<Rightarrow> trap_pair list" where
  "unprocessed_trap_varbinds table metrics =
     map (\<lambda>vb. (sv_oid vb, sv_pretty vb))
       (filter (\<lambda>vb. sv_oid vb \<notin> set (collect_processed_trap_oids metrics)) table)"

definition merge_unresolved_trap_varbinds :: "trap_pair list list \<Rightarrow> trap_pair list" where
  \<comment> \<open>identical pairs are kept once, where they first occur\<close>
  "merge_unresolved_trap_varbinds sources =
     fold (\<lambda>pair merged. if pair \<in> set merged then merged else merged @ [pair]) (concat sources) []"

definition append_unresolved_trap_varbinds :: "pyfloat \<Rightarrow> trap_pair list \<Rightarrow> metrics \<Rightarrow> metrics" where
  "append_unresolved_trap_varbinds now unresolved metrics =
     (if unresolved = [] then metrics
      else (let g0 = (case dict_get metrics UNRESOLVED_TRAP_GROUP_KEY of
                        Some g \<Rightarrow> g
                      | None \<Rightarrow> \<lparr>g_metrics = [], g_fields = [], g_indexes = [], g_profiles = None\<rparr>);
                flds = fold (\<lambda>(name, v). dict_set (unresolved_field_name name)
                         \<lparr>m_time = now, m_type = ''f'', m_value = value_as_best v, m_oid = name\<rparr>)
                       unresolved (g_fields g0)
            in dict_set UNRESOLVED_TRAP_GROUP_KEY (g0\<lparr>g_fields := flds\<rparr>) metrics))"

section \<open>The task\<close>

definition format_ipv4_address :: "bool \<Rightarrow> string \<Rightarrow> string" where
  "format_ipv4_address ipv6_enabled host =
     (if ipv6_enabled \<and> CHR ''.'' \<in> set host then last (str_split '':'' host) else host)"

definition resolve_address :: "(string \<Rightarrow> string option) \<Rightarrow> string \<Rightarrow> string" where
  \<comment> \<open>the reverse lookup, \<open>None\<close> when it fails\<close>
  "resolve_address lookup address = (case lookup address of Some name \<Rightarrow> name | None \<Rightarrow> address)"

record trap_env =
  te_pysnmp :: pysnmp
  te_loads :: "string \<Rightarrow> bool"
  te_limit :: int                    \<comment> \<open>the limit of varbinds to decode\<close>
  te_include :: bool                 \<comment> \<open>\<open>INCLUDE_UNRESOLVED_TRAP_VARBINDS\<close>\<close>
  te_resolve_address :: bool         \<comment> \<open>\<open>RESOLVE_TRAP_ADDRESS\<close>\<close>
  te_lookup :: "string \<Rightarrow> string option"
  te_ipv6 :: bool
  te_now :: pyfloat
  te_sourcetype :: string

record trap_work =
  tw_host :: string
  tw_data :: "trap_pair list"
  tw_fields :: "doc option"

definition build_result :: "trap_env \<Rightarrow> metrics \<Rightarrow> string \<Rightarrow> doc option \<Rightarrow> doc" where
  "build_result env result host flds =
     [(''time'', PFloat (te_now env)), (''result'', PDict (metrics_doc result)), (''address'', PStr host),
      (''detectchange'', PBool False), (''sourcetype'', PStr (te_sourcetype env))] @
     (case flds of Some d \<Rightarrow> if d \<noteq> [] then [(''fields'', PDict d)] else [] | None \<Rightarrow> [])"

definition first_pass ::
  "trap_env \<Rightarrow> trap_pair list \<Rightarrow> poller \<Rightarrow> (snmp_vb list \<times> trap_pair list) result \<times> poller" where
  \<comment> \<open>the table and the pairs that are not resolved, before the second look\<close>
  "first_pass env data p =
     (case preload_trap_mibs (te_loads env) data p of
        (mibs_loaded, p1) \<Rightarrow>
          (case resolve_work_varbinds (te_pysnmp env) (loaded_modules p1) data of
             Inl e \<Rightarrow> (Inl e, p1)
           | Inr (table, not_translated) \<Rightarrow>
               if mibs_loaded \<or> not_translated = [] then (Inr (table, not_translated), p1)
               else retry_trap_varbinds_after_mib_load (te_pysnmp env) (te_loads env) data not_translated table p1))"

definition trap_metrics ::
  "trap_env \<Rightarrow> trap_pair list \<Rightarrow> poller \<Rightarrow> (snmp_vb list \<times> trap_pair list \<times> metrics) result \<times> poller" where
  "trap_metrics env data p =
     (case first_pass env data p of
        (Inl e, p1) \<Rightarrow> (Inl e, p1)
      | (Inr tu, p1) \<Rightarrow>
          (case re_resolve_trap_work_if_needed (te_pysnmp env) (loaded_modules p1) data tu of
             Inl e \<Rightarrow> (Inl e, p1)
           | Inr (table, unresolved) \<Rightarrow>
               (case process_trap_metrics TRAP_MIB_RETRY_MAX (te_pysnmp env) (te_loads env) data table [] p1 of
                  (Inl e, p2) \<Rightarrow> (Inl e, p2)
                | (Inr result, p2) \<Rightarrow> (Inr (table, unresolved, result), p2))))"

definition forward_unresolved :: "trap_env \<Rightarrow> snmp_vb list \<Rightarrow> trap_pair list \<Rightarrow> metrics \<Rightarrow> metrics" where
  "forward_unresolved env table unresolved result =
     (if te_include env
      then append_unresolved_trap_varbinds (te_now env)
             (merge_unresolved_trap_varbinds [unresolved, unprocessed_trap_varbinds table result]) result
      else result)"

definition trap :: "trap_env \<Rightarrow> trap_work \<Rightarrow> poller \<Rightarrow> doc result \<times> poller" where
  "trap env work p =
     (let host = format_ipv4_address (te_ipv6 env) (tw_host work);
          data = limit_trap_varbind_pairs (te_limit env) (tw_data work) in
      case trap_metrics env data p of
        (Inl e, p') \<Rightarrow> (Inl e, p')
      | (Inr (table, unresolved, result), p') \<Rightarrow>
          (Inr (build_result env (forward_unresolved env table unresolved result)
                  (if te_resolve_address env then resolve_address (te_lookup env) host else host)
                  (tw_fields work)), p'))"

section \<open>Numbers\<close>


section \<open>The text of an OID\<close>

text \<open>
  The numbers of a dotted OID are read back from its text.
\<close>

theorem oid_tuple_roundtrip:
  assumes "xs \<noteq> []"
  shows "oid_tuple (str_join ''.'' (map str_of_int xs)) = Inr xs"
proof -
  have "str_split ''.'' (str_join ''.'' (map str_of_int xs)) = map str_of_int xs"
    using assms by (intro str_split_join) (auto dest: str_of_int_no [THEN notE, rotated 2] simp: is_digit_def)
  moreover have "res_list parse_int (map str_of_int ys) = Inr ys" for ys
    by (induction ys) (simp_all add: parse_int_str_of_int)
  ultimately show ?thesis by (simp add: oid_tuple_def)
qed

theorem oid_tuple_roundtrip_witness:
  "oid_tuple (str_join ''.'' (map str_of_int [1, 3, 6])) = Inr [1, 3, 6]"
  by (rule oid_tuple_roundtrip) simp

section \<open>Every varbind is accounted for\<close>

definition accounted ::
  "pysnmp \<Rightarrow> trap_pair list \<Rightarrow> snmp_vb list \<Rightarrow> trap_pair list \<Rightarrow> bool" where
  \<comment> \<open>every pair of the trap is among the unresolved ones or stands for one object of the table, to which
     pysnmp resolved it with the modules of some moment\<close>
  "accounted ps data table unresolved \<longleftrightarrow>
     (\<exists>resolved. mset data = mset unresolved + mset (map fst resolved) \<and>
        mset table = mset (map snd resolved) \<and>
        (\<forall>(pair, x) \<in> set resolved. \<exists>mods. resolve_trap_varbind ps mods pair = Inr x))"

lemma accounted_Nil: "accounted ps [] [] []"
  by (auto simp: accounted_def intro: exI [of _ "[]"])

lemma accounted_resolved:
  assumes "accounted ps data table unresolved" "resolve_trap_varbind ps mods pair = Inr x"
  shows "accounted ps (pair # data) (x # table) unresolved"
proof -
  obtain rs where rs: "mset data = mset unresolved + mset (map fst rs)" "mset table = mset (map snd rs)"
      "\<forall>(pair, x) \<in> set rs. \<exists>mods. resolve_trap_varbind ps mods pair = Inr x"
    using assms(1) unfolding accounted_def by blast
  show ?thesis
    unfolding accounted_def by (rule exI [of _ "(pair, x) # rs"]) (use rs assms(2) in auto)
qed

lemma accounted_unresolved:
  "accounted ps data table unresolved \<Longrightarrow> accounted ps (pair # data) table (pair # unresolved)"
  by (auto simp: accounted_def)

lemma accounted_perm:
  "accounted ps data table unresolved \<Longrightarrow> mset data' = mset data \<Longrightarrow> mset table' = mset table \<Longrightarrow>
   mset unresolved' = mset unresolved \<Longrightarrow> accounted ps data' table' unresolved'"
  by (simp add: accounted_def)

lemma resolve_work_accounted:
  "resolve_work_varbinds ps mods data = Inr (t, u) \<Longrightarrow> accounted ps data t u"
  by (induction data arbitrary: t u)
     (auto simp: accounted_Nil res_splits split: sum.splits if_splits
       intro: accounted_resolved accounted_unresolved)

lemma resolve_again_accounted:
  "resolve_again ps mods vbs (t, u) = Inr (t', u') \<Longrightarrow> accounted ps data t u \<Longrightarrow>
     accounted ps (data @ vbs) t' u'"
proof (induction vbs arbitrary: t u data)
  case (Cons vb vbs)
  have move: "mset (data @ vb # vbs) = mset ((vb # data) @ vbs)" by simp
  show ?case
  proof (cases "resolve_trap_varbind ps mods vb")
    case (Inl e)
    then have run: "resolve_again ps mods vbs (t, u @ [vb]) = Inr (t', u')" using Cons.prems(1) by (simp split: if_splits)
    have "accounted ps (vb # data) t (u @ [vb])"
      by (rule accounted_perm [OF accounted_unresolved [OF Cons.prems(2), of vb]]) simp_all
    from accounted_perm [OF Cons.IH [OF run this] move] show ?thesis by simp
  next
    case (Inr x)
    then have run: "resolve_again ps mods vbs (t @ [x], u) = Inr (t', u')" using Cons.prems(1) by simp
    have "accounted ps (vb # data) (t @ [x]) u"
      by (rule accounted_perm [OF accounted_resolved [OF Cons.prems(2) Inr]]) simp_all
    from accounted_perm [OF Cons.IH [OF run this] move] show ?thesis by simp
  qed
qed simp

lemma accounted_part:
  \<comment> \<open>what is left when some of the unresolved pairs are taken out\<close>
  assumes "accounted ps data t u" "mset u = mset u1 + mset u2"
  shows "\<exists>rest. accounted ps rest t u1 \<and> mset data = mset rest + mset u2"
proof -
  obtain rs where rs: "mset data = mset u + mset (map fst rs)" "mset t = mset (map snd rs)"
      "\<forall>(pair, x) \<in> set rs. \<exists>mods. resolve_trap_varbind ps mods pair = Inr x"
    using assms(1) unfolding accounted_def by blast
  have "accounted ps (u1 @ map fst rs) t u1"
    unfolding accounted_def by (rule exI [of _ rs]) (use rs in auto)
  moreover have "mset data = mset (u1 @ map fst rs) + mset u2" using rs(1) assms(2) by simp
  ultimately show ?thesis by blast
qed

lemma first_pass_accounted:
  assumes "first_pass env data p = (Inr (t, u), p')"
  shows "accounted (te_pysnmp env) data t u"
proof -
  obtain l p1 where pre: "preload_trap_mibs (te_loads env) data p = (l, p1)" by fastforce
  obtain t1 u1 where one: "resolve_work_varbinds (te_pysnmp env) (loaded_modules p1) data = Inr (t1, u1)"
    using assms pre by (auto simp: first_pass_def split: sum.splits)
  have acc: "accounted (te_pysnmp env) data t1 u1" by (rule resolve_work_accounted [OF one])
  show ?thesis
  proof (cases "l \<or> u1 = []")
    case True
    then show ?thesis using assms pre one acc by (auto simp: first_pass_def)
  next
    case False
    let ?k = "\<lambda>vb :: trap_pair. fst (is_mib_known (poller_mib_map p1) (fst vb))"
    have "retry_trap_varbinds_after_mib_load (te_pysnmp env) (te_loads env) data u1 t1 p1 = (Inr (t, u), p')"
      using assms pre one False by (auto simp: first_pass_def)
    then consider "resolve_work_varbinds (te_pysnmp env) (loaded_modules p') data = Inr (t, u)"
      | "resolve_again (te_pysnmp env) (loaded_modules p') (filter ?k u1) (t1, filter (\<lambda>vb. \<not> ?k vb) u1) = Inr (t, u)"
      by (auto simp: retry_trap_varbinds_after_mib_load_def Let_def split: prod.splits bool.splits if_splits)
    then show ?thesis
    proof cases
      case 1
      then show ?thesis by (rule resolve_work_accounted)
    next
      case 2
      have "mset u1 = mset (filter (\<lambda>vb. \<not> ?k vb) u1) + mset (filter ?k u1)"
        by (induction u1) simp_all
      then obtain rest where rest: "accounted (te_pysnmp env) rest t1 (filter (\<lambda>vb. \<not> ?k vb) u1)"
          "mset data = mset rest + mset (filter ?k u1)"
        using accounted_part [OF acc] by blast
      from resolve_again_accounted [OF 2 rest(1)] show ?thesis
        by (rule accounted_perm) (simp_all add: rest(2))
    qed
  qed
qed

lemma trap_metrics_accounted:
  assumes "trap_metrics env data p = (Inr (t, u, ms), p')"
  shows "accounted (te_pysnmp env) data t u"
proof -
  obtain t1 u1 p1 where one: "first_pass env data p = (Inr (t1, u1), p1)"
    and two: "re_resolve_trap_work_if_needed (te_pysnmp env) (loaded_modules p1) data (t1, u1) = Inr (t, u)"
    using assms by (auto simp: trap_metrics_def split: prod.splits sum.splits)
  show ?thesis
    using first_pass_accounted [OF one] resolve_work_accounted two
    by (auto simp: re_resolve_trap_work_if_needed_def split: if_splits)
qed

lemma merge_unresolved_props:
  "set (merge_unresolved_trap_varbinds sources) = set (concat sources)"
  "distinct (merge_unresolved_trap_varbinds sources)"
proof -
  have "set (fold (\<lambda>pair merged. if pair \<in> set merged then merged else merged @ [pair]) xs ys) = set ys \<union> set xs \<and>
      (distinct ys \<longrightarrow> distinct (fold (\<lambda>pair merged. if pair \<in> set merged then merged else merged @ [pair]) xs ys))"
    for xs ys :: "trap_pair list"
    by (induction xs arbitrary: ys) (auto simp: insert_absorb)
  then show "set (merge_unresolved_trap_varbinds sources) = set (concat sources)"
    "distinct (merge_unresolved_trap_varbinds sources)"
    unfolding merge_unresolved_trap_varbinds_def by auto
qed

definition forwarded :: "metrics \<Rightarrow> string \<Rightarrow> pyval option" where
  \<comment> \<open>the value that the group of the unresolved has for an OID\<close>
  "forwarded ms oid =
     (case dict_get ms UNRESOLVED_TRAP_GROUP_KEY of
        None \<Rightarrow> None
      | Some g \<Rightarrow> map_option m_value (dict_get (g_fields g) (unresolved_field_name oid)))"

lemma unresolved_fields_get:
  "dict_get (fold (\<lambda>(name, v). dict_set (unresolved_field_name name)
       \<lparr>m_time = now, m_type = ''f'', m_value = value_as_best v, m_oid = name\<rparr>) xs d) (unresolved_field_name oid) =
     (case find (\<lambda>nv. fst nv = oid) (rev xs) of
        None \<Rightarrow> dict_get d (unresolved_field_name oid)
      | Some nv \<Rightarrow> Some \<lparr>m_time = now, m_type = ''f'', m_value = value_as_best (snd nv), m_oid = oid\<rparr>)"
  by (induction xs rule: rev_induct) (auto simp: unresolved_field_name_def)

definition needs_forwarding :: "snmp_vb list \<Rightarrow> trap_pair list \<Rightarrow> metrics \<Rightarrow> string \<Rightarrow> bool" where
  \<comment> \<open>an OID that was not resolved, or that gave no metric and no field\<close>
  "needs_forwarding table unresolved result oid \<longleftrightarrow>
     oid \<in> fst ` set unresolved \<or> oid \<in> sv_oid ` set table \<and> oid \<notin> set (collect_processed_trap_oids result)"

lemma find_SomeD: "find P (rev xs) = Some x \<Longrightarrow> x \<in> set xs \<and> P x"
  by (induction xs rule: rev_induct) (auto split: if_splits)

definition value_of_oid :: "snmp_vb list \<Rightarrow> trap_pair list \<Rightarrow> string \<Rightarrow> string \<Rightarrow> bool" where
  \<comment> \<open>a text that the unresolved pairs or the table have for an OID\<close>
  "value_of_oid table unresolved oid v \<longleftrightarrow>
     (oid, v) \<in> set unresolved \<or> (\<exists>vb \<in> set table. sv_oid vb = oid \<and> sv_pretty vb = v)"

lemma forward_unresolved_value:
  assumes "te_include env" "needs_forwarding table unresolved result oid"
  shows "\<exists>v. value_of_oid table unresolved oid v \<and>
    forwarded (forward_unresolved env table unresolved result) oid = Some (value_as_best v)"
proof -
  let ?merged = "merge_unresolved_trap_varbinds [unresolved, unprocessed_trap_varbinds table result]"
  have merged: "set ?merged = set unresolved \<union> set (unprocessed_trap_varbinds table result)"
    by (simp add: merge_unresolved_props(1))
  then have oid_in: "oid \<in> fst ` set ?merged"
    using assms(2) by (auto simp: needs_forwarding_def unprocessed_trap_varbinds_def image_Un image_image)
  then obtain nv where nv: "find (\<lambda>nv. fst nv = oid) (rev ?merged) = Some nv"
    by (cases "find (\<lambda>nv. fst nv = oid) (rev ?merged)") (auto simp: find_None_iff)
  then have "nv \<in> set ?merged" "fst nv = oid" by (auto dest: find_SomeD)
  then have "nv \<in> set unresolved \<union> set (unprocessed_trap_varbinds table result)" "fst nv = oid"
    unfolding merged by simp_all
  then have "value_of_oid table unresolved oid (snd nv)"
    by (cases nv) (auto simp: value_of_oid_def unprocessed_trap_varbinds_def)
  moreover have "?merged \<noteq> []" using oid_in by auto
  then have "forwarded (forward_unresolved env table unresolved result) oid = Some (value_as_best (snd nv))"
    using assms(1) nv by (simp add: forward_unresolved_def forwarded_def append_unresolved_trap_varbinds_def
        Let_def unresolved_fields_get)
  ultimately show ?thesis by blast
qed

lemma forward_unresolved_has:
  assumes "te_include env" "needs_forwarding table unresolved result oid"
  shows "forwarded (forward_unresolved env table unresolved result) oid \<noteq> None"
  using forward_unresolved_value [OF assms] by auto

text \<open>
  C7.  With the forwarding of unresolved varbinds on, no varbind of a trap gets lost: each one that
  is decoded is among the unresolved ones or pysnmp resolved it to an object of the table, which has
  nothing else; every unresolved OID is forwarded with a value that the trap has for it, and so is
  every OID of the table that gave no metric and no field.
\<close>

theorem trap_forwards_every_oid:
  assumes "te_include env" "trap_metrics env data p = (Inr (table, unresolved, result), p')"
  shows "accounted (te_pysnmp env) data table unresolved \<and>
    (\<forall>oid. oid \<in> fst ` set unresolved \<or> oid \<in> sv_oid ` set table \<and> oid \<notin> set (collect_processed_trap_oids result) \<longrightarrow>
       (\<exists>v. value_of_oid table unresolved oid v \<and>
          forwarded (forward_unresolved env table unresolved result) oid = Some (value_as_best v)))"
  using trap_metrics_accounted [OF assms(2)] forward_unresolved_value [OF assms(1), of table unresolved result]
  by (auto simp: needs_forwarding_def)

definition unknown_vb :: snmp_vb where
  "unknown_vb = \<lparr>sv_oid = ''1.3.6'', sv_id = ''SNMPv2-SMI::enterprises.5'', sv_mib = ''SNMPv2-SMI'', sv_metric = ''enterprises'',
     sv_index = [], sv_type = ''Null'', sv_float = None, sv_pretty = ''x'', sv_now = FNan\<rparr>"

definition sample_pysnmp :: pysnmp where
  \<comment> \<open>resolves the one name \<open>1.3.6\<close>, to an object whose symbol stays unknown\<close>
  "sample_pysnmp =
     \<lparr>ps_object = (\<lambda>_ name _. if name = ''1.3.6'' then Inr unknown_vb else Inl SmiError),
      ps_location = (\<lambda>_ _. Inl SmiError), ps_identity = (\<lambda>_ _. Inl SmiError),
      ps_resolved = (\<lambda>_ _ _. Inl SmiError)\<rparr>"

definition sample_trap_env :: trap_env where
  "sample_trap_env =
     \<lparr>te_pysnmp = sample_pysnmp, te_loads = (\<lambda>_. False), te_limit = 0, te_include = True,
      te_resolve_address = False, te_lookup = (\<lambda>_. None), te_ipv6 = False, te_now = FNan,
      te_sourcetype = ''sc4snmp:traps''\<rparr>"

definition sample_trap_poller :: poller where
  "sample_trap_poller =
     \<lparr>last_modified = 0, profiles_coll = \<lparr>pc_raw = [], pc_profiles = []\<rparr>, already_loaded_mibs = [],
      already_attempted_mibs = [], loaded_modules = [], poller_mib_map = []\<rparr>"

lemma sample_trap_metrics:
  "trap_metrics sample_trap_env [(''1.3.6'', ''x''), (''no'', ''y'')] sample_trap_poller =
     (Inr ([unknown_vb], [(''no'', ''y'')], []), sample_trap_poller)"
  by code_simp

theorem trap_forwards_every_oid_witness:
  "accounted sample_pysnmp [(''1.3.6'', ''x''), (''no'', ''y'')] [unknown_vb] [(''no'', ''y'')] \<and>
   forwarded (forward_unresolved sample_trap_env [unknown_vb] [(''no'', ''y'')] []) ''no'' = Some (value_as_best ''y'') \<and>
   forwarded (forward_unresolved sample_trap_env [unknown_vb] [(''no'', ''y'')] []) ''1.3.6'' = Some (value_as_best ''x'')"
proof -
  have "te_include sample_trap_env" by (simp add: sample_trap_env_def)
  note t = trap_forwards_every_oid [OF this sample_trap_metrics]
  show ?thesis
    using t [THEN conjunct1] t [THEN conjunct2, rule_format, of "''no''"] t [THEN conjunct2, rule_format, of "''1.3.6''"]
    by (simp add: unknown_vb_def collect_processed_trap_oids_def value_of_oid_def sample_trap_env_def)
qed

text \<open>
  Of several values that a trap has for one untranslated OID only the last is forwarded: the
  group is keyed by the OID, although the sources were merged so that no value gets lost.
\<close>

theorem unresolved_values_collapse:
  assumes "te_include env" "oid \<in> fst ` set unresolved" "unprocessed_trap_varbinds table result = []"
    "distinct unresolved"
  shows "forwarded (forward_unresolved env table unresolved result) oid =
    Some (value_as_best (snd (last (filter (\<lambda>nv. fst nv = oid) unresolved))))"
proof -
  have keep: "fold (\<lambda>pair merged. if pair \<in> set merged then merged else merged @ [pair]) xs ys = ys @ xs"
    if "distinct (ys @ xs)" for xs ys :: "trap_pair list"
    using that by (induction xs arbitrary: ys) auto
  have merged: "merge_unresolved_trap_varbinds [unresolved, []] = unresolved"
    using assms(4) by (simp add: merge_unresolved_trap_varbinds_def keep)
  have found: "filter (\<lambda>nv. fst nv = oid) unresolved \<noteq> []"
    using assms(2) by (auto simp: filter_empty_conv)
  have "find (\<lambda>nv. fst nv = oid) (rev xs) = Some (last (filter (\<lambda>nv. fst nv = oid) xs))"
    if "filter (\<lambda>nv. fst nv = oid) xs \<noteq> []" for xs :: "trap_pair list"
    using that by (induction xs rule: rev_induct) (auto split: if_splits)
  from this [OF found] have "find (\<lambda>nv. fst nv = oid) (rev unresolved) =
      Some (last (filter (\<lambda>nv. fst nv = oid) unresolved))" .
  moreover have "unresolved \<noteq> []" using assms(2) by auto
  ultimately show ?thesis
    using assms(1,3) merged by (simp add: forward_unresolved_def forwarded_def append_unresolved_trap_varbinds_def
        Let_def unresolved_fields_get)
qed

theorem unresolved_values_collapse_witness:
  "forwarded (forward_unresolved sample_trap_env [] [(''1.3'', ''a''), (''1.3'', ''b'')] []) ''1.3'' =
     Some (PStr ''b'')"
proof -
  have "value_as_best ''b'' = PStr ''b''" by code_simp
  then show ?thesis
    using unresolved_values_collapse [of sample_trap_env "''1.3''" "[(''1.3'', ''a''), (''1.3'', ''b'')]" "[]" "[]"]
    by (simp add: sample_trap_env_def unprocessed_trap_varbinds_def)
qed

section \<open>A module is attempted once\<close>

definition attempts :: "(string \<Rightarrow> bool) \<Rightarrow> poller \<Rightarrow> poller \<Rightarrow> bool" where
  \<comment> \<open>the second state comes from the first by attempting modules that were not attempted before\<close>
  "attempts loads p p' =
     (\<exists>new. distinct new \<and> set new \<inter> set (already_attempted_mibs p) = {} \<and>
        already_attempted_mibs p' = already_attempted_mibs p @ new \<and>
        loaded_modules p' = loaded_modules p @ filter (\<lambda>m. m \<noteq> [] \<and> loads m) new \<and>
        poller_mib_map p' = poller_mib_map p)"

lemma attempts_refl [simp]: "attempts loads p p"
  by (simp add: attempts_def)

lemma attempts_trans:
  assumes "attempts loads p q" "attempts loads q r"
  shows "attempts loads p r"
proof -
  obtain xs where xs: "distinct xs" "set xs \<inter> set (already_attempted_mibs p) = {}"
      "already_attempted_mibs q = already_attempted_mibs p @ xs"
      "loaded_modules q = loaded_modules p @ filter (\<lambda>m. m \<noteq> [] \<and> loads m) xs" "poller_mib_map q = poller_mib_map p"
    using assms(1) by (auto simp: attempts_def)
  obtain ys where ys: "distinct ys" "set ys \<inter> set (already_attempted_mibs q) = {}"
      "already_attempted_mibs r = already_attempted_mibs q @ ys"
      "loaded_modules r = loaded_modules q @ filter (\<lambda>m. m \<noteq> [] \<and> loads m) ys" "poller_mib_map r = poller_mib_map q"
    using assms(2) by (auto simp: attempts_def)
  show ?thesis
    unfolding attempts_def by (rule exI [of _ "xs @ ys"]) (use xs ys in auto)
qed

lemma load_new_trap_mibs_attempts: "attempts loads p (snd (load_new_trap_mibs loads names p))"
proof -
  let ?new = "filter (\<lambda>m. m \<notin> set (already_attempted_mibs p)) (remdups names)"
  show ?thesis
  proof (cases "?new = []")
    case True
    then show ?thesis by (simp add: load_new_trap_mibs_def Let_def)
  next
    case False
    then show ?thesis
      by (auto simp: load_new_trap_mibs_def Let_def load_mibs_def note_loaded_def attempts_def intro!: exI [of _ ?new])
  qed
qed

lemma retry_trap_attempts:
  "attempts loads p (snd (retry_trap_varbinds_after_mib_load ps loads data not_translated table p))"
  using load_new_trap_mibs_attempts [of loads p]
  by (auto simp: retry_trap_varbinds_after_mib_load_def Let_def split: prod.splits bool.splits)
     (metis snd_conv)+

lemma process_trap_attempts:
  "attempts loads p (snd (process_trap_metrics n ps loads data table ms p))"
proof (induction n arbitrary: table ms p)
  case (Suc n)
  obtain retry rm ms' where step: "process_snmp_data (poller_mib_map p) [] table [] ms = (retry, rm, ms')"
    by (metis prod_cases3)
  obtain l p' where load: "load_new_trap_mibs loads rm p = (l, p')" by fastforce
  have one: "attempts loads p p'" using load_new_trap_mibs_attempts [of loads p rm] load by simp
  then show ?case
    using step load Suc.IH [of p'] attempts_trans [OF one]
    by (auto split: sum.split bool.split)
qed simp

lemma first_pass_attempts: "attempts (te_loads env) p (snd (first_pass env data p))"
proof -
  obtain l p1 where pre: "preload_trap_mibs (te_loads env) data p = (l, p1)" by fastforce
  have one: "attempts (te_loads env) p p1"
    using load_new_trap_mibs_attempts pre unfolding preload_trap_mibs_def by (metis snd_conv)
  show ?thesis
    using pre one attempts_trans [OF one retry_trap_attempts]
    by (auto simp: first_pass_def split: sum.split prod.split)
qed

interpretation att: progress "attempts loads" for loads
  by unfold_locales (auto intro: attempts_trans)

lemma trap_attempts: "attempts (te_loads env) p (snd (trap env work p))"
proof -
  have "attempts (te_loads env) p (snd (trap_metrics env data p))" for data
    using first_pass_attempts [of env p data] attempts_trans [OF _ process_trap_attempts]
    by (auto simp: trap_metrics_def split: prod.split sum.split) (metis snd_conv)+
  then show ?thesis
    by (auto simp: trap_def Let_def split: prod.split sum.split) (metis snd_conv)+
qed

definition trap_history ::
  "(string \<Rightarrow> bool) \<Rightarrow> (trap_env \<times> trap_work) list \<Rightarrow> poller \<Rightarrow> poller" where
  \<comment> \<open>the worker after so many traps, handled in any environments with the same MIB modules\<close>
  "trap_history loads = fold (\<lambda>(env, work) p. snd (trap (env\<lparr>te_loads := loads\<rparr>) work p))"

text \<open>
  C22.  Over any sequence of traps, however each of them ends, a worker attempts only modules that
  it had not attempted before, each once, and the builder has loaded exactly those of them that
  exist, in that order.
\<close>

theorem trap_attempts_once: "attempts loads p (trap_history loads works p)"
  unfolding trap_history_def
proof (rule att.rel_fold)
  fix x p
  show "attempts loads p ((case x of (env, work) \<Rightarrow> \<lambda>p. snd (trap (env\<lparr>te_loads := loads\<rparr>) work p)) p)"
    using trap_attempts [of "fst x\<lparr>te_loads := loads\<rparr>" p "snd x"] by (simp add: case_prod_unfold)
qed

end
