(* ===== verification/Auth.thy ===== *)
theory Auth
  imports Records
begin

text \<open>
  SNMP credentials (\<^verbatim>\<open>splunk_connect_for_snmp/snmp/auth.py\<close> and \<^verbatim>\<open>snmp/const.py\<close>): the secrets of
  a record, the engine identifier of an SNMPv3 target, and the credentials of a discovery, whose
  targets share one SNMP engine.

  The file system, the resolver of names and pysnmp are the record \<open>auth_env\<close>.  What is done to an
  SNMP engine is recorded as a list of events.
\<close>

section \<open>Protocols\<close>

text \<open>The constants of pysnmp are named, not valued.\<close>

definition AuthProtocolMap :: "(string, string) dict" where
  "AuthProtocolMap =
     [(''MD5'', ''USM_AUTH_HMAC96_MD5''), (''SHA'', ''USM_AUTH_HMAC96_SHA''),
      (''SHA224'', ''USM_AUTH_HMAC128_SHA224''), (''SHA256'', ''USM_AUTH_HMAC192_SHA256''),
      (''SHA384'', ''USM_AUTH_HMAC256_SHA384''), (''SHA512'', ''USM_AUTH_HMAC384_SHA512''),
      (''NONE'', ''USM_AUTH_NONE'')]"

definition PrivProtocolMap :: "(string, string) dict" where
  "PrivProtocolMap =
     [(''DES'', ''USM_PRIV_CBC56_DES''), (''3DES'', ''USM_PRIV_CBC168_3DES''),
      (''AES'', ''USM_PRIV_CFB128_AES''), (''AES128'', ''USM_PRIV_CFB128_AES''),
      (''AES192'', ''USM_PRIV_CFB192_AES''), (''AES192BLMT'', ''USM_PRIV_CFB192_AES_BLUMENTHAL''),
      (''AES256'', ''USM_PRIV_CFB256_AES''), (''AES256BLMT'', ''USM_PRIV_CFB256_AES_BLUMENTHAL''),
      (''NONE'', ''USM_PRIV_NONE'')]"

section \<open>The environment\<close>

record secret_store =
  ss_exists :: "string \<Rightarrow> bool"             \<comment> \<open>\<open>os.path.exists\<close>\<close>
  ss_read :: "string \<Rightarrow> string result"      \<comment> \<open>what \<open>read\<close> returns of a text file\<close>

datatype engine_ref = SharedEngine | ProbeEngine

datatype auth_event =
    RegisterObserver engine_ref
  | GetCmd engine_ref kwargs               \<comment> \<open>a request with invalid credentials for a record's target\<close>
  | UnregisterObserver engine_ref
  | CloseDispatcher engine_ref

datatype transport = UdpTarget pyval pyval | Udp6Target pyval pyval

text \<open>The arguments of \<open>UsmUserData\<close>; an octet string has the type \<open>'o\<close>.\<close>

record 'o usm_call =
  uc_name :: string
  uc_auth_key :: "string option"
  uc_priv_key :: "string option"
  uc_auth_protocol :: string
  uc_priv_protocol :: string
  uc_engine :: 'o
  uc_auth_key_type :: int
  uc_priv_key_type :: int

record 'o usm_user =                         \<comment> \<open>the attributes that the code reads or writes\<close>
  uu_call :: "'o usm_call"
  uu_auth_key :: "string option"
  uu_auth_key_type :: int
  uu_priv_key :: "string option"
  uu_priv_key_type :: int
  uu_engine :: "'o option"

datatype 'o auth_data = Community pyval nat | Usm "'o usm_user"

record 'o auth_env =
  au_store :: secret_store
  au_ipv6 :: bool                                            \<comment> \<open>\<open>IPv6_ENABLED\<close>\<close>
  au_getaddrinfo :: "pyval \<Rightarrow> pyval \<Rightarrow> string result"      \<comment> \<open>the first address\<close>
  au_create :: "transport \<Rightarrow> unit result"                   \<comment> \<open>\<open>create\<close> of the transport targets\<close>
  au_get_cmd :: "engine_ref \<Rightarrow> kwargs \<Rightarrow> 'o option result"  \<comment> \<open>what the observer captured\<close>
  au_octets :: "string \<Rightarrow> 'o result"                        \<comment> \<open>\<open>OctetString(hexValue=...)\<close>\<close>
  au_user :: "'o usm_call \<Rightarrow> 'o usm_user result"            \<comment> \<open>\<open>UsmUserData(...)\<close>\<close>
  au_local_engine :: string                                  \<comment> \<open>the engine identifier of the shared engine in hex\<close>
  au_localized :: int                                        \<comment> \<open>\<open>USM_KEY_TYPE_LOCALIZED\<close>\<close>

section \<open>Secrets\<close>

definition path_join :: "string \<Rightarrow> string \<Rightarrow> string" where
  \<comment> \<open>\<open>os.path.join\<close> of POSIX\<close>
  "path_join a b =
     (if str_startswith b ''/'' then b
      else if a = [] \<or> last a = CHR ''/'' then a @ b
      else a @ ''/'' @ b)"

definition get_secret_value ::
  "secret_store \<Rightarrow> string \<Rightarrow> string \<Rightarrow> string option \<Rightarrow> bool \<Rightarrow> string option result" where
  "get_secret_value st location key dflt required =
     (let source = path_join location key in
      if ss_exists st source
      then res_map (\<lambda>t. Some (str_replace [CHR 0x0A] [] t)) (ss_read st source)
      else if required then Inl FileNotFoundError
      else Inr dflt)"

definition secret_text :: "secret_store \<Rightarrow> string \<Rightarrow> string \<Rightarrow> string \<Rightarrow> bool \<Rightarrow> string result" where
  \<comment> \<open>with a default that is a text the result is one\<close>
  "secret_text st location key dflt required =
     res_map (\<lambda>v. case v of Some t \<Rightarrow> t | None \<Rightarrow> []) (get_secret_value st location key (Some dflt) required)"

definition non_empty :: "string \<Rightarrow> string option" where
  \<comment> \<open>\<open>key if key else None\<close>\<close>
  "non_empty s = (if s = [] then None else Some s)"

section \<open>Transports and engine identifiers\<close>

definition get_ip_from_socket :: "'o auth_env \<Rightarrow> kwargs \<Rightarrow> string result" where
  "get_ip_from_socket env rt = au_getaddrinfo env (rec_field rt ''address'') (rec_field rt ''port'')"

definition setup_transport_target :: "'o auth_env \<Rightarrow> kwargs \<Rightarrow> transport result" where
  "setup_transport_target env rt =
     (let address = rec_field rt ''address''; port = rec_field rt ''port'' in
      res_bind (if au_ipv6 env then res_map PStr (get_ip_from_socket env rt) else Inr address) (\<lambda>ip.
        case ip of
          PStr s \<Rightarrow>
            res_bind (if au_ipv6 env
                      then res_map (\<lambda>a. case a of V6 _ \<Rightarrow> Udp6Target address port | V4 _ \<Rightarrow> UdpTarget address port) (ip_address s)
                      else Inr (UdpTarget address port)) (\<lambda>target.
            res_map (\<lambda>_. target) (au_create env target))
        | _ \<Rightarrow> Inl SnmpActionError))"

definition fetch_security_engine_id :: "'o option \<Rightarrow> 'o result" where
  "fetch_security_engine_id captured = (case captured of Some i \<Rightarrow> Inr i | None \<Rightarrow> Inl SnmpActionError)"

definition get_security_engine_id ::
  "'o auth_env \<Rightarrow> kwargs \<Rightarrow> engine_ref \<Rightarrow> (auth_event, 'o) effect" where
  "get_security_engine_id env rt eng =
     eff_bind ([], setup_transport_target env rt) (\<lambda>target.
       ([RegisterObserver eng, GetCmd eng rt, UnregisterObserver eng],
        res_bind (au_get_cmd env eng rt) fetch_security_engine_id))"

section \<open>Credentials\<close>

definition configured_engine :: "bool \<Rightarrow> pyval \<Rightarrow> string option" where
  \<comment> \<open>the text of an engine identifier that counts as configured; the flag says that it is marked
     by the class \<open>_ConfiguredSecurityEngineId\<close>, whose \<open>isdigit\<close> is false\<close>
  "configured_engine marked v =
     (case v of
        PStr s \<Rightarrow> if s \<noteq> [] \<and> (marked \<or> \<not> str_isdigit s) then Some s else None
      | _ \<Rightarrow> None)"

definition get_auth_v3 ::
  "'o auth_env \<Rightarrow> bool \<Rightarrow> kwargs \<Rightarrow> engine_ref \<Rightarrow> (auth_event, 'o usm_user) effect" where
  "get_auth_v3 env marked rt eng =
     (let st = au_store env in
      case rec_field rt ''secret'' of
        PStr secret \<Rightarrow>
          (let location = path_join ''secrets/snmpv3'' secret in
           if ss_exists st location
           then
             eff_bind ([], secret_text st location ''userName'' [] True) (\<lambda>username.
             eff_bind ([], secret_text st location ''authKey'' [] False) (\<lambda>auth_key.
             eff_bind ([], secret_text st location ''privKey'' [] False) (\<lambda>priv_key.
             eff_bind ([], secret_text st location ''authProtocol'' [] False) (\<lambda>auth_protocol.
             eff_bind ([], secret_text st location ''privProtocol'' ''NONE'' False) (\<lambda>priv_protocol.
             eff_bind ([], res_bind (secret_text st location ''authKeyType'' ''0'' False) parse_int) (\<lambda>auth_key_type.
             eff_bind ([], res_bind (secret_text st location ''privKeyType'' ''0'' False) parse_int) (\<lambda>priv_key_type.
             eff_bind (case configured_engine marked (rec_field rt ''security_engine'') of
                         Some s \<Rightarrow> ([], au_octets env s)
                       | None \<Rightarrow> get_security_engine_id env rt eng) (\<lambda>engine_id.
             ([], au_user env
                \<lparr>uc_name = username, uc_auth_key = non_empty auth_key, uc_priv_key = non_empty priv_key,
                 uc_auth_protocol = dict_get_or AuthProtocolMap (str_upper auth_protocol) ''USM_AUTH_NONE'',
                 uc_priv_protocol = dict_get_or PrivProtocolMap (str_upper priv_protocol) ''USM_PRIV_NONE'',
                 uc_engine = engine_id, uc_auth_key_type = auth_key_type,
                 uc_priv_key_type = priv_key_type\<rparr>)))))))))
           else ([], Inl FileNotFoundError))
      | _ \<Rightarrow> ([], Inl TypeError))"

definition get_auth_v2c :: "kwargs \<Rightarrow> 'o auth_data" where
  "get_auth_v2c rt = Community (rec_field rt ''community'') 1"

definition get_auth_v1 :: "kwargs \<Rightarrow> 'o auth_data" where
  "get_auth_v1 rt = Community (rec_field rt ''community'') 0"

definition get_auth ::
  "'o auth_env \<Rightarrow> bool \<Rightarrow> kwargs \<Rightarrow> engine_ref \<Rightarrow> (auth_event, 'o auth_data) effect" where
  "get_auth env marked rt eng =
     (let version = rec_field rt ''version'' in
      if version = PStr ''1'' then ([], Inr (get_auth_v1 rt))
      else if version = PStr ''2c'' then ([], Inr (get_auth_v2c rt))
      else if version = PStr ''3'' then eff_bind (get_auth_v3 env marked rt eng) (\<lambda>u. ([], Inr (Usm u)))
      else ([], Inl SnmpActionError))"

definition uses_localized_key :: "'o auth_env \<Rightarrow> 'o usm_user \<Rightarrow> bool" where
  "uses_localized_key env u =
     list_ex (\<lambda>(key, key_type). key \<noteq> None \<and> key_type = au_localized env)
       [(uu_auth_key u, uu_auth_key_type u), (uu_priv_key u, uu_priv_key_type u)]"

definition get_discovery_auth :: "'o auth_env \<Rightarrow> kwargs \<Rightarrow> (auth_event, 'o auth_data) effect" where
  "get_discovery_auth env rt =
     (if rec_field rt ''version'' \<noteq> PStr ''3''
         \<or> configured_engine False (rec_field rt ''security_engine'') \<noteq> None
      then get_auth env False rt SharedEngine
      else
        eff_bind (get_auth env True (dict_set ''security_engine'' (PStr (au_local_engine env)) rt) SharedEngine)
          (\<lambda>auth_data. case auth_data of
             Usm u \<Rightarrow>
               if uses_localized_key env u
               then (case get_security_engine_id env rt ProbeEngine of
                       (evs, r) \<Rightarrow> (evs @ [CloseDispatcher ProbeEngine],
                                    res_map (\<lambda>i. Usm (u\<lparr>uu_engine := Some i\<rparr>)) r))
               else ([], Inr (Usm (u\<lparr>uu_engine := None\<rparr>)))
           | Community _ _ \<Rightarrow> ([], Inl AttributeError)))"

section \<open>What a probe leaves behind\<close>

lemma get_security_engine_id_events:
  "fst (get_security_engine_id env rt eng) \<in>
     {[], [RegisterObserver eng, GetCmd eng rt, UnregisterObserver eng]}"
  by (cases "setup_transport_target env rt") (simp_all add: get_security_engine_id_def)

lemma get_security_engine_id_ok:
  assumes "snd (get_security_engine_id env rt eng) = Inr i"
  shows "au_get_cmd env eng rt = Inr (Some i)"
  using assms
  by (cases "setup_transport_target env rt"; cases "au_get_cmd env eng rt")
     (auto simp: get_security_engine_id_def fetch_security_engine_id_def split: option.splits)

lemma get_auth_v3_events:
  "fst (get_auth_v3 env marked rt eng) = [] \<or>
   configured_engine marked (rec_field rt ''security_engine'') = None \<and>
   fst (get_auth_v3 env marked rt eng) \<in> {[RegisterObserver eng, GetCmd eng rt, UnregisterObserver eng]}"
proof -
  have bind: "fst (eff_bind m (\<lambda>x. ([], f x))) = fst m" for m :: "(auth_event, 'b) effect" and f :: "'b \<Rightarrow> 'c result"
    by (cases m; cases "snd m") auto
  show ?thesis
    using get_security_engine_id_events [of env rt eng]
    by (auto simp: get_auth_v3_def Let_def eff_bind_pure bind split: pyval.split sum.split option.split)
qed

lemma configured_engine_marked: "s \<noteq> [] \<Longrightarrow> configured_engine True (PStr s) = Some s"
  by (simp add: configured_engine_def)

lemma rec_field_set [simp]: "rec_field (dict_set k v rt) k' = (if k' = k then v else rec_field rt k')"
  by (simp add: rec_field_def dict_get_or_def)

lemma get_auth_configured_quiet:
  assumes "rec_field rt ''version'' \<noteq> PStr ''3'' \<or> configured_engine marked (rec_field rt ''security_engine'') \<noteq> None"
  shows "fst (get_auth env marked rt eng) = []"
proof -
  have "fst (get_auth_v3 env marked rt eng) = []" if "configured_engine marked (rec_field rt ''security_engine'') \<noteq> None"
    using that get_auth_v3_events [of env marked rt eng] by auto
  then show ?thesis
    using assms by (cases "snd (get_auth_v3 env marked rt eng)"; cases "get_auth_v3 env marked rt eng")
      (auto simp: get_auth_def Let_def)
qed

text \<open>
  C20.  The credentials of a discovery never touch the engine that all targets share: an engine
  identifier is probed, if at all, on an engine of its own, for this record, with the observer
  removed and the engine closed whatever the probe ended with.
\<close>

theorem discovery_never_probes_shared:
  assumes "au_local_engine env \<noteq> []"
  shows "fst (get_discovery_auth env rt) \<in>
    {[], [CloseDispatcher ProbeEngine],
     [RegisterObserver ProbeEngine, GetCmd ProbeEngine rt, UnregisterObserver ProbeEngine, CloseDispatcher ProbeEngine]}"
proof (cases "rec_field rt ''version'' \<noteq> PStr ''3'' \<or> configured_engine False (rec_field rt ''security_engine'') \<noteq> None")
  case True
  then show ?thesis by (simp add: get_discovery_auth_def get_auth_configured_quiet [OF True])
next
  case False
  let ?rt = "dict_set ''security_engine'' (PStr (au_local_engine env)) rt"
  have "fst (get_auth env True ?rt SharedEngine) = []"
    by (rule get_auth_configured_quiet) (simp add: configured_engine_marked assms)
  then obtain r where r: "get_auth env True ?rt SharedEngine = ([], r)" by (metis prod.collapse)
  show ?thesis
    using False r get_security_engine_id_events [of env rt ProbeEngine]
    by (auto simp: get_discovery_auth_def eff_bind_pure split: sum.split auth_data.split prod.split)
qed

text \<open>
  For an SNMPv3 target without a configured engine identifier the credentials of a discovery
  carry the identifier that the target itself reported when a key is localized, and none
  otherwise; the identifier of the shared engine, which stood in for it, never remains.
\<close>

theorem discovery_engine_of_target:
  assumes "rec_field rt ''version'' = PStr ''3''"
    "configured_engine False (rec_field rt ''security_engine'') = None"
    "snd (get_discovery_auth env rt) = Inr auth"
  shows "\<exists>u. auth = Usm u \<and>
    (if uses_localized_key env u then au_get_cmd env ProbeEngine rt = Inr (uu_engine u) \<and> uu_engine u \<noteq> None
     else uu_engine u = None)"
proof -
  let ?rt = "dict_set ''security_engine'' (PStr (au_local_engine env)) rt"
  obtain cs r where ga: "get_auth env True ?rt SharedEngine = (cs, r)" by fastforce
  have localized: "uses_localized_key env (u\<lparr>uu_engine := e\<rparr>) = uses_localized_key env u" for u e
    by (simp add: uses_localized_key_def)
  obtain a where r: "r = Inr a" using assms ga by (cases r) (auto simp: get_discovery_auth_def)
  show ?thesis
  proof (cases a)
    case (Community c m)
    then show ?thesis using assms ga r by (auto simp: get_discovery_auth_def)
  next
    case (Usm u)
    obtain evs q where probe: "get_security_engine_id env rt ProbeEngine = (evs, q)" by fastforce
    show ?thesis
    proof (cases "uses_localized_key env u")
      case True
      then obtain i where q: "q = Inr i" "auth = auth_data.Usm (u\<lparr>uu_engine := Some i\<rparr>)"
        using assms ga r Usm probe by (cases q) (auto simp: get_discovery_auth_def)
      have "au_get_cmd env ProbeEngine rt = Inr (Some i)"
        by (rule get_security_engine_id_ok) (simp add: probe q)
      then show ?thesis using q True by (simp add: localized)
    next
      case False
      then show ?thesis using assms ga r Usm by (auto simp: get_discovery_auth_def localized)
    qed
  qed
qed

definition sample_auth_env :: "string auth_env" where
  \<comment> \<open>a secret \<open>s\<close> with a localized key of type 2, a target that reports its identifier\<close>
  "sample_auth_env =
     \<lparr>au_store = \<lparr>ss_exists = (\<lambda>p. p \<in> {''secrets/snmpv3/s'', ''secrets/snmpv3/s/userName'',
                                ''secrets/snmpv3/s/authKey'', ''secrets/snmpv3/s/authKeyType''}),
                  ss_read = (\<lambda>p. Inr (if p = ''secrets/snmpv3/s/authKeyType'' then ''2'' else ''u''))\<rparr>,
      au_ipv6 = False, au_getaddrinfo = (\<lambda>_ _. Inl OSError), au_create = (\<lambda>_. Inr ()),
      au_get_cmd = (\<lambda>_ _. Inr (Some ''ab'')), au_octets = Inr,
      au_user = (\<lambda>c. Inr \<lparr>uu_call = c, uu_auth_key = uc_auth_key c, uu_auth_key_type = uc_auth_key_type c,
                         uu_priv_key = uc_priv_key c, uu_priv_key_type = uc_priv_key_type c,
                         uu_engine = Some (uc_engine c)\<rparr>),
      au_local_engine = ''80'', au_localized = 2\<rparr>"

definition sample_v3 :: kwargs where
  "sample_v3 = [(''version'', PStr ''3''), (''address'', PStr ''10.0.0.1''), (''port'', PInt 161),
     (''secret'', PStr ''s''), (''security_engine'', PStr [])]"

theorem discovery_never_probes_shared_witness:
  "fst (get_discovery_auth sample_auth_env sample_v3) \<in>
    {[], [CloseDispatcher ProbeEngine],
     [RegisterObserver ProbeEngine, GetCmd ProbeEngine sample_v3, UnregisterObserver ProbeEngine,
      CloseDispatcher ProbeEngine]}"
  by (rule discovery_never_probes_shared) (simp add: sample_auth_env_def)

lemma sample_discovery_auth:
  "map_sum id (\<lambda>a. case a of Usm u \<Rightarrow> uu_engine u | Community _ _ \<Rightarrow> None)
     (snd (get_discovery_auth sample_auth_env sample_v3)) = Inr (Some ''ab'')"
  by code_simp

theorem discovery_engine_of_target_witness:
  "\<exists>u. snd (get_discovery_auth sample_auth_env sample_v3) = Inr (Usm u) \<and>
    (if uses_localized_key sample_auth_env u
     then au_get_cmd sample_auth_env ProbeEngine sample_v3 = Inr (uu_engine u) \<and> uu_engine u \<noteq> None
     else uu_engine u = None)"
proof -
  obtain a where a: "snd (get_discovery_auth sample_auth_env sample_v3) = Inr a"
    using sample_discovery_auth by (cases "snd (get_discovery_auth sample_auth_env sample_v3)") auto
  have "rec_field sample_v3 ''version'' = PStr ''3''"
    "configured_engine False (rec_field sample_v3 ''security_engine'') = None" by code_simp+
  from discovery_engine_of_target [OF this a] show ?thesis using a by auto
qed

section \<open>What a user is created with\<close>

lemma dict_get_or_in:
  "dict_get_or d k v \<in> insert v (set (map snd d))"
proof (cases "dict_get d k")
  case None
  then show ?thesis by (simp add: dict_get_or_def)
next
  case (Some x)
  then have "(k, x) \<in> set d" by (rule dict_get_SomeD)
  then show ?thesis using Some by (force simp: dict_get_or_def)
qed

text \<open>
  A user of SNMPv3 is created only with protocols that the code knows, an unknown name
  standing for no protocol, without empty keys, and with the configured engine identifier or else
  the one that the target reported.
\<close>

theorem auth_v3_user:
  assumes "snd (get_auth_v3 env marked rt eng) = Inr u"
  shows "\<exists>c. au_user env c = Inr u \<and>
    uc_auth_protocol c \<in> snd ` set AuthProtocolMap \<and> uc_priv_protocol c \<in> snd ` set PrivProtocolMap \<and>
    uc_auth_key c \<noteq> Some [] \<and> uc_priv_key c \<noteq> Some [] \<and>
    (case configured_engine marked (rec_field rt ''security_engine'') of
       Some s \<Rightarrow> au_octets env s = Inr (uc_engine c)
     | None \<Rightarrow> au_get_cmd env eng rt = Inr (Some (uc_engine c)))"
proof -
  have bind: "snd (eff_bind m f) = Inr y \<longleftrightarrow> (\<exists>x. snd m = Inr x \<and> snd (f x) = Inr y)"
    for m :: "(auth_event, 'x) effect" and f :: "'x \<Rightarrow> (auth_event, 'y) effect" and y
    by (cases m; cases "snd m") auto
  obtain s where s: "rec_field rt ''secret'' = PStr s"
    using assms by (auto simp: get_auth_v3_def Let_def split: pyval.splits)
  let ?e = "case configured_engine marked (rec_field rt ''security_engine'') of
      Some t \<Rightarrow> ([], au_octets env t) | None \<Rightarrow> get_security_engine_id env rt eng"
  obtain name ak pk ap pp at' pt i where engine: "snd ?e = Inr i" and user:
    "au_user env \<lparr>uc_name = name, uc_auth_key = non_empty ak, uc_priv_key = non_empty pk,
       uc_auth_protocol = dict_get_or AuthProtocolMap (str_upper ap) ''USM_AUTH_NONE'',
       uc_priv_protocol = dict_get_or PrivProtocolMap (str_upper pp) ''USM_PRIV_NONE'',
       uc_engine = i, uc_auth_key_type = at', uc_priv_key_type = pt\<rparr> = Inr u"
    using assms unfolding get_auth_v3_def Let_def s pyval.case
    by (auto simp only: bind snd_conv fst_conv split: if_splits)
  have "dict_get_or AuthProtocolMap k ''USM_AUTH_NONE'' \<in> snd ` set AuthProtocolMap"
    "dict_get_or PrivProtocolMap k ''USM_PRIV_NONE'' \<in> snd ` set PrivProtocolMap" for k
    using dict_get_or_in [of AuthProtocolMap k] dict_get_or_in [of PrivProtocolMap k]
    by (auto simp: AuthProtocolMap_def PrivProtocolMap_def)
  moreover have "non_empty t \<noteq> Some []" for t by (simp add: non_empty_def)
  ultimately show ?thesis
    using engine by - (rule exI, rule conjI, rule user, auto split: option.splits dest: get_security_engine_id_ok)
qed

theorem auth_v3_user_witness:
  "\<exists>u c. snd (get_auth_v3 sample_auth_env False sample_v3 SharedEngine) = Inr u \<and> au_user sample_auth_env c = Inr u \<and>
     uc_auth_key c \<noteq> Some []"
proof -
  have "is_ok (snd (get_auth_v3 sample_auth_env False sample_v3 SharedEngine))" by code_simp
  then obtain u where u: "snd (get_auth_v3 sample_auth_env False sample_v3 SharedEngine) = Inr u"
    by (auto simp: is_ok_def split: sum.splits)
  show ?thesis using auth_v3_user [OF u] u by blast
qed

end
