(* ===== verification/Traps.thy ===== *)
theory Traps
  imports Auth Collections TrapTask
begin

text \<open>
  The receiver of traps (\<^verbatim>\<open>splunk_connect_for_snmp/traps.py\<close>): what it registers with the SNMP
  engine when it starts, the engine identifiers it takes from raw datagrams, and the work that it
  hands to the task \<open>trap\<close>.

  Decoding of BER is pyasn1's, the record \<open>asn_lib\<close>; the registration of a user is pysnmp's, a
  function that accepts or raises.  The module's globals are the record \<open>receiver\<close>.
\<close>

section \<open>The security context of a message\<close>

record 'm asn_lib =
  al_version :: "string \<Rightarrow> int result"             \<comment> \<open>\<open>api.decodeMessageVersion\<close>\<close>
  al_decode :: "string \<Rightarrow> 'm result"               \<comment> \<open>\<open>decoder.decode(..., univ.Sequence())\<close>\<close>
  al_octets :: "'m \<Rightarrow> nat \<Rightarrow> string result"         \<comment> \<open>the octets of a component\<close>
  al_utf8 :: "string \<Rightarrow> string result"             \<comment> \<open>\<open>bytes.decode\<close>\<close>

definition decode_security_context ::
  "'m asn_lib \<Rightarrow> string \<Rightarrow> string option \<times> string option" where
  "decode_security_context asn msg =
     (case res_bind (al_version asn msg) (\<lambda>version.
         if version \<noteq> 3 then Inr (None, None)
         else res_bind (al_decode asn msg) (\<lambda>decoded.
              res_bind (al_octets asn decoded 2) (\<lambda>params.
              res_bind (al_decode asn params) (\<lambda>usm.
              res_bind (al_octets asn usm 0) (\<lambda>engine.
              res_bind (al_octets asn usm 3) (\<lambda>name.
              res_map (\<lambda>user. (Some (bytes_hex engine), Some user)) (al_utf8 asn name))))))) of
        Inl _ \<Rightarrow> (None, None)
      | Inr r \<Rightarrow> r)"

section \<open>The state of the receiver\<close>

record v3_user =
  vu_name :: string
  vu_auth_protocol :: string
  vu_auth_key :: "string option"
  vu_priv_protocol :: string
  vu_priv_key :: "string option"

record registration =                        \<comment> \<open>a call of \<open>config.add_v3_user\<close>\<close>
  rg_user :: v3_user
  rg_engine :: string                         \<comment> \<open>the identifier in hex\<close>

record receiver =
  rc_from_raw :: "(pyval list, string) dict" \<comment> \<open>\<open>_engine_id_from_raw_message\<close>\<close>
  rc_running :: bool                          \<comment> \<open>\<open>_snmp_engine_for_discovery\<close> is set\<close>
  rc_users :: "v3_user list"                 \<comment> \<open>\<open>_v3_user_configs_for_discovery\<close>\<close>
  rc_added :: "string list"                  \<comment> \<open>the set \<open>_added_engine_ids\<close>\<close>
  rc_registered :: "registration list"       \<comment> \<open>what the SNMP engine was given\<close>
  rc_ids :: "engine_ids option"              \<comment> \<open>\<open>engine_id_manager\<close>\<close>

definition idle_receiver :: receiver where
  "idle_receiver = \<lparr>rc_from_raw = [], rc_running = False, rc_users = [], rc_added = [], rc_registered = [],
     rc_ids = None\<rparr>"

type_synonym add_user_fn = "registration \<Rightarrow> unit result"

definition normalize_transport_address :: "pyval \<Rightarrow> pyval list" where
  "normalize_transport_address addr =
     (case (case addr of PList xs \<Rightarrow> xs | PTuple xs \<Rightarrow> xs | _ \<Rightarrow> []) of
        host # port # _ \<Rightarrow>
          [case host of
             PStr h \<Rightarrow> PStr (if CHR ''%'' \<in> set h then hd (str_split ''%'' h) else h)
           | _ \<Rightarrow> host, port]
      | _ \<Rightarrow> [addr])"

definition get_engine_id_from_raw_message :: "receiver \<Rightarrow> pyval \<Rightarrow> string option" where
  "get_engine_id_from_raw_message rc addr = dict_get (rc_from_raw rc) (normalize_transport_address addr)"

fun register_users :: "add_user_fn \<Rightarrow> registration list \<Rightarrow> receiver \<Rightarrow> unit result \<times> receiver" where
  \<comment> \<open>the calls made before one of them raises stay made\<close>
  "register_users add [] rc = (Inr (), rc)"
| "register_users add (r # rs) rc =
     (case add r of
        Inl e \<Rightarrow> (Inl e, rc)
      | Inr _ \<Rightarrow> register_users add rs (rc\<lparr>rc_registered := rc_registered rc @ [r]\<rparr>))"

definition add_v3_user_for_new_engine_id ::
  "add_user_fn \<Rightarrow> string \<Rightarrow> receiver \<Rightarrow> bool result \<times> receiver" where
  "add_v3_user_for_new_engine_id add engine_id0 rc =
     (let engine_id = str_lower (str_strip engine_id0) in
      if engine_id = [] \<or> engine_id \<in> set (rc_added rc) then (Inr False, rc)
      else if \<not> rc_running rc \<or> rc_users rc = [] then (Inr False, rc)
      else (case register_users add (map (\<lambda>u. \<lparr>rg_user = u, rg_engine = engine_id\<rparr>) (rc_users rc)) rc of
              (Inl e, rc') \<Rightarrow> (Inl e, rc')
            | (Inr _, rc') \<Rightarrow> (Inr True, rc'\<lparr>rc_added := rc_added rc' @ [engine_id]\<rparr>)))"

definition datagram_received ::
  "'m asn_lib \<Rightarrow> add_user_fn \<Rightarrow> bool \<Rightarrow> string \<Rightarrow> pyval \<Rightarrow> receiver \<Rightarrow> unit result \<times> receiver" where
  \<comment> \<open>\<open>Inr\<close>: the datagram goes on to pysnmp\<close>
  "datagram_received asn add discover datagram addr rc =
     (if \<not> discover then (Inr (), rc)
      else (case decode_security_context asn datagram of
          (Some engine_id, username) \<Rightarrow>
            if engine_id = [] then (Inr (), rc)
            else
              (let rc1 = rc\<lparr>rc_from_raw := dict_set (normalize_transport_address addr) engine_id (rc_from_raw rc)\<rparr> in
               case username of
                 Some name \<Rightarrow>
                   if name \<noteq> [] \<and> list_ex (\<lambda>u. vu_name u = name) (rc_users rc1)
                   then (case add_v3_user_for_new_engine_id add engine_id rc1 of
                           (r, rc2) \<Rightarrow> (res_map (\<lambda>_. ()) r, rc2))
                   else (Inr (), rc1)
               | None \<Rightarrow> (Inr (), rc1))
        | _ \<Rightarrow> (Inr (), rc)))"

definition datagram_received6 ::
  "'m asn_lib \<Rightarrow> add_user_fn \<Rightarrow> bool \<Rightarrow> string \<Rightarrow> pyval \<Rightarrow> receiver \<Rightarrow> unit result \<times> receiver" where
  \<comment> \<open>the class of the IPv6 transport has the same method\<close>
  "datagram_received6 asn add discover datagram addr rc =
     datagram_received asn add discover datagram addr rc"

section \<open>A notification\<close>

record trap_options =
  to_limit :: int
  to_include_context :: bool                 \<comment> \<open>\<open>INCLUDE_SECURITY_CONTEXT_ID\<close>\<close>
  to_valid :: validator_fn

definition cb_fun ::
  "'m asn_lib \<Rightarrow> trap_options \<Rightarrow> string \<Rightarrow> (string \<times> trap_value) list \<Rightarrow> string \<Rightarrow> receiver
     \<Rightarrow> trap_work result \<times> receiver" where
  \<comment> \<open>the work that the chain of tasks starts with\<close>
  "cb_fun asn opts device_ip varbinds whole_msg rc =
     (case res_list (\<lambda>(name, val). res_map (\<lambda>t. (name, t)) (format_trap_varbind_value val))
             (limit_trap_varbind_pairs (to_limit opts) varbinds) of
        Inl e \<Rightarrow> (Inl e, rc)
      | Inr data \<Rightarrow>
          (case fst (decode_security_context asn whole_msg) of
             Some engine_id \<Rightarrow>
               if engine_id = [] then (Inr \<lparr>tw_host = device_ip, tw_data = data, tw_fields = None\<rparr>, rc)
               else (Inr \<lparr>tw_host = device_ip, tw_data = data,
                          tw_fields = (if to_include_context opts
                                       then Some [(''context_engine_id'', PStr engine_id)] else None)\<rparr>,
                     rc\<lparr>rc_ids := map_option (save_engine_id (to_valid opts) device_ip engine_id) (rc_ids rc)\<rparr>)
           | None \<Rightarrow> (Inr \<lparr>tw_host = device_ip, tw_data = data, tw_fields = None\<rparr>, rc)))"

definition authentication_observer_cb_fun ::
  "(pyval \<Rightarrow> string) \<Rightarrow> pyval \<Rightarrow> pyval \<Rightarrow> receiver \<Rightarrow> string" where
  \<comment> \<open>the message logged for an address (\<open>None\<close> when there is none) and an indication\<close>
  "authentication_observer_cb_fun show addr indication rc =
     ''Security Model failure for device '' @ show addr @ '': '' @ show indication @
     (case (if py_truthy addr then get_engine_id_from_raw_message rc addr else None) of
        Some engine_id \<Rightarrow>
          if engine_id = [] then []
          else '' (security_engine_id from incoming message: '' @ engine_id @ '')''
      | None \<Rightarrow> [])"

section \<open>Starting the receiver\<close>

definition env_engine_ids :: "string list \<Rightarrow> string list" where
  \<comment> \<open>the set of the identifiers listed, without blanks\<close>
  "env_engine_ids listed = remdups (filter (\<lambda>s. s \<noteq> []) (map str_strip listed))"

definition sync_engine_ids_with_mongo ::
  "validator_fn \<Rightarrow> string list \<Rightarrow> engine_ids \<Rightarrow> string list \<times> engine_ids" where
  \<comment> \<open>all known identifiers, as a set\<close>
  "sync_engine_ids_with_mongo valid listed m =
     (let m' = fold (save_engine_id valid ''config'') (env_engine_ids listed) m in
      (remdups (env_engine_ids listed @ ei_cached m'), m'))"

datatype comm_key = KeyStr string | KeyInt int

definition add_communities :: "(comm_key, pyval) dict option \<Rightarrow> (string \<times> pyval) list result" where
  \<comment> \<open>the calls of \<open>config.add_v1_system\<close>\<close>
  "add_communities communities =
     (case communities of
        None \<Rightarrow> Inr []
      | Some c \<Rightarrow>
          res_bind (case dict_get c (KeyStr ''2c'') of None \<Rightarrow> Inr [] | Some v \<Rightarrow> py_iter v) (\<lambda>v2.
          res_map (\<lambda>v1. map (\<lambda>(i, community). (str_of_int (int i + 1), community)) (enumerate 0 (v2 @ v1)))
            (case dict_get c (KeyStr ''1'') of
               Some v \<Rightarrow> py_iter v
             | None \<Rightarrow> (case dict_get c (KeyInt 1) of Some v \<Rightarrow> py_iter v | None \<Rightarrow> Inr []))))"

definition read_v3_user :: "secret_store \<Rightarrow> pyval \<Rightarrow> v3_user result" where
  "read_v3_user st secret =
     (case secret of
        PStr s \<Rightarrow>
          (let location = path_join ''secrets/snmpv3'' s in
           res_bind (get_secret_value st location ''userName'' None True) (\<lambda>name.
           res_bind (get_secret_value st location ''authKey'' None False) (\<lambda>auth_key.
           res_bind (get_secret_value st location ''privKey'' None False) (\<lambda>priv_key.
           res_bind (secret_text st location ''authProtocol'' [] False) (\<lambda>auth_protocol.
           res_map (\<lambda>priv_protocol.
               \<lparr>vu_name = (case name of Some n \<Rightarrow> n | None \<Rightarrow> []),
                vu_auth_protocol = dict_get_or AuthProtocolMap (str_upper auth_protocol) ''USM_AUTH_NONE'',
                vu_auth_key = auth_key,
                vu_priv_protocol = dict_get_or PrivProtocolMap (str_upper priv_protocol) ''USM_PRIV_NONE'',
                vu_priv_key = priv_key\<rparr>)
             (secret_text st location ''privProtocol'' ''NONE'' False))))))
      | _ \<Rightarrow> Inl TypeError)"

definition drop_empty_keys :: "v3_user \<Rightarrow> v3_user" where
  \<comment> \<open>\<open>auth_key if auth_key else None\<close>\<close>
  "drop_empty_keys u =
     u\<lparr>vu_auth_key := (if vu_auth_key u = Some [] then None else vu_auth_key u),
       vu_priv_key := (if vu_priv_key u = Some [] then None else vu_priv_key u)\<rparr>"

fun configure_users ::
  "add_user_fn \<Rightarrow> secret_store \<Rightarrow> string list \<Rightarrow> pyval list \<Rightarrow> v3_user list \<Rightarrow> receiver
     \<Rightarrow> v3_user list result \<times> receiver" where
  \<comment> \<open>the loop over the secrets, with the users read so far\<close>
  "configure_users add st ids [] users rc = (Inr users, rc)"
| "configure_users add st ids (secret # secrets) users rc =
     (case read_v3_user st secret of
        Inl e \<Rightarrow> (Inl e, rc)
      | Inr u \<Rightarrow>
          (case register_users add (map (\<lambda>i. \<lparr>rg_user = drop_empty_keys u, rg_engine = i\<rparr>) ids) rc of
             (Inl e, rc') \<Rightarrow> (Inl e, rc')
           | (Inr _, rc') \<Rightarrow> configure_users add st ids secrets (users @ [u]) rc'))"

definition start_receiver ::
  "add_user_fn \<Rightarrow> secret_store \<Rightarrow> validator_fn \<Rightarrow> string list \<Rightarrow> (string \<times> string) list option
     \<Rightarrow> (comm_key, pyval) dict option \<Rightarrow> pyval option \<Rightarrow> ((string \<times> pyval) list result) \<times> receiver" where
  \<comment> \<open>\<open>main\<close> up to its loop: the identifiers listed, the records of MongoDB when it is configured, the
     communities and the secrets; the communities added and the receiver that starts listening\<close>
  "start_receiver add st valid listed mongo communities secrets =
     (case (case mongo of
              Some docs \<Rightarrow> (case sync_engine_ids_with_mongo valid listed (new_engine_ids docs) of
                              (ids, m) \<Rightarrow> (ids, Some m))
            | None \<Rightarrow> (env_engine_ids listed, None)) of
        (ids, m) \<Rightarrow>
          (let rc = idle_receiver\<lparr>rc_ids := m\<rparr> in
           case add_communities communities of
             Inl e \<Rightarrow> (Inl e, rc)
           | Inr cs \<Rightarrow>
               (case secrets of
                  None \<Rightarrow> (Inr cs, rc)
                | Some v \<Rightarrow>
                    (let rc1 = rc\<lparr>rc_added := remdups (map str_lower ids)\<rparr> in
                     case py_iter v of
                       Inl e \<Rightarrow> (Inl e, rc1)
                     | Inr xs \<Rightarrow>
                         (case configure_users add st ids xs [] rc1 of
                            (Inl e, rc2) \<Rightarrow> (Inl e, rc2)
                          | (Inr users, rc2) \<Rightarrow> (Inr cs, rc2\<lparr>rc_running := True, rc_users := users\<rparr>))))))"

section \<open>Which users the engine knows\<close>

type_synonym credentials = "string \<times> string \<times> string option \<times> string \<times> string option"

definition user_credentials :: "v3_user \<Rightarrow> credentials" where
  \<comment> \<open>name, protocols and keys; a key of no characters counts as none\<close>
  "user_credentials u =
     (vu_name u,
      vu_auth_protocol u, (case vu_auth_key u of Some (c # cs) \<Rightarrow> Some (c # cs) | _ \<Rightarrow> None),
      vu_priv_protocol u, (case vu_priv_key u of Some (c # cs) \<Rightarrow> Some (c # cs) | _ \<Rightarrow> None))"

definition known_pairs :: "receiver \<Rightarrow> (credentials \<times> string) set" where
  \<comment> \<open>the users and engine identifiers registered\<close>
  "known_pairs rc = (\<lambda>r. (user_credentials (rg_user r), str_lower (rg_engine r))) ` set (rc_registered rc)"

definition receiver_users :: "receiver \<Rightarrow> credentials set" where
  "receiver_users rc = user_credentials ` set (rc_users rc)"

definition receiver_inv :: "string set \<Rightarrow> receiver \<Rightarrow> bool" where
  \<comment> \<open>every user is registered for every identifier added, and nobody else, for the given identifiers\<close>
  "receiver_inv engines rc =
     (receiver_users rc \<times> set (rc_added rc) \<subseteq> known_pairs rc \<and>
      known_pairs rc \<subseteq> receiver_users rc \<times> engines \<and>
      distinct (rc_added rc))"

lemma known_pairs_added [simp]: "known_pairs (rc\<lparr>rc_added := a\<rparr>) = known_pairs rc"
  by (simp add: known_pairs_def)

lemma receiver_users_frame [simp]:
  "receiver_users (rc\<lparr>rc_added := a\<rparr>) = receiver_users rc"
  "receiver_users (rc\<lparr>rc_registered := rs\<rparr>) = receiver_users rc"
  by (simp_all add: receiver_users_def)

lemma lower_char_idem [simp]: "lower_char (lower_char c) = lower_char c"
  by (auto simp: lower_char_def Let_def)

lemma str_lower_idem [simp]: "str_lower (str_lower s) = str_lower s"
  by (simp add: str_lower_def)

lemma register_users_frame:
  "\<exists>made. register_users add rs rc = (r, rc') \<longrightarrow>
     prefix made rs \<and> (r = Inr () \<longrightarrow> made = rs) \<and> rc' = rc\<lparr>rc_registered := rc_registered rc @ made\<rparr>"
proof (induction rs arbitrary: rc)
  case Nil
  then show ?case by (intro exI [of _ "[]"]) auto
next
  case (Cons x rs)
  show ?case
  proof (cases "add x")
    case (Inl e)
    then show ?thesis by (intro exI [of _ "[]"]) auto
  next
    case (Inr u)
    obtain d where "register_users add rs (rc\<lparr>rc_registered := rc_registered rc @ [x]\<rparr>) = (r, rc') \<longrightarrow>
        prefix d rs \<and> (r = Inr () \<longrightarrow> d = rs) \<and>
        rc' = rc\<lparr>rc_registered := rc_registered rc @ [x]\<rparr>\<lparr>rc_registered := (rc_registered rc @ [x]) @ d\<rparr>"
      using Cons.IH [of "rc\<lparr>rc_registered := rc_registered rc @ [x]\<rparr>"] by auto
    then show ?thesis using Inr by (intro exI [of _ "x # d"]) auto
  qed
qed

lemma add_v3_user_inv:
  assumes "receiver_inv E rc"
  shows "receiver_inv (insert (str_lower (str_strip i)) E) (snd (add_v3_user_for_new_engine_id add i rc))
    \<and> rc_users (snd (add_v3_user_for_new_engine_id add i rc)) = rc_users rc"
proof -
  let ?i = "str_lower (str_strip i)"
  let ?rs = "map (\<lambda>u. \<lparr>rg_user = u, rg_engine = ?i\<rparr>) (rc_users rc)"
  obtain r rc' where run: "register_users add ?rs rc = (r, rc')" by fastforce
  then obtain d where d: "prefix d ?rs" "r = Inr () \<longrightarrow> d = ?rs"
      "rc' = rc\<lparr>rc_registered := rc_registered rc @ d\<rparr>"
    using register_users_frame [of add ?rs rc r rc'] by auto
  have sub: "(\<lambda>r. (user_credentials (rg_user r), str_lower (rg_engine r))) ` set d \<subseteq> receiver_users rc \<times> {?i}"
    using set_mono_prefix [OF d(1)] by (auto simp: receiver_users_def)
  have kp: "known_pairs rc' = known_pairs rc \<union> (\<lambda>r. (user_credentials (rg_user r), str_lower (rg_engine r))) ` set d"
    unfolding known_pairs_def by (simp add: d(3) image_Un)
  have un: "receiver_users rc' = receiver_users rc" by (simp add: receiver_users_def d(3))
  have full: "receiver_users rc \<times> {?i} \<subseteq> known_pairs rc'" if "r = Inr ()"
    using d(2) that by (auto simp: kp receiver_users_def image_iff)
  have weaken: "receiver_inv (insert ?i E) rc" using assms by (auto simp: receiver_inv_def)
  show ?thesis
  proof (cases "?i = [] \<or> ?i \<in> set (rc_added rc) \<or> \<not> rc_running rc \<or> rc_users rc = []")
    case True
    then show ?thesis using weaken by (auto simp: add_v3_user_for_new_engine_id_def Let_def)
  next
    case False
    show ?thesis
    proof (cases r)
      case (Inl e)
      then show ?thesis
        using False run d(3) assms sub un kp
        by (auto simp: add_v3_user_for_new_engine_id_def Let_def receiver_inv_def)
    next
      case (Inr u)
      show ?thesis
        using False run d(3) assms sub un kp full Inr
        by (auto simp: add_v3_user_for_new_engine_id_def Let_def receiver_inv_def)
    qed
  qed
qed

definition admitted :: "'m asn_lib \<Rightarrow> v3_user list \<Rightarrow> string \<Rightarrow> string set" where
  \<comment> \<open>the identifier that a datagram brings in: it names a configured user\<close>
  "admitted asn users datagram =
     (case decode_security_context asn datagram of
        (Some i, Some name) \<Rightarrow>
          if name \<noteq> [] \<and> name \<in> vu_name ` set users \<and> str_strip i \<noteq> [] then {str_lower (str_strip i)} else {}
      | _ \<Rightarrow> {})"

lemma str_lower_Nil [simp]: "str_lower s = [] \<longleftrightarrow> s = []"
  by (simp add: str_lower_def)

lemma str_strip_Nil [simp]: "str_strip [] = []"
  by (simp add: str_strip_def str_lstrip_def str_rstrip_def)

lemma register_users_accepts:
  "(\<And>r. add r = Inr ()) \<Longrightarrow>
     register_users add rs rc = (Inr (), rc\<lparr>rc_registered := rc_registered rc @ rs\<rparr>)"
  by (induction rs arbitrary: rc) simp_all

lemma datagram_received_cases:
  \<comment> \<open>a datagram that is not admitted registers nobody, one that is registers its engine\<close>
  obtains (out) c where "admitted asn (rc_users rc) d = {}"
      "datagram_received asn add discover d addr rc = (Inr (), rc\<lparr>rc_from_raw := c\<rparr>)"
    | (off) "\<not> discover" "datagram_received asn add discover d addr rc = (Inr (), rc)"
    | (new) i c where "discover" "str_strip i \<noteq> []" "rc_users rc \<noteq> []"
      "admitted asn (rc_users rc) d = {str_lower (str_strip i)}"
      "snd (datagram_received asn add discover d addr rc) =
        snd (add_v3_user_for_new_engine_id add i (rc\<lparr>rc_from_raw := c\<rparr>))"
proof -
  obtain e n where dec: "decode_security_context asn d = (e, n)" by fastforce
  have same: "rc = rc\<lparr>rc_from_raw := rc_from_raw rc\<rparr>" by simp
  consider "\<not> discover" | "discover" "e = None" | "discover" "e = Some []"
    | i where "discover" "e = Some i" "i \<noteq> []"
        "n = None \<or> (\<exists>m. n = Some m \<and> (m = [] \<or> m \<notin> vu_name ` set (rc_users rc)))"
    | i m where "discover" "e = Some i" "i \<noteq> []" "n = Some m" "m \<noteq> []" "m \<in> vu_name ` set (rc_users rc)"
    by (cases e; cases n) auto
  then show ?thesis
  proof cases
    case 1
    then show ?thesis by (intro off) (simp_all add: datagram_received_def)
  next
    case 2
    then have "admitted asn (rc_users rc) d = {}" "datagram_received asn add discover d addr rc = (Inr (), rc)"
      using dec by (simp_all add: datagram_received_def admitted_def)
    then show ?thesis using same out [of "rc_from_raw rc"] by metis
  next
    case 3
    then have "admitted asn (rc_users rc) d = {}" "datagram_received asn add discover d addr rc = (Inr (), rc)"
      using dec by (simp_all add: datagram_received_def admitted_def split: option.splits)
    then show ?thesis using same out [of "rc_from_raw rc"] by metis
  next
    case 4
    then have "admitted asn (rc_users rc) d = {}"
      using dec by (auto simp: admitted_def split: option.splits)
    moreover have "datagram_received asn add discover d addr rc =
        (Inr (), rc\<lparr>rc_from_raw := dict_set (normalize_transport_address addr) i (rc_from_raw rc)\<rparr>)"
      using 4 dec by (auto simp: datagram_received_def Let_def list_ex_iff)
    ultimately show ?thesis by (rule out)
  next
    case 5
    let ?rc1 = "rc\<lparr>rc_from_raw := dict_set (normalize_transport_address addr) i (rc_from_raw rc)\<rparr>"
    have named: "list_ex (\<lambda>u. vu_name u = m) (rc_users rc)" using 5 by (auto simp: list_ex_iff)
    have run: "datagram_received asn add discover d addr rc =
        (case add_v3_user_for_new_engine_id add i ?rc1 of (r, rc2) \<Rightarrow> (res_map (\<lambda>_. ()) r, rc2))"
      using 5 dec named by (simp add: datagram_received_def Let_def)
    show ?thesis
    proof (cases "str_strip i = []")
      case True
      then have "admitted asn (rc_users rc) d = {}" using 5 dec by (simp add: admitted_def)
      moreover have "datagram_received asn add discover d addr rc = (Inr (), ?rc1)"
        unfolding run using True by (simp add: add_v3_user_for_new_engine_id_def str_lower_def res_map_def res_bind_def)
      ultimately show ?thesis by (rule out)
    next
      case False
      then have "admitted asn (rc_users rc) d = {str_lower (str_strip i)}" using 5 dec by (simp add: admitted_def)
      moreover have "snd (datagram_received asn add discover d addr rc) = snd (add_v3_user_for_new_engine_id add i ?rc1)"
        unfolding run by (simp split: prod.split)
      moreover have "rc_users rc \<noteq> []" using 5 by auto
      ultimately show ?thesis using False 5(1) by (intro new)
    qed
  qed
qed

lemma receiver_inv_raw: "receiver_inv E rc \<Longrightarrow> receiver_inv E (rc\<lparr>rc_from_raw := c\<rparr>)"
  by (simp add: receiver_inv_def known_pairs_def receiver_users_def)

lemma receiver_inv_weaken: "receiver_inv E rc \<Longrightarrow> E \<subseteq> E' \<Longrightarrow> receiver_inv E' rc"
  by (auto simp: receiver_inv_def)

lemma add_v3_user_frame:
  "rc_running (snd (add_v3_user_for_new_engine_id add i rc)) = rc_running rc"
proof -
  obtain r rc' where run: "register_users add (map (\<lambda>u. \<lparr>rg_user = u, rg_engine = str_lower (str_strip i)\<rparr>) (rc_users rc)) rc
      = (r, rc')" by fastforce
  then have "rc_running rc' = rc_running rc" using register_users_frame [of add _ rc r rc'] by fastforce
  then show ?thesis using run by (simp add: add_v3_user_for_new_engine_id_def Let_def split: sum.split)
qed

lemma add_v3_user_added:
  assumes "\<And>r. add r = Inr ()" "rc_running rc" "rc_users rc \<noteq> []" "str_strip i \<noteq> []"
  shows "set (rc_added (snd (add_v3_user_for_new_engine_id add i rc))) = insert (str_lower (str_strip i)) (set (rc_added rc))"
  using assms(2-) by (auto simp: add_v3_user_for_new_engine_id_def Let_def register_users_accepts [OF assms(1)])

definition brought :: "'m asn_lib \<Rightarrow> v3_user list \<Rightarrow> bool \<Rightarrow> string \<Rightarrow> string set" where
  \<comment> \<open>nothing when engines are not to be discovered\<close>
  "brought asn users discover datagram = (if discover then admitted asn users datagram else {})"

lemma datagram_received_inv:
  assumes "receiver_inv E rc"
  shows "receiver_inv (E \<union> brought asn (rc_users rc) discover d) (snd (datagram_received asn add discover d addr rc))
    \<and> rc_users (snd (datagram_received asn add discover d addr rc)) = rc_users rc
    \<and> rc_running (snd (datagram_received asn add discover d addr rc)) = rc_running rc"
  (is "?thesis")
proof (cases rule: datagram_received_cases [of asn rc d add discover addr])
    case (out c)
    then show ?thesis using receiver_inv_raw [OF assms] by (simp add: brought_def)
  next
    case off
    then show ?thesis using assms by (simp add: brought_def)
  next
    case (new i c)
    from add_v3_user_inv [OF receiver_inv_raw [OF assms], of i add c] show ?thesis
      using new by (simp add: brought_def add_v3_user_frame)
qed

lemma datagram_received_added:
  assumes "\<And>r. add r = Inr ()" "rc_users rc \<noteq> [] \<longrightarrow> rc_running rc"
  shows "set (rc_added (snd (datagram_received asn add discover d addr rc))) =
    set (rc_added rc) \<union> brought asn (rc_users rc) discover d"
proof (cases rule: datagram_received_cases [of asn rc d add discover addr])
    case (out c)
    then show ?thesis by (simp add: brought_def)
  next
    case off
    then show ?thesis by (simp add: brought_def)
  next
    case (new i c)
    then show ?thesis
      using assms(2) add_v3_user_added [of add "rc\<lparr>rc_from_raw := c\<rparr>" i] assms(1) by (simp add: brought_def)
qed

lemma receive_fold_inv:
  fixes datagrams :: "(string \<times> pyval) list"
  assumes "receiver_inv E rc0"
  shows "receiver_inv (E \<union> (\<Union>(d, a) \<in> set datagrams. brought asn (rc_users rc0) discover d))
      (fold (\<lambda>(d, a) rc. snd (datagram_received asn add discover d a rc)) datagrams rc0) \<and>
    rc_users (fold (\<lambda>(d, a) rc. snd (datagram_received asn add discover d a rc)) datagrams rc0) = rc_users rc0 \<and>
    rc_running (fold (\<lambda>(d, a) rc. snd (datagram_received asn add discover d a rc)) datagrams rc0) = rc_running rc0"
proof (induction datagrams rule: rev_induct)
  case Nil
  then show ?case using assms by simp
next
  case (snoc da ds)
  obtain d a where da: "da = (d, a)" by (cases da)
  let ?rc = "fold (\<lambda>(d, a) rc. snd (datagram_received asn add discover d a rc)) ds rc0"
  have i: "receiver_inv (E \<union> (\<Union>(d, a) \<in> set ds. brought asn (rc_users rc0) discover d)) ?rc"
    and u: "rc_users ?rc = rc_users rc0" "rc_running ?rc = rc_running rc0"
    using snoc.IH by auto
  have E: "E \<union> (\<Union>(d, a) \<in> set (ds @ [da]). brought asn (rc_users rc0) discover d) =
      (E \<union> (\<Union>(d, a) \<in> set ds. brought asn (rc_users rc0) discover d)) \<union> brought asn (rc_users rc0) discover d"
    by (auto simp: da)
  from datagram_received_inv [OF i, where asn = asn and discover = discover and d = d and add = add and addr = a] u show ?case unfolding E by (simp add: da)
qed

lemma receive_fold_added:
  fixes datagrams :: "(string \<times> pyval) list"
  assumes "receiver_inv E rc0" "\<And>r. add r = Inr ()" "rc_users rc0 \<noteq> [] \<longrightarrow> rc_running rc0"
  shows "set (rc_added (fold (\<lambda>(d, a) rc. snd (datagram_received asn add discover d a rc)) datagrams rc0)) =
    set (rc_added rc0) \<union> (\<Union>(d, a) \<in> set datagrams. brought asn (rc_users rc0) discover d)"
proof (induction datagrams rule: rev_induct)
  case Nil
  then show ?case by simp
next
  case (snoc da ds)
  obtain d a where da: "da = (d, a)" by (cases da)
  let ?rc = "fold (\<lambda>(d, a) rc. snd (datagram_received asn add discover d a rc)) ds rc0"
  have u: "rc_users ?rc = rc_users rc0" "rc_running ?rc = rc_running rc0"
    using receive_fold_inv [OF assms(1), where asn = asn and discover = discover and datagrams = ds and add = add] by auto
  have "rc_users ?rc \<noteq> [] \<longrightarrow> rc_running ?rc" using u assms(3) by simp
  from datagram_received_added [OF assms(2) this, where asn = asn and discover = discover and d = d and addr = a] snoc.IH u
  show ?case by (auto simp: da)
qed

definition user_of_secret :: "secret_store \<Rightarrow> pyval \<Rightarrow> v3_user \<Rightarrow> bool" where
  \<comment> \<open>the user has the contents of the files of the secret\<close>
  "user_of_secret st secret u =
     (\<exists>s. secret = PStr s \<and>
       (let file = get_secret_value st (path_join ''secrets/snmpv3'' s) in
        (\<exists>name. file ''userName'' None True = Inr (Some name) \<and> vu_name u = name) \<and>
        file ''authKey'' None False = Inr (vu_auth_key u) \<and>
        file ''privKey'' None False = Inr (vu_priv_key u) \<and>
        (\<exists>p. file ''authProtocol'' (Some []) False = Inr (Some p) \<and>
           vu_auth_protocol u = dict_get_or AuthProtocolMap (str_upper p) ''USM_AUTH_NONE'') \<and>
        (\<exists>p. file ''privProtocol'' (Some ''NONE'') False = Inr (Some p) \<and>
           vu_priv_protocol u = dict_get_or PrivProtocolMap (str_upper p) ''USM_PRIV_NONE'')))"

lemma get_secret_value_Some:
  assumes "get_secret_value st loc key d req = Inr v" "req \<or> d \<noteq> None"
  shows "\<exists>t. v = Some t"
  using assms by (auto simp: get_secret_value_def Let_def res_map_def res_bind_def split: if_splits sum.splits)

lemma secret_text_value:
  assumes "secret_text st loc key d req = Inr t"
  shows "get_secret_value st loc key (Some d) req = Inr (Some t)"
proof -
  obtain v where v: "get_secret_value st loc key (Some d) req = Inr v" "t = (case v of Some t \<Rightarrow> t | None \<Rightarrow> [])"
    using assms by (auto simp: secret_text_def res_map_def res_bind_def split: sum.splits)
  then show ?thesis using get_secret_value_Some [OF v(1)] by auto
qed

lemma read_v3_user_of_secret:
  assumes "read_v3_user st secret = Inr u"
  shows "user_of_secret st secret u"
proof -
  obtain s where s: "secret = PStr s" using assms by (auto simp: read_v3_user_def split: pyval.splits)
  let ?loc = "path_join ''secrets/snmpv3'' s"
  obtain name ak pk ap pp where f: "get_secret_value st ?loc ''userName'' None True = Inr name"
      "get_secret_value st ?loc ''authKey'' None False = Inr ak" "get_secret_value st ?loc ''privKey'' None False = Inr pk"
      "secret_text st ?loc ''authProtocol'' [] False = Inr ap" "secret_text st ?loc ''privProtocol'' ''NONE'' False = Inr pp"
    and u: "u = \<lparr>vu_name = (case name of Some n \<Rightarrow> n | None \<Rightarrow> []),
                vu_auth_protocol = dict_get_or AuthProtocolMap (str_upper ap) ''USM_AUTH_NONE'',
                vu_auth_key = ak,
                vu_priv_protocol = dict_get_or PrivProtocolMap (str_upper pp) ''USM_PRIV_NONE'',
                vu_priv_key = pk\<rparr>"
    using assms s by (auto simp: read_v3_user_def Let_def res_map_def res_bind_def split: sum.splits)
  obtain n where "name = Some n" using get_secret_value_Some [OF f(1)] by auto
  then show ?thesis
    using f(1-3) secret_text_value [OF f(4)] secret_text_value [OF f(5)]
    by (simp add: user_of_secret_def s u Let_def)
qed

lemma configure_users_ok:
  "configure_users add st ids secrets users rc = (Inr us, rc') \<Longrightarrow>
   \<exists>new. us = users @ new \<and> list_all2 (user_of_secret st) secrets new \<and>
     rc' = rc\<lparr>rc_registered := rc_registered rc @
       concat (map (\<lambda>u. map (\<lambda>i. \<lparr>rg_user = drop_empty_keys u, rg_engine = i\<rparr>) ids) new)\<rparr>"
proof (induction secrets arbitrary: users rc)
  case Nil
  then show ?case by (intro exI [of _ "[]"]) auto
next
  case (Cons secret secrets)
  obtain u rc1 where u: "read_v3_user st secret = Inr u"
    and reg: "register_users add (map (\<lambda>i. \<lparr>rg_user = drop_empty_keys u, rg_engine = i\<rparr>) ids) rc = (Inr (), rc1)"
    and rest: "configure_users add st ids secrets (users @ [u]) rc1 = (Inr us, rc')"
    using Cons.prems by (auto split: sum.splits prod.splits)
  have rc1: "rc1 = rc\<lparr>rc_registered := rc_registered rc @ map (\<lambda>i. \<lparr>rg_user = drop_empty_keys u, rg_engine = i\<rparr>) ids\<rparr>"
    using register_users_frame [of add _ rc "Inr ()" rc1] reg by auto
  from Cons.IH [OF rest] obtain new where "us = (users @ [u]) @ new" "list_all2 (user_of_secret st) secrets new"
    "rc' = rc1\<lparr>rc_registered := rc_registered rc1 @
       concat (map (\<lambda>u. map (\<lambda>i. \<lparr>rg_user = drop_empty_keys u, rg_engine = i\<rparr>) ids) new)\<rparr>" by auto
  then show ?case using read_v3_user_of_secret [OF u] by (intro exI [of _ "u # new"]) (simp add: rc1)
qed

lemma drop_empty_keys_credentials [simp]: "user_credentials (drop_empty_keys u) = user_credentials u"
  by (auto simp: drop_empty_keys_def user_credentials_def split: option.splits list.splits)

definition known_at_start :: "string list \<Rightarrow> (string \<times> string) list option \<Rightarrow> string set" where
  \<comment> \<open>the identifiers listed, but for blanks, and those of the records of MongoDB, as they are compared\<close>
  "known_at_start listed mongo =
     str_lower ` ({s. s \<in> str_strip ` set listed \<and> s \<noteq> []} \<union>
                  (case mongo of None \<Rightarrow> {} | Some docs \<Rightarrow> snd ` set docs))"

lemma save_engine_ids_cached:
  "set (ei_cached m) \<subseteq> set (ei_cached (fold (save_engine_id valid h) es m)) \<and>
   set (ei_cached (fold (save_engine_id valid h) es m)) \<subseteq> set (ei_cached m) \<union> set es"
proof (induction es arbitrary: m)
  case (Cons e es)
  have "set (ei_cached m) \<subseteq> set (ei_cached (save_engine_id valid h e m))"
    "set (ei_cached (save_engine_id valid h e m)) \<subseteq> insert e (set (ei_cached m))"
    by (auto simp: save_engine_id_def)
  then show ?case using Cons.IH [of "save_engine_id valid h e m"] by auto
qed simp

lemma start_ids:
  assumes "(case mongo of
              Some docs \<Rightarrow> (case sync_engine_ids_with_mongo valid listed (new_engine_ids docs) of
                              (ids, m) \<Rightarrow> (ids, Some m))
            | None \<Rightarrow> (env_engine_ids listed, None)) = (ids, m)"
  shows "str_lower ` set ids = known_at_start listed mongo"
proof -
  have env: "set (env_engine_ids listed) = {s. s \<in> str_strip ` set listed \<and> s \<noteq> []}"
    by (auto simp: env_engine_ids_def)
  show ?thesis
  proof (cases mongo)
    case None
    then show ?thesis using assms by (auto simp: known_at_start_def env [symmetric])
  next
    case (Some docs)
    then have "set ids = set (env_engine_ids listed) \<union> snd ` set docs"
      using assms save_engine_ids_cached [of "new_engine_ids docs" valid "''config''" "env_engine_ids listed"]
      by (auto simp: sync_engine_ids_with_mongo_def Let_def new_engine_ids_def)
    then show ?thesis using Some by (simp add: known_at_start_def env)
  qed
qed

lemma start_receiver_ok:
  assumes "start_receiver add st valid listed mongo communities secrets = (Inr cs, rc)"
  shows "receiver_inv (set (rc_added rc)) rc \<and> (rc_users rc \<noteq> [] \<longrightarrow> rc_running rc) \<and>
    (\<forall>r \<in> set (rc_registered rc). \<exists>u. rg_user r = drop_empty_keys u) \<and>
    (case secrets of
       None \<Rightarrow> rc_users rc = [] \<and> set (rc_added rc) = {}
     | Some v \<Rightarrow> (\<exists>xs. py_iter v = Inr xs \<and> list_all2 (user_of_secret st) xs (rc_users rc)) \<and>
         set (rc_added rc) = known_at_start listed mongo)"
proof -
  obtain ids m where idm: "(case mongo of
              Some docs \<Rightarrow> (case sync_engine_ids_with_mongo valid listed (new_engine_ids docs) of
                              (ids, m) \<Rightarrow> (ids, Some m))
            | None \<Rightarrow> (env_engine_ids listed, None)) = (ids, m)" by fastforce
  show ?thesis
  proof (cases secrets)
    case None
    then show ?thesis using assms idm
      by (auto simp: start_receiver_def Let_def idle_receiver_def receiver_inv_def known_pairs_def receiver_users_def
          split: sum.splits)
  next
    case (Some v)
    let ?rc1 = "idle_receiver\<lparr>rc_ids := m, rc_added := remdups (map str_lower ids)\<rparr>"
    obtain xs users rc2 where xs: "py_iter v = Inr xs" and "configure_users add st ids xs [] ?rc1 = (Inr users, rc2)"
      and rc: "rc = rc2\<lparr>rc_running := True, rc_users := users\<rparr>"
      using assms idm Some by (auto simp: start_receiver_def Let_def split: sum.splits prod.splits)
    then obtain new where new: "users = [] @ new" "list_all2 (user_of_secret st) xs new"
      "rc2 = ?rc1\<lparr>rc_registered := rc_registered ?rc1 @
         concat (map (\<lambda>u. map (\<lambda>i. \<lparr>rg_user = drop_empty_keys u, rg_engine = i\<rparr>) ids) new)\<rparr>"
      using configure_users_ok by blast
    have known: "known_pairs rc = user_credentials ` set users \<times> str_lower ` set ids"
      unfolding known_pairs_def rc using new(1,3) by (force simp: idle_receiver_def image_iff)
    have added: "rc_added rc = remdups (map str_lower ids)" "receiver_users rc = user_credentials ` set users"
        "rc_users rc = users" "rc_running rc"
      unfolding rc receiver_users_def using new(1,3) by simp_all
    have "receiver_inv (set (rc_added rc)) rc" using known added by (simp add: receiver_inv_def)
    moreover have "\<forall>r \<in> set (rc_registered rc). \<exists>u. rg_user r = drop_empty_keys u"
      unfolding rc using new(3) by (auto simp: idle_receiver_def)
    ultimately show ?thesis using Some xs new(1,2) added start_ids [OF idm] by simp
  qed
qed

text \<open>
  C12.  When the receiver starts, its users are those of the configured secrets, each with the
  contents of its files, and its engines those listed and those that MongoDB has records of.
  Whatever datagrams come in since, exactly these users are registered, each for every engine that
  counts as added.  With the discovery of engines off nothing is added; with it on a datagram can
  add nothing but the engine that it comes from, in the name of a configured user, and adds that
  unless a registration raises.
\<close>

theorem receiver_registers_known:
  assumes "start_receiver add st valid listed mongo communities secrets = (Inr cs, rc0)"
  shows "let rc = fold (\<lambda>(d, a) rc. snd (datagram_received asn add discover d a rc)) datagrams rc0;
             engines = set (rc_added rc0) \<union> (\<Union>(d, a) \<in> set datagrams. brought asn (rc_users rc0) discover d) in
    (case secrets of
       None \<Rightarrow> rc_users rc0 = [] \<and> set (rc_added rc0) = {}
     | Some v \<Rightarrow> (\<exists>xs. py_iter v = Inr xs \<and> list_all2 (user_of_secret st) xs (rc_users rc0)) \<and>
         set (rc_added rc0) = known_at_start listed mongo) \<and>
    rc_users rc = rc_users rc0 \<and>
    receiver_users rc \<times> set (rc_added rc) \<subseteq> known_pairs rc \<and>
    known_pairs rc \<subseteq> receiver_users rc \<times> engines \<and>
    ((\<forall>r. add r = Inr ()) \<longrightarrow> set (rc_added rc) = engines)"
proof -
  let ?rc = "fold (\<lambda>(d, a) rc. snd (datagram_received asn add discover d a rc)) datagrams rc0"
  note start = start_receiver_ok [OF assms]
  note inv = receive_fold_inv [OF start [THEN conjunct1], where asn = asn and discover = discover and datagrams = datagrams and add = add]
  have added: "set (rc_added ?rc) = set (rc_added rc0) \<union> (\<Union>(d, a) \<in> set datagrams. brought asn (rc_users rc0) discover d)"
    if "\<forall>r. add r = Inr ()"
    using that receive_fold_added [OF start [THEN conjunct1], where asn = asn and discover = discover and datagrams = datagrams and add = add] start by blast
  show ?thesis
    unfolding Let_def
    using start inv [unfolded receiver_inv_def] added by (intro conjI impI) blast+
qed

definition sample_asn :: "string asn_lib" where
  \<comment> \<open>every message is of version 3, from the engine 80, in the name of the user u\<close>
  "sample_asn = \<lparr>al_version = (\<lambda>_. Inr 3), al_decode = Inr,
     al_octets = (\<lambda>_ n. Inr (if n = 3 then ''u'' else [CHR 0x80])), al_utf8 = Inr\<rparr>"

definition sample_store :: secret_store where
  \<comment> \<open>the secret \<open>s\<close> of the user u, with an empty authentication key\<close>
  "sample_store =
     \<lparr>ss_exists = (\<lambda>p. p \<in> {''secrets/snmpv3/s/userName'', ''secrets/snmpv3/s/authKey''}),
      ss_read = (\<lambda>p. Inr (if p = ''secrets/snmpv3/s/userName'' then ''u'' else []))\<rparr>"

definition sample_start :: "((string \<times> pyval) list result) \<times> receiver" where
  "sample_start = start_receiver (\<lambda>_. Inr ()) sample_store (\<lambda>_ _. True) [''80003a8c04''] None None (Some (PList [PStr ''s'']))"

lemma sample_start_ok: "\<exists>rc0. sample_start = (Inr [], rc0)"
proof -
  have "fst sample_start = Inr []" by code_simp
  then show ?thesis by (metis prod.collapse)
qed

theorem receiver_registers_known_witness:
  "\<exists>rc0. sample_start = (Inr [], rc0) \<and>
    (let rc = fold (\<lambda>(d, a) rc. snd (datagram_received sample_asn (\<lambda>_. Inr ()) True d a rc)) [(''x'', PNone)] rc0 in
      length (rc_users rc) = 1 \<and> ''80'' \<in> set (rc_added rc) \<and>
      receiver_users rc \<times> set (rc_added rc) \<subseteq> known_pairs rc)"
proof -
  obtain rc0 where rc0: "sample_start = (Inr [], rc0)" using sample_start_ok ..
  then have rc0_eq: "rc0 = snd sample_start" by (metis snd_conv)
  have "rc_users (snd sample_start) = [\<lparr>vu_name = ''u'', vu_auth_protocol = ''USM_AUTH_NONE'', vu_auth_key = Some [],
     vu_priv_protocol = ''USM_PRIV_NONE'', vu_priv_key = None\<rparr>]" by code_simp
  then have u: "length (rc_users rc0) = 1" "vu_name ` set (rc_users rc0) = {''u''}" by (simp_all add: rc0_eq)
  have i: "decode_security_context sample_asn ''x'' = (Some ''80'', Some ''u'')" by code_simp
  have low: "str_strip ''80'' = ''80''" "str_lower ''80'' = ''80''" by code_simp+
  have "brought sample_asn (rc_users rc0) True ''x'' = {''80''}"
    using u(2) by (simp add: brought_def admitted_def i low)
  with receiver_registers_known [OF rc0 [unfolded sample_start_def], where asn = sample_asn and discover = True and datagrams = "[(''x'', PNone)]"]
  show ?thesis using rc0 u(1) by (intro exI [of _ rc0]) (simp add: Let_def, elim conjE, simp)
qed

section \<open>The keys of a discovered engine\<close>

lemma drop_empty_keys_no: "vu_auth_key (drop_empty_keys u) \<noteq> Some []"
  by (simp add: drop_empty_keys_def)

text \<open>
  A user whose authentication key is an empty file is registered without a key for the
  engines known at the start, but with an empty key for an engine that a datagram brings in.
\<close>

theorem discovered_engine_empty_key:
  assumes "start_receiver add st valid listed mongo communities secrets = (Inr cs, rc0)"
    and "u \<in> set (rc_users rc0)" "vu_auth_key u = Some []"
    and "decode_security_context asn d = (Some i, Some (vu_name u))" "vu_name u \<noteq> []"
    and "str_lower (str_strip i) \<noteq> []" "str_lower (str_strip i) \<notin> set (rc_added rc0)"
    and "\<And>r. add r = Inr ()"
  shows "(\<forall>r \<in> set (rc_registered rc0). vu_auth_key (rg_user r) \<noteq> Some []) \<and>
    (\<exists>r \<in> set (rc_registered (snd (datagram_received asn add True d a rc0))).
       rg_engine r = str_lower (str_strip i) \<and> vu_auth_key (rg_user r) = Some [])"
proof -
  note start = start_receiver_ok [OF assms(1)]
  then have "\<forall>r \<in> set (rc_registered rc0). vu_auth_key (rg_user r) \<noteq> Some []"
    by (metis drop_empty_keys_no)
  moreover have running: "rc_running rc0" "rc_users rc0 \<noteq> []" using start assms(2) by auto
  have "i \<noteq> []" using assms(6) by (auto simp: str_strip_def str_lower_def str_lstrip_def str_rstrip_def)
  then have "\<lparr>rg_user = u, rg_engine = str_lower (str_strip i)\<rparr>
      \<in> set (rc_registered (snd (datagram_received asn add True d a rc0)))"
    using assms(2,4,5,6,7) running
    by (auto simp: datagram_received_def Let_def list_ex_iff add_v3_user_for_new_engine_id_def
        register_users_accepts [OF assms(8)])
  ultimately show ?thesis using assms(3) by force
qed

theorem discovered_engine_empty_key_witness:
  "\<exists>rc0. sample_start = (Inr [], rc0) \<and>
    (\<forall>r \<in> set (rc_registered rc0). vu_auth_key (rg_user r) \<noteq> Some []) \<and>
    (\<exists>r \<in> set (rc_registered (snd (datagram_received sample_asn (\<lambda>_. Inr ()) True ''x'' PNone rc0))).
       vu_auth_key (rg_user r) = Some [])"
proof -
  obtain rc0 where rc0: "sample_start = (Inr [], rc0)" using sample_start_ok ..
  then have rc0_eq: "rc0 = snd sample_start" by (metis snd_conv)
  let ?u = "\<lparr>vu_name = ''u'', vu_auth_protocol = ''USM_AUTH_NONE'', vu_auth_key = Some [],
     vu_priv_protocol = ''USM_PRIV_NONE'', vu_priv_key = None\<rparr>"
  have u: "rc_users (snd sample_start) = [?u]" by code_simp
  have i: "decode_security_context sample_asn ''x'' = (Some ''80'', Some ''u'')" by code_simp
  have low: "str_lower (str_strip ''80'') = ''80''" by code_simp
  have added: "rc_added (snd sample_start) = [''80003a8c04'']" by code_simp
  from discovered_engine_empty_key [OF rc0 [unfolded sample_start_def], of ?u sample_asn "''x''" "''80''" PNone]
  show ?thesis using rc0 u i low added by (fastforce simp: rc0_eq)
qed

section \<open>The work of a notification\<close>

definition raw_address :: "string \<Rightarrow> bool" where
  \<comment> \<open>four or sixteen octets, not all of them printable\<close>
  "raw_address octets \<longleftrightarrow>
     length octets \<in> {4, 16} \<and> (\<exists>b \<in> set octets. (of_char b :: nat) < 32 \<or> 127 \<le> (of_char b :: nat))"

definition text_of_value :: "trap_value \<Rightarrow> string \<Rightarrow> bool" where
  \<comment> \<open>how a value is shown: an address, the text of the value, or its octets in hex when it has no text\<close>
  "text_of_value val t \<longleftrightarrow>
     (if tv_is_ip val then tv_pretty val = Some t
      else if \<exists>octets. tv_octets val = Inr octets \<and> raw_address octets
      then (\<exists>octets. tv_octets val = Inr octets \<and>
              t = (if length octets = 4 then ipv4_text octets else ipv6_text octets))
      else if tv_pretty val \<in> {None, Some []}
      then t = (case tv_octets val of Inr (b # octets) \<Rightarrow> ''0x'' @ bytes_hex (b # octets) | _ \<Rightarrow> [])
      else tv_pretty val = Some t)"

lemma looks_like_raw_address_iff: "looks_like_raw_address octets = raw_address octets"
  by (auto simp: looks_like_raw_address_def raw_address_def list_ex_iff Let_def not_le not_less)

lemma format_trap_varbind_value_text:
  assumes "format_trap_varbind_value val = Inr t"
  shows "text_of_value val t"
proof (cases "tv_is_ip val")
  case True
  then show ?thesis using assms by (simp add: format_trap_varbind_value_def text_of_value_def split: option.splits)
next
  case ip: False
  show ?thesis
  proof (cases "tv_octets val")
    case (Inl e)
    then show ?thesis using assms ip
      by (cases "tv_pretty val") (auto simp: format_trap_varbind_value_def text_of_value_def split: if_splits)
  next
    case (Inr octets)
    then show ?thesis using assms ip
      by (cases "tv_pretty val"; cases octets)
         (auto simp: format_trap_varbind_value_def text_of_value_def looks_like_raw_address_iff Let_def split: if_splits)
  qed
qed

text \<open>
  C35.  The work handed to the task has the varbinds that the limit lets through, in order, each
  under its name and with the text that its value is shown as, and the worker, which limits them
  again, drops none of them; the identifier of the sender's engine goes along exactly when the
  option asks for it and the message has one.
\<close>

theorem cb_fun_work:
  assumes "fst (cb_fun asn opts ip vbs msg rc) = Inr work" "0 \<le> to_limit opts"
  shows "tw_host work = ip \<and>
    list_all2 (\<lambda>vb pair. fst pair = fst vb \<and> text_of_value (snd vb) (snd pair))
      (if to_limit opts = 0 then vbs else take (nat (to_limit opts)) vbs) (tw_data work) \<and>
    limit_trap_varbind_pairs (to_limit opts) (tw_data work) = tw_data work \<and>
    tw_fields work = (case fst (decode_security_context asn msg) of
        Some i \<Rightarrow> if i \<noteq> [] \<and> to_include_context opts then Some [(''context_engine_id'', PStr i)] else None
      | None \<Rightarrow> None)"
proof -
  have texts: "list_all2 (\<lambda>vb pair. fst pair = fst vb \<and> text_of_value (snd vb) (snd pair)) xs ys"
    if "res_list (\<lambda>(name, val). res_map (\<lambda>t. (name, t)) (format_trap_varbind_value val)) xs = Inr ys"
    for xs :: "(string \<times> trap_value) list" and ys
    using that
    by (induction xs arbitrary: ys)
       (auto split: sum.splits simp: res_map_def res_bind_def intro: format_trap_varbind_value_text)
  have twice: "length ys = length (limit_trap_varbind_pairs n xs) \<Longrightarrow> limit_trap_varbind_pairs n ys = ys"
    if "0 \<le> n" for n and xs :: "(string \<times> trap_value) list" and ys :: "trap_pair list"
    using that by (auto simp: limit_trap_varbind_pairs_def py_slice_to_def split: if_splits)
  have cut: "limit_trap_varbind_pairs n xs = (if n = 0 then xs else take (nat n) xs)"
    if "0 \<le> n" for n and xs :: "(string \<times> trap_value) list"
    using that by (auto simp: limit_trap_varbind_pairs_def py_slice_to_def)
  obtain data where data: "res_list (\<lambda>(name, val). res_map (\<lambda>t. (name, t)) (format_trap_varbind_value val))
      (limit_trap_varbind_pairs (to_limit opts) vbs) = Inr data"
    using assms(1) by (auto simp: cb_fun_def split: sum.splits)
  have work: "work = \<lparr>tw_host = ip, tw_data = data, tw_fields = (case fst (decode_security_context asn msg) of
        Some i \<Rightarrow> if i \<noteq> [] \<and> to_include_context opts then Some [(''context_engine_id'', PStr i)] else None
      | None \<Rightarrow> None)\<rparr>"
    using assms(1) data by (auto simp: cb_fun_def split: option.splits if_splits)
  have "length data = length (limit_trap_varbind_pairs (to_limit opts) vbs)"
    using list_all2_lengthD [OF texts [OF data]] by simp
  then have "limit_trap_varbind_pairs (to_limit opts) data = data" by (rule twice [OF assms(2)])
  then show ?thesis
    using texts [OF data] cut [OF assms(2), of vbs] by (simp add: work)
qed

definition sample_value :: trap_value where
  "sample_value = \<lparr>tv_is_ip = False, tv_pretty = Some ''1'', tv_octets = Inl AttributeError\<rparr>"

theorem cb_fun_work_witness:
  "\<exists>work. fst (cb_fun sample_asn \<lparr>to_limit = 1, to_include_context = True, to_valid = (\<lambda>_ _. True)\<rparr> ''h''
      [(''1.3'', sample_value), (''1.4'', sample_value)] ''x'' idle_receiver) = Inr work \<and>
    tw_host work = ''h'' \<and> length (tw_data work) = 1 \<and> text_of_value sample_value (snd (hd (tw_data work)))"
proof -
  let ?opts = "\<lparr>to_limit = 1, to_include_context = True, to_valid = (\<lambda>_ _. True)\<rparr>"
  have "is_ok (fst (cb_fun sample_asn ?opts ''h''
      [(''1.3'', sample_value), (''1.4'', sample_value)] ''x'' idle_receiver))" by code_simp
  then obtain work where "fst (cb_fun sample_asn ?opts ''h''
      [(''1.3'', sample_value), (''1.4'', sample_value)] ''x'' idle_receiver) = Inr work"
    by (auto simp: is_ok_def split: sum.splits)
  from cb_fun_work [OF this] this show ?thesis
    by (auto simp: list_all2_Cons1)
qed

section \<open>Communities\<close>

text \<open>
  The communities are registered under the numbers from 1 on, those of version 2c first, so
  that no two share a name.
\<close>

theorem add_communities_names:
  assumes "add_communities (Some c) = Inr cs"
  shows "map fst cs = map (\<lambda>i. str_of_int (int i)) [1..<Suc (length cs)] \<and> distinct (map fst cs)"
proof -
  have "map (\<lambda>(i, x). (str_of_int (int i + 1), x)) (enumerate 0 xs) =
      zip (map (\<lambda>i. str_of_int (int i)) [1..<Suc (length xs)]) xs" for xs :: "pyval list"
  proof -
    have "[1..<Suc (length xs)] = map Suc [0..<length xs]" by (simp add: map_Suc_upt)
    then show ?thesis
      by (simp add: enumerate_eq_zip zip_map1 comp_def add.commute case_prod_unfold del: upt_Suc)
  qed
  moreover have "\<exists>xs. cs = map (\<lambda>(i, x). (str_of_int (int i + 1), x)) (enumerate 0 xs)"
    using assms by (auto simp: add_communities_def res_map_def res_bind_def split: option.splits sum.splits
        intro: exI [of _ "[]"])
  ultimately obtain xs where cs: "cs = zip (map (\<lambda>i. str_of_int (int i)) [1..<Suc (length xs)]) xs" by metis
  have len: "length cs = length xs" unfolding cs by (simp del: upt_Suc)
  have "distinct (map str_of_int (map int [1..<Suc (length xs)]))"
    by (rule int_text.show_distinct) (simp_all add: distinct_map)
  then have "distinct (map (\<lambda>i. str_of_int (int i)) [1..<Suc (length xs)])"
    by (simp add: comp_def del: upt_Suc)
  moreover have "map fst cs = map (\<lambda>i. str_of_int (int i)) [1..<Suc (length xs)]"
    unfolding cs by (rule map_fst_zip) (simp del: upt_Suc)
  ultimately show ?thesis by (simp only: len)
qed

theorem add_communities_names_witness:
  "\<exists>cs. add_communities (Some [(KeyInt 1, PList [PStr ''a'']), (KeyStr ''2c'', PList [PStr ''b''])]) = Inr cs \<and>
    distinct (map fst cs)"
proof -
  have "is_ok (add_communities (Some [(KeyInt 1, PList [PStr ''a'']), (KeyStr ''2c'', PList [PStr ''b''])]))"
    by code_simp
  then obtain cs where cs: "add_communities (Some [(KeyInt 1, PList [PStr ''a'']), (KeyStr ''2c'', PList [PStr ''b''])]) = Inr cs"
    by (auto simp: is_ok_def split: sum.splits)
  from add_communities_names [OF cs] cs show ?thesis by blast
qed

end
