(* ===== verification/CsvRecords.thy ===== *)
theory CsvRecords
  imports PyCsv
begin

text \<open>
  The table of discovered devices (\<^verbatim>\<open>splunk_connect_for_snmp/common/csv_record_manager.py\<close>): a CSV
  file that is read as a whole, changed in memory and written back as a whole.

  The writer of the \<open>csv\<close> module quotes a cell that has a comma, a quote or a line break, and ends
  every row with CR LF.  The files are opened with \<open>newline=""\<close>, so that line breaks are not
  translated on reading.
\<close>

section \<open>The file\<close>

fun raw_lines :: "string \<Rightarrow> string \<Rightarrow> string list" where
  \<comment> \<open>the lines of a text, each with its CR, LF or CR LF; \<open>acc\<close> is the line being read\<close>
  "raw_lines acc [] = (if acc = [] then [] else [acc])"
| "raw_lines acc (c # s) =
     (if c = CHR 0x0A then (acc @ [c]) # raw_lines [] s
      else if c = CHR 0x0D
      then (case s of
              d # s' \<Rightarrow> if d = CHR 0x0A then (acc @ [c, d]) # raw_lines [] s' else (acc @ [c]) # raw_lines [] s
            | [] \<Rightarrow> [acc @ [c]])
      else raw_lines (acc @ [c]) s)"

definition raw_dict_reader :: "string \<Rightarrow> csv_dict list \<times> bool" where
  "raw_dict_reader text =
     (case csv_lines csv_fresh (raw_lines [] text) of
        ([], e) \<Rightarrow> ([], e)
      | (names # rows, e) \<Rightarrow> (map (csv_dict_row names) (filter (\<lambda>r. r \<noteq> []) rows), e))"

definition csv_quote :: "string \<Rightarrow> string" where
  "csv_quote s =
     (if plain_cell s then s
      else [CHR 0x22] @ concat (map (\<lambda>c. if c = CHR 0x22 then [c, c] else [c]) s) @ [CHR 0x22])"

definition csv_write_row :: "string list \<Rightarrow> string" where
  \<comment> \<open>a row of more than one cell\<close>
  "csv_write_row cells = str_join '','' (map csv_quote cells) @ [CHR 0x0D, CHR 0x0A]"

section \<open>The manager\<close>

definition csv_columns :: "string list" where
  "csv_columns = [''key'', ''subnet'', ''ip'', ''port'', ''version'', ''group'', ''secret'', ''community'']"

definition cell_text :: "pyval \<Rightarrow> string" where
  \<comment> \<open>what the writer makes of a cell of a row that was read or normalized\<close>
  "cell_text v = (case v of PStr s \<Rightarrow> s | _ \<Rightarrow> [])"

definition row_cells :: "csv_dict \<Rightarrow> string list result" where
  \<comment> \<open>\<open>DictWriter\<close>: a missing cell is empty, a key that is no column raises\<close>
  "row_cells row =
     (if cd_rest row \<noteq> None \<or> \<not> set (dict_keys (cd_cells row)) \<subseteq> set csv_columns then Inl ValueError
      else Inr (map (\<lambda>col. cell_text (dict_get_or (cd_cells row) col (PStr []))) csv_columns))"

fun write_rows :: "csv_dict list \<Rightarrow> string \<Rightarrow> string \<times> unit result" where
  \<comment> \<open>the text written, and how it ended\<close>
  "write_rows [] text = (text, Inr ())"
| "write_rows (row # rows) text =
     (case row_cells row of
        Inl e \<Rightarrow> (text, Inl e)
      | Inr cells \<Rightarrow> write_rows rows (text @ csv_write_row cells))"

definition write_to_csv :: "csv_dict list \<Rightarrow> string \<times> unit result" where
  \<comment> \<open>opening the file for writing empties it\<close>
  "write_to_csv rows = write_rows rows (csv_write_row csv_columns)"

definition new_manager :: "string option \<Rightarrow> string \<times> csv_dict list result" where
  \<comment> \<open>the file, created when there is none, and its rows\<close>
  "new_manager file =
     (case file of
        None \<Rightarrow> (csv_write_row csv_columns, Inr [])
      | Some text \<Rightarrow>
          (text, case raw_dict_reader text of (rows, bad) \<Rightarrow> if bad then Inl OtherError else Inr rows))"

definition normalize_row :: "(string, pyval) dict \<Rightarrow> csv_dict result" where
  "normalize_row row =
     res_map (\<lambda>cells. \<lparr>cd_cells = cells, cd_rest = None\<rparr>)
       (res_list (\<lambda>(k, v). res_map (\<lambda>s. (k, PStr s))
          (if v = PNone then Inr [] else res_map str_strip (py_str v))) row)"

definition row_key :: "csv_dict \<Rightarrow> pyval list result" where
  \<comment> \<open>the tuple of the columns; a missing column raises\<close>
  "row_key row = res_list (\<lambda>col. dict_item (cd_cells row) col) csv_columns"

fun add_rows :: "csv_dict list \<Rightarrow> pyval list list \<Rightarrow> csv_dict list \<Rightarrow> csv_dict list result" where
  \<comment> \<open>the rows of the table, the keys that exist, and the new rows\<close>
  "add_rows rows existing [] = Inr rows"
| "add_rows rows existing (row # new) =
     (case row_key row of
        Inl e \<Rightarrow> Inl e
      | Inr key \<Rightarrow>
          if key \<in> set existing then add_rows rows existing new
          else add_rows (rows @ [row]) (key # existing) new)"

definition create_rows ::
  "csv_dict list \<Rightarrow> (string, pyval) dict list \<Rightarrow> bool \<Rightarrow> csv_dict list result" where
  \<comment> \<open>the rows that are then written\<close>
  "create_rows rows inputs delete_flag =
     res_bind (res_list normalize_row inputs) (\<lambda>new_rows.
     res_bind (if delete_flag then Inr [] else res_list row_key rows) (\<lambda>existing.
     add_rows rows existing new_rows))"

definition delete_rows_by_key :: "string \<Rightarrow> csv_dict list \<Rightarrow> csv_dict list result" where
  "delete_rows_by_key key rows =
     res_map (\<lambda>ks. map snd (filter (\<lambda>(k, _). k \<noteq> str_strip key) ks))
       (res_list (\<lambda>row. res_bind (dict_item (cd_cells row) ''key'') (\<lambda>k.
           case k of PStr s \<Rightarrow> Inr (str_strip s, row) | _ \<Rightarrow> Inl AttributeError)) rows)"

definition update_table ::
  "string option \<Rightarrow> (string, pyval) dict list \<Rightarrow> bool \<Rightarrow> string \<Rightarrow> string \<times> unit result" where
  \<comment> \<open>what the discovery does to the file under its lock\<close>
  "update_table file devices delete_flag discovery_name =
     (case new_manager file of
        (text, Inl e) \<Rightarrow> (text, Inl e)
      | (text, Inr rows) \<Rightarrow>
          (case res_bind (if delete_flag then delete_rows_by_key discovery_name rows else Inr rows)
                  (\<lambda>kept. create_rows kept devices delete_flag) of
             Inl e \<Rightarrow> (text, Inl e)
           | Inr rows' \<Rightarrow> write_to_csv rows'))"

section \<open>Writing and reading back\<close>

definition one_line :: "string \<Rightarrow> bool" where
  "one_line s \<longleftrightarrow> CHR 0x0A \<notin> set s \<and> CHR 0x0D \<notin> set s"

definition table_row :: "string list \<Rightarrow> csv_dict" where
  "table_row cells = csv_dict_row csv_columns cells"

definition good_cells :: "string list \<Rightarrow> bool" where
  "good_cells cells \<longleftrightarrow> length cells = length csv_columns \<and> (\<forall>x \<in> set cells. one_line x)"

lemma csv_line_quoted:
  "cr_state r = InQuoted \<Longrightarrow>
   csv_line (concat (map (\<lambda>c. if c = CHR 0x22 then [c, c] else [c]) s) @ CHR 0x22 # rest) r =
   csv_line rest (r\<lparr>cr_state := QuoteInQuoted, cr_field := cr_field r @ s\<rparr>)"
proof (induction s arbitrary: r)
  case Nil
  then show ?case by (simp add: csv_char_def)
next
  case (Cons c s)
  have "csv_line (concat (map (\<lambda>c. if c = CHR 0x22 then [c, c] else [c]) (c # s)) @ CHR 0x22 # rest) r =
      csv_line (concat (map (\<lambda>c. if c = CHR 0x22 then [c, c] else [c]) s) @ CHR 0x22 # rest) (csv_add InQuoted c r)"
    using Cons.prems by (cases r) (auto simp: csv_char_def csv_add_def)
  also have "\<dots> = csv_line rest ((csv_add InQuoted c r)\<lparr>cr_state := QuoteInQuoted, cr_field := cr_field (csv_add InQuoted c r) @ s\<rparr>)"
    by (rule Cons.IH) (simp add: csv_add_def)
  finally show ?case by (simp add: csv_add_def)
qed

lemma csv_line_cell_end:
  assumes "cr_state r = StartField \<or> cr_state r = StartRecord \<and> c = CHR '',''" "cr_field r = []"
    and "c = CHR '','' \<or> c = CHR 0x0D"
  shows "csv_line (csv_quote s @ c # rest) r =
    csv_line rest \<lparr>cr_state = (if c = CHR '','' then StartField else EatCrnl), cr_field = [],
      cr_fields = cr_fields r @ [s]\<rparr>"
proof (cases "plain_cell s")
  case True
  show ?thesis
  proof (cases "s = []")
    case True
    then show ?thesis using assms
      by (auto simp: csv_quote_def plain_cell_def csv_char_def csv_start_field_def csv_newline_def csv_save_def)
  next
    case False
    have st: "cr_state r = StartField \<or> cr_state r = StartRecord" using assms(1) by auto
    have "csv_line (csv_quote s @ c # rest) r = csv_line (c # rest) (r\<lparr>cr_state := InField, cr_field := s\<rparr>)"
      using csv_line_first_cell [OF True False st assms(2)] True by (simp add: csv_quote_def)
    then show ?thesis using assms(3) by (auto simp: csv_char_def csv_newline_def csv_save_def)
  qed
next
  case False
  have "csv_line (csv_quote s @ c # rest) r =
      csv_line (c # rest) (r\<lparr>cr_state := QuoteInQuoted, cr_field := s\<rparr>)"
    using assms(1,2) False csv_line_quoted [of "r\<lparr>cr_state := InQuoted\<rparr>" s "c # rest"]
    by (auto simp: csv_quote_def csv_char_def csv_start_field_def csv_newline_def)
  then show ?thesis using assms(3) by (auto simp: csv_char_def csv_newline_def csv_save_def)
qed

lemma csv_line_written:
  assumes "cells \<noteq> []" "cr_field r = []"
    and "cr_state r = StartField \<or> cr_state r = StartRecord \<and> 2 \<le> length cells"
  shows "csv_line (csv_write_row cells) r =
    Some \<lparr>cr_state = StartRecord, cr_field = [], cr_fields = cr_fields r @ cells\<rparr>"
  using assms
proof (induction cells arbitrary: r rule: induct_list012)
  case (2 x)
  have "csv_line (csv_write_row [x]) r = csv_line [CHR 0x0A]
      \<lparr>cr_state = EatCrnl, cr_field = [], cr_fields = cr_fields r @ [x]\<rparr>"
    using csv_line_cell_end [of r "CHR 0x0D" x "[CHR 0x0A]"] "2.prems" by (simp add: csv_write_row_def)
  then show ?case by (simp add: csv_char_def csv_newline_def csv_eol_def)
next
  case (3 x y zs)
  let ?r = "\<lparr>cr_state = StartField, cr_field = [], cr_fields = cr_fields r @ [x]\<rparr>"
  have st: "cr_state r = StartField \<or> cr_state r = StartRecord" using "3.prems"(3) by auto
  have "csv_line (csv_write_row (x # y # zs)) r = csv_line (csv_write_row (y # zs)) ?r"
    using csv_line_cell_end [of r "CHR '',''" x "csv_write_row (y # zs)"] st "3.prems"(2)
    by (simp add: csv_write_row_def)
  also have "\<dots> = Some \<lparr>cr_state = StartRecord, cr_field = [], cr_fields = cr_fields ?r @ y # zs\<rparr>"
    by (rule "3.IH"(2)) simp_all
  finally show ?case by simp
qed simp

lemma raw_lines_line:
  "one_line l \<Longrightarrow> raw_lines acc (l @ CHR 0x0D # CHR 0x0A # s) = (acc @ l @ [CHR 0x0D, CHR 0x0A]) # raw_lines [] s"
  by (induction l arbitrary: acc) (auto simp: one_line_def)

lemma csv_quote_one_line: "one_line s \<Longrightarrow> one_line (csv_quote s)"
  by (auto simp: one_line_def csv_quote_def)

lemma csv_lines_written:
  assumes "\<And>row. row \<in> set rows \<Longrightarrow> 2 \<le> length row \<and> (\<forall>x \<in> set row. one_line x)"
  shows "csv_lines csv_fresh (raw_lines [] (concat (map csv_write_row rows))) = (rows, False)"
  using assms
proof (induction rows)
  case Nil
  then show ?case by (simp add: csv_fresh_def)
next
  case (Cons row rows)
  have len: "2 \<le> length row" and cells: "\<And>x. x \<in> set row \<Longrightarrow> one_line x" using Cons.prems by auto
  have "one_line (str_join '','' (map csv_quote row))"
    unfolding one_line_def
    by (intro conjI str_join_no_char) (use cells csv_quote_one_line in \<open>auto simp: one_line_def\<close>)
  then have "raw_lines [] (concat (map csv_write_row (row # rows))) =
      csv_write_row row # raw_lines [] (concat (map csv_write_row rows))"
    using raw_lines_line [of "str_join '','' (map csv_quote row)" "[]" "concat (map csv_write_row rows)"]
    by (simp add: csv_write_row_def)
  moreover have "csv_line (csv_write_row row) csv_fresh =
      Some \<lparr>cr_state = StartRecord, cr_field = [], cr_fields = row\<rparr>"
    using csv_line_written [of row csv_fresh] len by (cases row) (auto simp: csv_fresh_def)
  moreover have "csv_lines csv_fresh (raw_lines [] (concat (map csv_write_row rows))) = (rows, False)"
    by (rule Cons.IH) (use Cons.prems in auto)
  ultimately show ?case by simp
qed

text \<open>A row in memory that stands for a list of cells, whatever the order of its keys.\<close>

definition stands_for :: "csv_dict \<Rightarrow> string list \<Rightarrow> bool" where
  "stands_for row cells \<longleftrightarrow> row_key row = Inr (map PStr cells) \<and> row_cells row = Inr cells"

lemma write_rows_cells:
  "list_all2 stands_for rows tbl \<Longrightarrow>
     write_rows rows t = (t @ concat (map csv_write_row tbl), Inr ())"
  by (induction arbitrary: t rule: list_all2_induct) (auto simp: stands_for_def)

lemma write_to_csv_reads:
  assumes "list_all2 stands_for rows tbl" "\<forall>cells \<in> set tbl. good_cells cells"
  shows "\<exists>text. write_to_csv rows = (text, Inr ()) \<and> raw_dict_reader text = (map table_row tbl, False)"
proof -
  have "csv_lines csv_fresh (raw_lines [] (concat (map csv_write_row (csv_columns # tbl)))) = (csv_columns # tbl, False)"
    by (rule csv_lines_written) (use assms(2) in \<open>auto simp: good_cells_def csv_columns_def one_line_def\<close>)
  moreover have "filter (\<lambda>r. r \<noteq> []) tbl = tbl"
    using assms(2) by (auto simp: filter_id_conv good_cells_def csv_columns_def)
  ultimately have "raw_dict_reader (concat (map csv_write_row (csv_columns # tbl))) = (map table_row tbl, False)"
    by (simp add: raw_dict_reader_def table_row_def [abs_def] del: list.map concat.simps)
  then show ?thesis using write_rows_cells [OF assms(1)] by (simp add: write_to_csv_def)
qed

lemma good_cellsE:
  assumes "good_cells cells"
  obtains a b c d e f g h where "cells = [a, b, c, d, e, f, g, h]"
  using assms by (auto simp: good_cells_def csv_columns_def length_Suc_conv numeral_eq_Suc)

lemma table_row_stands_for:
  assumes "good_cells cells"
  shows "stands_for (table_row cells) cells"
  using assms
  by (elim good_cellsE)
    (simp add: stands_for_def table_row_def csv_dict_row_def row_key_def row_cells_def csv_columns_def
        dict_item_def dict_get_or_def dict_get_Cons dict_set_def dict_keys_def cell_text_def)

section \<open>What an update leaves in the file\<close>

fun merge_new :: "'a list \<Rightarrow> 'a list \<Rightarrow> 'a list" where
  \<comment> \<open>the elements that are neither seen nor repeated\<close>
  "merge_new seen [] = []"
| "merge_new seen (x # xs) = (if x \<in> set seen then merge_new seen xs else x # merge_new (x # seen) xs)"

lemma merge_new_props:
  "set (merge_new seen xs) = set xs - set seen" "distinct (merge_new seen xs)"
proof -
  have "set (merge_new seen xs) = set xs - set seen \<and> distinct (merge_new seen xs)"
    by (induction seen xs rule: merge_new.induct) auto
  then show "set (merge_new seen xs) = set xs - set seen" "distinct (merge_new seen xs)" by auto
qed

lemma add_rows_merge:
  assumes "list_all2 stands_for rows tbl" "list_all2 stands_for new ntbl"
  shows "\<exists>rows'. add_rows rows (map (map PStr) seen) new = Inr rows' \<and>
    list_all2 stands_for rows' (tbl @ merge_new seen ntbl)"
  using assms(2,1)
proof (induction arbitrary: rows tbl seen rule: list_all2_induct)
  case (Cons r new cells ntbl)
  have key: "row_key r = Inr (map PStr cells)" using Cons.hyps(1) by (simp add: stands_for_def)
  have mem: "map PStr cells \<in> map PStr ` set seen \<longleftrightarrow> cells \<in> set seen"
    by (intro inj_image_mem_iff inj_mapI injI) simp
  show ?case
  proof (cases "cells \<in> set seen")
    case True
    then show ?thesis using Cons.IH [OF Cons.prems, of seen] key by auto
  next
    case False
    have "list_all2 stands_for (rows @ [r]) (tbl @ [cells])"
      using Cons.prems Cons.hyps(1) by (simp add: list_all2_appendI)
    from Cons.IH [OF this, of "cells # seen"] show ?thesis using False key mem by auto
  qed
qed auto

definition normal_text :: "pyval \<Rightarrow> string" where
  \<comment> \<open>the text that a value is normalized to\<close>
  "normal_text v = (if v = PNone then [] else case py_str v of Inr s \<Rightarrow> str_strip s | Inl _ \<Rightarrow> [])"

definition device_cells :: "(string, pyval) dict \<Rightarrow> string list" where
  "device_cells d = map (\<lambda>col. normal_text (dict_get_or d col PNone)) csv_columns"

definition device_ok :: "(string, pyval) dict \<Rightarrow> bool" where
  \<comment> \<open>a device has all columns and no other key, and its values have texts of one line\<close>
  "device_ok d \<longleftrightarrow> set (dict_keys d) = set csv_columns \<and>
     (\<forall>(k, v) \<in> set d. is_ok (py_str v) \<and> one_line (normal_text v))"

lemma dict_get_map_values:
  "dict_get (map (\<lambda>(k, v). (k, f v)) d) k = map_option f (dict_get d k)"
  by (simp add: dict_get_def map_of_map)

lemma normalize_row_stands_for:
  assumes "device_ok d"
  shows "\<exists>r. normalize_row d = Inr r \<and> stands_for r (device_cells d)"
proof -
  have "res_list (\<lambda>(k, v). res_map (\<lambda>s. (k, PStr s))
          (if v = PNone then Inr [] else res_map str_strip (py_str v))) xs =
      Inr (map (\<lambda>(k, v). (k, PStr (normal_text v))) xs)"
    if "\<forall>(k, v) \<in> set xs. is_ok (py_str v)" for xs
    using that by (induction xs) (auto simp: normal_text_def is_ok_def split: sum.splits)
  note texts = this
  have norm: "normalize_row d =
      Inr \<lparr>cd_cells = map (\<lambda>(k, v). (k, PStr (normal_text v))) d, cd_rest = None\<rparr>"
  proof -
    have "\<forall>(k, v) \<in> set d. is_ok (py_str v)" using assms by (auto simp: device_ok_def)
    then show ?thesis by (simp add: normalize_row_def texts)
  qed
  have keys: "dict_keys (map (\<lambda>(k, v). (k, PStr (normal_text v))) d) = dict_keys d"
    by (simp add: dict_keys_def comp_def case_prod_unfold)
  have get: "\<exists>v. dict_get d col = Some v" if "col \<in> set csv_columns" for col
    using assms that dict_get_None_iff [of d col] by (cases "dict_get d col") (auto simp: device_ok_def)
  have "row_key \<lparr>cd_cells = map (\<lambda>(k, v). (k, PStr (normal_text v))) d, cd_rest = None\<rparr> =
      Inr (map PStr (device_cells d))"
  proof -
    have "res_list (\<lambda>col. dict_item (map (\<lambda>(k, v). (k, PStr (normal_text v))) d) col) cols =
        Inr (map PStr (map (\<lambda>col. normal_text (dict_get_or d col PNone)) cols))"
      if "set cols \<subseteq> set csv_columns" for cols
      using that
    proof (induction cols)
      case (Cons c cols)
      obtain v where "dict_get d c = Some v" using get [of c] Cons.prems by auto
      then show ?case using Cons by (simp add: dict_item_def dict_get_map_values dict_get_or_def)
    qed simp
    then show ?thesis by (simp add: row_key_def device_cells_def)
  qed
  moreover have "row_cells \<lparr>cd_cells = map (\<lambda>(k, v). (k, PStr (normal_text v))) d, cd_rest = None\<rparr> =
      Inr (device_cells d)"
    using assms by (auto simp: row_cells_def keys device_ok_def device_cells_def dict_get_or_def
        dict_get_map_values cell_text_def split: option.split dest: get)
  ultimately show ?thesis using norm by (auto simp: stands_for_def)
qed

lemma device_cells_good:
  assumes "device_ok d"
  shows "good_cells (device_cells d)"
proof -
  have "one_line (normal_text (dict_get_or d col PNone))" for col
  proof (cases "dict_get d col")
    case None
    then show ?thesis by (simp add: dict_get_or_def normal_text_def one_line_def)
  next
    case (Some v)
    from dict_get_SomeD [OF this] show ?thesis using assms Some by (auto simp: device_ok_def dict_get_or_def)
  qed
  then show ?thesis by (auto simp: good_cells_def device_cells_def)
qed

lemma delete_table_rows:
  assumes "\<forall>cells \<in> set tbl. good_cells cells"
  shows "delete_rows_by_key name (map table_row tbl) =
    Inr (map table_row (filter (\<lambda>cells. str_strip (hd cells) \<noteq> str_strip name) tbl))"
proof -
  have key: "dict_item (cd_cells (table_row cells)) ''key'' = Inr (PStr (hd cells))" if "good_cells cells" for cells
    using that by (elim good_cellsE)
      (simp add: csv_columns_def table_row_def csv_dict_row_def dict_item_def dict_get_Cons dict_set_def)
  have "res_list (\<lambda>row. res_bind (dict_item (cd_cells row) ''key'') (\<lambda>k.
           case k of PStr s \<Rightarrow> Inr (str_strip s, row) | _ \<Rightarrow> Inl AttributeError)) (map table_row tbl) =
      Inr (map (\<lambda>cells. (str_strip (hd cells), table_row cells)) tbl)"
    using assms by (induction tbl) (simp_all add: key)
  then show ?thesis
    by (simp add: delete_rows_by_key_def filter_map comp_def)
qed

lemma table_rows_stand_for:
  "\<forall>cells \<in> set tbl. good_cells cells \<Longrightarrow> list_all2 stands_for (map table_row tbl) tbl"
  by (induction tbl) (auto intro: table_row_stands_for)

lemma update_table_reads:
  assumes "new_manager file = (text, Inr (map table_row tbl))" "\<forall>cells \<in> set tbl. good_cells cells"
    and "\<forall>d \<in> set devices. device_ok d"
  shows "\<exists>text'. update_table file devices flag name = (text', Inr ()) \<and>
    raw_dict_reader text' =
      (map table_row ((if flag then filter (\<lambda>cells. str_strip (hd cells) \<noteq> str_strip name) tbl else tbl) @
         merge_new (if flag then [] else tbl) (map device_cells devices)), False)"
proof -
  let ?base = "if flag then filter (\<lambda>cells. str_strip (hd cells) \<noteq> str_strip name) tbl else tbl"
  let ?seen = "if flag then [] else tbl"
  have base: "\<forall>cells \<in> set ?base. good_cells cells" using assms(2) by auto
  have kept: "(if flag then delete_rows_by_key name (map table_row tbl) else Inr (map table_row tbl)) =
      Inr (map table_row ?base)"
    using delete_table_rows [OF assms(2)] by simp
  have new: "\<exists>new. res_list normalize_row ds = Inr new \<and> list_all2 stands_for new (map device_cells ds)"
    if "\<forall>d \<in> set ds. device_ok d" for ds
    using that
  proof (induction ds)
    case (Cons d ds)
    then show ?case using normalize_row_stands_for [of d] by auto
  qed simp
  obtain new where new: "res_list normalize_row devices = Inr new"
    "list_all2 stands_for new (map device_cells devices)"
    using new [OF assms(3)] by auto
  have existing: "(if flag then Inr [] else res_list row_key (map table_row ?base)) = Inr (map (map PStr) ?seen)"
  proof -
    have "res_list row_key (map table_row cs) = Inr (map (map PStr) cs)" if "\<forall>cells \<in> set cs. good_cells cells" for cs
      using that by (induction cs) (use table_row_stands_for in \<open>auto simp: stands_for_def\<close>)
    then show ?thesis using assms(2) by simp
  qed
  obtain rows' where rows': "add_rows (map table_row ?base) (map (map PStr) ?seen) new = Inr rows'"
    "list_all2 stands_for rows' (?base @ merge_new ?seen (map device_cells devices))"
    using add_rows_merge [OF table_rows_stand_for [OF base] new(2)] by blast
  have "\<forall>cells \<in> set (?base @ merge_new ?seen (map device_cells devices)). good_cells cells"
    using base assms(3) device_cells_good by (auto simp: merge_new_props)
  from write_to_csv_reads [OF rows'(2) this] obtain text' where "write_to_csv rows' = (text', Inr ())"
    "raw_dict_reader text' = (map table_row (?base @ merge_new ?seen (map device_cells devices)), False)" by auto
  then show ?thesis
    using assms(1) kept new(1) existing rows'(1) by (simp add: update_table_def create_rows_def)
qed

definition sample_device :: "(string, pyval) dict" where
  "sample_device = [(''key'', PStr ''d''), (''ip'', PStr ''10.0.0.1''), (''subnet'', PStr ''10.0.0.0/30''),
     (''group'', PStr ''a,b''), (''version'', PStr ''2c''), (''port'', PInt 161), (''secret'', PNone),
     (''community'', PStr ''public'')]"

lemma sample_device_ok: "device_ok sample_device"
proof -
  have "map (\<lambda>(k, v). is_ok (py_str v) \<and> one_line (normal_text v)) sample_device = replicate 8 True" by code_simp
  then have "\<forall>(k, v) \<in> set sample_device. is_ok (py_str v) \<and> one_line (normal_text v)"
    by (simp add: sample_device_def numeral_eq_Suc)
  moreover have "set (dict_keys sample_device) = set csv_columns"
    by (auto simp: sample_device_def dict_keys_def csv_columns_def)
  ultimately show ?thesis by (simp add: device_ok_def)
qed

text \<open>
  Adding the devices of a discovery to the table keeps the rows of the table in order (without
  those of the same discovery when they are to be deleted) and adds each new row once, and the file
  that is written reads back as exactly that table, whatever commas and quotes the cells contain.
\<close>

theorem update_table_effect:
  assumes "new_manager file = (text, Inr (map table_row tbl))" "\<forall>cells \<in> set tbl. good_cells cells"
    and "\<forall>d \<in> set devices. device_ok d"
  shows "\<exists>text'. update_table file devices flag name = (text', Inr ()) \<and>
    raw_dict_reader text' =
      (map table_row ((if flag then filter (\<lambda>cells. str_strip (hd cells) \<noteq> str_strip name) tbl else tbl) @
         merge_new (if flag then [] else tbl) (map device_cells devices)), False)"
  by (rule update_table_reads [OF assms])

theorem update_table_effect_witness:
  "\<exists>text'. update_table None [sample_device] True ''d'' = (text', Inr ()) \<and>
    raw_dict_reader text' = ([table_row (device_cells sample_device)], False)"
proof -
  have "new_manager None = (csv_write_row csv_columns, Inr (map table_row []))" by (simp add: new_manager_def)
  from update_table_effect [OF this, of "[sample_device]" True "''d''"] show ?thesis
    by (simp add: sample_device_ok)
qed

text \<open>
  A row of the file that has more cells than there are columns makes the update fail after the
  file was emptied: what is left of the table are the rows before it.
\<close>

theorem extra_cells_lose_rows:
  assumes "new_manager file = (text, Inr (map table_row tbl @ row # after))" "\<forall>cells \<in> set tbl. good_cells cells"
    and "cd_rest row \<noteq> None" "\<forall>r \<in> set (row # after). is_ok (row_key r)"
    and "\<forall>d \<in> set devices. device_ok d"
  shows "\<exists>text'. update_table file devices False name = (text', Inl ValueError) \<and>
    raw_dict_reader text' = (map table_row tbl, False)"
proof -
  let ?rows = "map table_row tbl @ row # after"
  have "\<exists>new. res_list normalize_row ds = Inr new" if "\<forall>d \<in> set ds. device_ok d" for ds
    using that
  proof (induction ds)
    case (Cons d ds)
    then show ?case using normalize_row_stands_for [of d] by auto
  qed simp
  then obtain new where new: "res_list normalize_row devices = Inr new" using assms(5) by blast
  have new_keys: "\<forall>r \<in> set new. is_ok (row_key r)"
  proof -
    have "\<forall>r \<in> set rs. is_ok (row_key r)" if "res_list normalize_row ds = Inr rs" "\<forall>d \<in> set ds. device_ok d" for ds rs
      using that
    proof (induction ds arbitrary: rs)
      case (Cons d ds)
      obtain r where "normalize_row d = Inr r" "stands_for r (device_cells d)"
        using normalize_row_stands_for [of d] Cons.prems(2) by auto
      then show ?case using Cons by (auto simp: stands_for_def is_ok_def res_bind_def split: sum.splits)
    qed simp
    then show ?thesis using new assms(5) by blast
  qed
  have "\<forall>r \<in> set ?rows. is_ok (row_key r)"
    using assms(2,4) table_row_stands_for by (auto simp: stands_for_def is_ok_def)
  then obtain keys where keys: "res_list row_key ?rows = Inr keys"
    using res_list_ok [of ?rows row_key] by (auto simp: is_ok_iff)
  have "\<exists>added. add_rows rs ks ns = Inr (rs @ added)" if "\<forall>r \<in> set ns. is_ok (row_key r)" for rs ks ns
    using that
  proof (induction rs ks ns rule: add_rows.induct)
    case (2 rs ks n ns)
    then obtain k where "row_key n = Inr k" by (auto simp: is_ok_def split: sum.splits)
    then show ?case using 2 by (cases "k \<in> set ks") fastforce+
  qed simp
  then obtain added where added: "add_rows ?rows keys new = Inr (?rows @ added)" using new_keys by blast
  have stop: "write_rows (rs @ row # after') t = (fst (write_rows rs t), Inl ValueError)"
    if "snd (write_rows rs t) = Inr ()" for rs after' t
    using that assms(3)
    by (induction rs t rule: write_rows.induct) (auto simp: row_cells_def split: sum.splits)
  obtain text' where w: "write_to_csv (map table_row tbl) = (text', Inr ())"
    "raw_dict_reader text' = (map table_row tbl, False)"
    using write_to_csv_reads [OF table_rows_stand_for [OF assms(2)] assms(2)] by blast
  have "write_to_csv (?rows @ added) = (text', Inl ValueError)"
    using stop [of "map table_row tbl" "csv_write_row csv_columns" "after @ added"] w(1)
    by (simp add: write_to_csv_def)
  then show ?thesis
    using assms(1) new keys added w(2) by (simp add: update_table_def create_rows_def)
qed

definition long_row :: csv_dict where
  "long_row = csv_dict_row csv_columns [''k'', ''s'', ''i'', ''p'', ''v'', ''g'', ''s'', ''c'', ''x'']"

theorem extra_cells_lose_rows_witness:
  "\<exists>text'. update_table (Some (csv_write_row csv_columns @ ''k,s,i,p,v,g,s,c,x'')) [sample_device] False ''d'' =
      (text', Inl ValueError) \<and> raw_dict_reader text' = ([], False)"
proof -
  let ?t = "csv_write_row csv_columns @ ''k,s,i,p,v,g,s,c,x''"
  have "raw_dict_reader ?t = ([long_row], False)" by code_simp
  then have "new_manager (Some ?t) = (?t, Inr (map table_row [] @ long_row # []))"
    by (simp add: new_manager_def)
  moreover have "cd_rest long_row \<noteq> None" "is_ok (row_key long_row)" by code_simp+
  ultimately show ?thesis
    using extra_cells_lose_rows [of "Some ?t" ?t "[]" long_row "[]" "[sample_device]" "''d''"]
    by (simp add: sample_device_ok)
qed

end
