(* ===== verification/Discovery.thy ===== *)
theory Discovery
  imports Auth SnmpData CsvRecords TaskMgr "HOL-Library.Multiset"
begin

text \<open>
  Discovery of SNMP devices (\<^verbatim>\<open>splunk_connect_for_snmp/discovery/discovery_manager.py\<close>,
  \<^verbatim>\<open>discovery/loader.py\<close> and \<^verbatim>\<open>discovery/tasks.py\<close>): the hosts of a subnet, the group of a device,
  the scan with its limit of concurrent checks, and the tasks of the configuration.

  The answer of a device is a function of the credentials and the transport.  The checks of a scan
  run concurrently under a semaphore; the step relation \<open>scan_step\<close> has one step for a check that
  gets the semaphore and one for a check that ends.
\<close>

section \<open>The hosts of a subnet\<close>

definition net_hosts :: "ip_net \<Rightarrow> nat list" where
  \<comment> \<open>\<open>network.hosts()\<close>\<close>
  "net_hosts net =
     (let n = net_size net; first = in_base net in
      if n \<le> 2 then [first ..< first + n]
      else if in_v6 net then [first + 1 ..< first + n]
      else [first + 1 ..< first + n - 1])"

definition ip_str :: "bool \<Rightarrow> nat \<Rightarrow> string" where
  "ip_str v6 n =
     (if v6 then ipv6_text (map (\<lambda>i. char_of (n div 256 ^ (15 - i))) [0..<16]) else ipv4_str n)"

definition get_host_list :: "string \<Rightarrow> string list result" where
  "get_host_list subnet =
     (case ip_network subnet of
        Inl _ \<Rightarrow> Inl DiscoveryError
      | Inr net \<Rightarrow> Inr (map (ip_str (in_v6 net)) (net_hosts net)))"

section \<open>The group of a device\<close>

text \<open>\<open>fnmatch.translate\<close>: a shell pattern as a regular expression, letters of either case.\<close>

definition same_case :: "char \<Rightarrow> char \<Rightarrow> bool" where
  "same_case a b = (lower_char a = lower_char b)"

definition char_between :: "char \<Rightarrow> char \<Rightarrow> char \<Rightarrow> bool" where
  "char_between a b c = ((of_char a :: nat) \<le> of_char c \<and> (of_char c :: nat) \<le> of_char b)"

fun class_has :: "string \<Rightarrow> char \<Rightarrow> bool" where
  \<comment> \<open>a character and the body of a bracket expression with its ranges; an empty range has none\<close>
  "class_has (a # d # b # s) c =
     (if d = CHR ''-''
      then char_between a b (lower_char c) \<or> char_between a b (upper_char (lower_char c)) \<or> class_has s c
      else same_case a c \<or> class_has (d # b # s) c)"
| "class_has (a # s) c = (same_case a c \<or> class_has s c)"
| "class_has [] c = False"

definition class_rx :: "string \<Rightarrow> rx" where
  "class_rx body =
     (if body = [] then RNone
      else if hd body = CHR ''!'' then RCls (\<lambda>c. \<not> class_has (tl body) c)
      else RCls (class_has body))"

definition bracket_end :: "string \<Rightarrow> (string \<times> string) option" where
  \<comment> \<open>the body of a bracket expression and the rest; a bracket may be its first character\<close>
  "bracket_end s =
     (let neg = (case s of c # _ \<Rightarrow> if c = CHR ''!'' then [c] else [] | [] \<Rightarrow> []);
          s1 = drop (length neg) s;
          brk = (case s1 of c # _ \<Rightarrow> if c = CHR '']'' then [c] else [] | [] \<Rightarrow> []);
          s2 = drop (length brk) s1 in
      case str_cut '']'' s2 of None \<Rightarrow> None | Some (a, b) \<Rightarrow> Some (neg @ brk @ a, b))"

fun glob_rx :: "nat \<Rightarrow> string \<Rightarrow> rx" where
  \<comment> \<open>the number bounds the characters left\<close>
  "glob_rx 0 s = REps"
| "glob_rx (Suc n) [] = REps"
| "glob_rx (Suc n) (c # s) =
     (if c = CHR ''*'' then RSeq (RStar (RCls (\<lambda>_. True))) (glob_rx n s)
      else if c = CHR ''?'' then RSeq (RCls (\<lambda>_. True)) (glob_rx n s)
      else if c = CHR ''['' then
        (case bracket_end s of
           None \<Rightarrow> RSeq (rx_chr c) (glob_rx n s)
         | Some (body, rest) \<Rightarrow> RSeq (class_rx body) (glob_rx n rest))
      else RSeq (RCls (same_case c)) (glob_rx n s))"

definition fnmatch_translate :: "string \<Rightarrow> rx" where
  "fnmatch_translate pattern = glob_rx (Suc (length pattern)) pattern"

definition rule_search :: "string \<Rightarrow> string \<Rightarrow> bool" where
  \<comment> \<open>\<open>re.search(fnmatch.translate(pattern), value, re.IGNORECASE)\<close>: the pattern is bound to the end only\<close>
  "rule_search pattern val = rx_match (RSeq (RStar (RCls (\<lambda>_. True))) (fnmatch_translate pattern)) val"

definition DEFAULT_GROUP_NAME :: string where "DEFAULT_GROUP_NAME = ''default_group''"

definition rule_group :: "string \<Rightarrow> pyval \<Rightarrow> pyval option" where
  \<comment> \<open>the group of a rule that matches; a rule that raises is passed over\<close>
  "rule_group val rule =
     (case rule of
        PDict d \<Rightarrow>
          (case dict_get_or d ''patterns'' PNone of
             PStr p \<Rightarrow> if p \<noteq> [] \<and> rule_search p val
                      then Some (dict_get_or d ''group'' (PStr DEFAULT_GROUP_NAME)) else None
           | _ \<Rightarrow> None)
      | _ \<Rightarrow> None)"

fun first_group :: "string \<Rightarrow> pyval list \<Rightarrow> pyval" where
  "first_group val [] = PStr DEFAULT_GROUP_NAME"
| "first_group val (rule # rules) =
     (case rule_group val rule of Some g \<Rightarrow> g | None \<Rightarrow> first_group val rules)"

definition find_device_group :: "string list \<Rightarrow> pyval \<Rightarrow> pyval result" where
  \<comment> \<open>the texts of the values of the varbinds\<close>
  "find_device_group varbinds device_rules =
     (case device_rules of
        PList rules \<Rightarrow> (case varbinds of [] \<Rightarrow> Inl IndexError | val # _ \<Rightarrow> Inr (first_group val rules))
      | _ \<Rightarrow> Inr (PStr DEFAULT_GROUP_NAME))"

section \<open>The check of a device\<close>

record get_reply =
  gr_indication :: bool                      \<comment> \<open>there is an error indication\<close>
  gr_status :: int
  gr_values :: "string list"

type_synonym 'o get_fn = "'o auth_data \<Rightarrow> transport \<Rightarrow> get_reply result"

definition check_snmp_device ::
  "'o auth_env \<Rightarrow> 'o get_fn \<Rightarrow> string \<Rightarrow> kwargs \<Rightarrow> (auth_event, (string, pyval) dict option) effect" where
  "check_snmp_device env get ip rec0 =
     (let rec = dict_set ''address'' (PStr ip) rec0 in
      eff_bind ([], setup_transport_target env rec) (\<lambda>target.
      eff_bind (get_discovery_auth env rec) (\<lambda>auth.
      eff_bind ([], get auth target) (\<lambda>reply.
        if gr_indication reply \<or> gr_status reply \<noteq> 0 then ([], Inr None)
        else ([], res_map (\<lambda>grp. Some
               [(''key'', rec_field rec ''discovery_name''), (''ip'', PStr ip),
                (''subnet'', rec_field rec ''network_address''), (''group'', grp),
                (''version'', rec_field rec ''version''), (''port'', rec_field rec ''port''),
                (''secret'', rec_field rec ''secret''), (''community'', rec_field rec ''community'')])
             (find_device_group (gr_values reply) (rec_field rec ''device_rules'')))))))"

definition scan_ip ::
  "'o auth_env \<Rightarrow> 'o get_fn \<Rightarrow> kwargs \<Rightarrow> string \<Rightarrow> (string, pyval) dict option" where
  \<comment> \<open>what a check ends with once it has the semaphore; an exception counts as no device\<close>
  "scan_ip env get rec ip =
     (case snd (check_snmp_device env get ip rec) of Inl _ \<Rightarrow> None | Inr r \<Rightarrow> r)"

section \<open>The scan\<close>

record 'r scan_state =
  sc_waiting :: "nat list"                   \<comment> \<open>the checks that wait for the semaphore, in order\<close>
  sc_running :: "nat list"
  sc_results :: "(nat \<times> 'r) list"            \<comment> \<open>the checks that ended, with their results\<close>

definition scan_start :: "nat \<Rightarrow> 'r scan_state" where
  "scan_start n = \<lparr>sc_waiting = [0..<n], sc_running = [], sc_results = []\<rparr>"

inductive scan_step :: "nat \<Rightarrow> (nat \<Rightarrow> 'r) \<Rightarrow> 'r scan_state \<Rightarrow> 'r scan_state \<Rightarrow> bool"
  for limit :: nat and res :: "nat \<Rightarrow> 'r" where
  acquire: "length (sc_running s) < limit \<Longrightarrow> sc_waiting s = i # w \<Longrightarrow>
     scan_step limit res s (s\<lparr>sc_waiting := w, sc_running := sc_running s @ [i]\<rparr>)"
| release: "i \<in> set (sc_running s) \<Longrightarrow>
     scan_step limit res s
       (s\<lparr>sc_running := remove1 i (sc_running s), sc_results := sc_results s @ [(i, res i)]\<rparr>)"

definition gather :: "nat \<Rightarrow> 'r scan_state \<Rightarrow> 'r option list" where
  \<comment> \<open>the results in the order of the checks\<close>
  "gather n s = map (\<lambda>i. map_of (sc_results s) i) [0..<n]"

definition discover_snmp_devices ::
  "'o auth_env \<Rightarrow> 'o get_fn \<Rightarrow> string list \<Rightarrow> kwargs \<Rightarrow> (string, pyval) dict list" where
  \<comment> \<open>the devices among the results that the scan gathers\<close>
  "discover_snmp_devices env get ip_list rec =
     filter (\<lambda>d. d \<noteq> []) (somes (map (scan_ip env get rec) ip_list))"

definition discovery_do_work ::
  "'o auth_env \<Rightarrow> 'o get_fn \<Rightarrow> kwargs \<Rightarrow> string option \<Rightarrow> string option \<times> (string, pyval) dict list result" where
  \<comment> \<open>the table of devices afterwards, and the devices found\<close>
  "discovery_do_work env get rec file =
     (case rec_field rec ''network_address'' of
        PStr subnet \<Rightarrow>
          (case get_host_list subnet of
             Inl _ \<Rightarrow> (file, Inl DiscoveryError)
           | Inr hosts \<Rightarrow>
               (let devices = discover_snmp_devices env get hosts rec;
                    name = (case rec_field rec ''discovery_name'' of PStr s \<Rightarrow> s | _ \<Rightarrow> ''None'') in
                case update_table file devices (rec_field rec ''delete_already_discovered'' = PBool True) name of
                  (text, Inl _) \<Rightarrow> (Some text, Inl DiscoveryError)
                | (text, Inr _) \<Rightarrow> (Some text, Inr devices)))
      | _ \<Rightarrow> (file, Inl DiscoveryError))"

definition discovery ::
  "'o auth_env \<Rightarrow> 'o get_fn \<Rightarrow> kwargs \<Rightarrow> string option \<Rightarrow> string option \<times> (string, pyval) dict result" where
  \<comment> \<open>the task\<close>
  "discovery env get kwargs file =
     (case DiscoveryRecord kwargs of
        Inl e \<Rightarrow> (file, Inl e)
      | Inr rec \<Rightarrow>
          (case discovery_do_work env get rec file of
             (file', r) \<Rightarrow> (file', res_map (\<lambda>ds. [(''snmp_device_details'', PList (map PDict ds))]) r)))"

section \<open>The tasks of the configuration\<close>

definition check_ipv6 :: "pyval \<Rightarrow> bool result" where
  "check_ipv6 subnet =
     (case subnet of PStr s \<Rightarrow> res_map in_v6 (ip_network s) | _ \<Rightarrow> Inl ValueError)"

fun load_discoveries ::
  "(tcmd list \<Rightarrow> from_key_fn) \<Rightarrow> int \<Rightarrow> bool \<Rightarrow> (string, pyval) dict \<Rightarrow> tcmd list \<Rightarrow> string list \<Rightarrow>
     (tcmd, string list) effect" where
  \<comment> \<open>the loop over the configured discoveries, with the commands sent before it and the names of the
      tasks so far; the entries are read as they are after the commands sent\<close>
  "load_discoveries from_key expiry ipv6_enabled [] sent active = ([], Inr active)"
| "load_discoveries from_key expiry ipv6_enabled ((key, val) # rest) sent active =
     (case val of
        PDict d0 \<Rightarrow>
          (let d = dict_set ''discovery_name'' (PStr key) d0 in
           eff_bind ([], DiscoveryRecord d) (\<lambda>rec.
           eff_bind ([], res_bind (dict_item d ''network_address'') check_ipv6) (\<lambda>is_ipv6.
             if \<not> is_ipv6 \<or> ipv6_enabled
             then (let td = discovery_task_definition expiry rec in
                   eff_bind (case manage_task (from_key sent) td of Inl e \<Rightarrow> ([], Inl e) | Inr cmds \<Rightarrow> (cmds, Inr cmds)) (\<lambda>cmds.
                     load_discoveries from_key expiry ipv6_enabled rest (sent @ cmds) (active @ [attr_str ''name'' td])))
             else load_discoveries from_key expiry ipv6_enabled rest sent active)))
      | _ \<Rightarrow> ([], Inl TypeError))"

definition load_discovery ::
  "(tcmd list \<Rightarrow> scan_fn) \<Rightarrow> (tcmd list \<Rightarrow> from_key_fn) \<Rightarrow> int \<Rightarrow> pyval result \<Rightarrow> (tcmd, unit) effect" where
  \<comment> \<open>\<open>load\<close>, given the configuration that YAML read and what the scheduler answers after the
      commands sent so far\<close>
  "load_discovery scan from_key expiry config =
     eff_bind ([], config) (\<lambda>config.
     eff_bind ([], res_map py_truthy (py_get config ''ipv6Enabled'' (PBool False))) (\<lambda>ipv6_enabled.
     eff_bind ([], py_get config ''autodiscovery'' (PDict [])) (\<lambda>autodiscovery.
     eff_bind (case did_expiry_time_change (scan []) (from_key []) expiry [DISCOVERY_TASK] of
                 Inl e \<Rightarrow> ([], Inl e) | Inr (changed, cmds) \<Rightarrow> (cmds, Inr cmds)) (\<lambda>expired.
     eff_bind (case autodiscovery of
                 PDict ds \<Rightarrow>
                   (case load_discoveries from_key expiry ipv6_enabled ds expired [] of
                      (cmds, r) \<Rightarrow> (cmds, res_map (\<lambda>active. (expired @ cmds, active)) r))
               | _ \<Rightarrow> ([], Inl AttributeError)) (\<lambda>(sent, active).
     case delete_unused_discovery_tasks (scan sent) (from_key sent) active of
       Inl e \<Rightarrow> ([], Inl e)
     | Inr cmds \<Rightarrow> (cmds, Inr ()))))))"

section \<open>The scan under its semaphore\<close>

inductive_cases scan_stepE: "scan_step limit res s t"

definition scan_inv :: "nat \<Rightarrow> (nat \<Rightarrow> 'r) \<Rightarrow> nat \<Rightarrow> 'r scan_state \<Rightarrow> bool" where
  \<comment> \<open>no more than the limit run, every check is in one place, and the results are those of the checks\<close>
  "scan_inv limit res n s \<longleftrightarrow>
     length (sc_running s) \<le> limit \<and>
     mset (sc_waiting s) + mset (sc_running s) + mset (map fst (sc_results s)) = mset [0..<n] \<and>
     (\<forall>(i, r) \<in> set (sc_results s). r = res i)"

lemma scan_inv_start: "scan_inv limit res n (scan_start n)"
  by (simp add: scan_inv_def scan_start_def)

lemma scan_inv_step:
  assumes "scan_step limit res s t" "scan_inv limit res n s"
  shows "scan_inv limit res n t"
  using assms(1)
proof (cases rule: scan_step.cases)
  case (acquire i w)
  then show ?thesis using assms(2) by (simp add: scan_inv_def)
next
  case (release i)
  then have "mset (sc_running s) = add_mset i (mset (remove1 i (sc_running s)))" by simp
  then show ?thesis
    using assms(2) release by (auto simp: scan_inv_def length_remove1 simp del: mset_remove1)
qed

definition scan_left :: "'r scan_state \<Rightarrow> nat" where
  "scan_left s = 2 * length (sc_waiting s) + length (sc_running s)"

lemma scan_left_step: "scan_step limit res s t \<Longrightarrow> scan_left s = Suc (scan_left t)"
proof (elim scan_stepE)
  fix i assume "i \<in> set (sc_running s)"
    and t: "t = s\<lparr>sc_running := remove1 i (sc_running s), sc_results := sc_results s @ [(i, res i)]\<rparr>"
  then have "0 < length (sc_running s)" by (cases "sc_running s") auto
  then show ?thesis using \<open>i \<in> set (sc_running s)\<close> t by (simp add: scan_left_def length_remove1)
qed (simp add: scan_left_def)

interpretation scan: countdown "scan_step limit res" "scan_inv limit res n" scan_left for limit res n
  by unfold_locales (auto intro: scan_inv_step scan_left_step)

lemma scan_run:
  assumes "(scan_step limit res ^^ k) (scan_start n) s"
  shows "length (sc_running s) \<le> limit \<and> k \<le> 2 * n \<and>
    (limit = 0 \<longrightarrow> s = scan_start n) \<and>
    (0 < limit \<and> (\<forall>t. \<not> scan_step limit res s t) \<longrightarrow> gather n s = map (\<lambda>i. Some (res i)) [0..<n])"
proof -
  have inv: "scan_inv limit res n s" by (rule scan.inv_run [OF assms scan_inv_start])
  have left: "scan_left s + k = 2 * n"
    using scan.left_run [OF assms scan_inv_start] by (simp add: scan_left_def scan_start_def)
  have "s = scan_start n" if "limit = 0"
  proof (cases k)
    case 0
    then show ?thesis using assms by simp
  next
    case (Suc j)
    then have "\<exists>t. scan_step 0 res (scan_start n) t" using assms that
      by (metis relpowp_Suc_D2)
    then show ?thesis by (auto simp: scan_start_def elim: scan_stepE)
  qed
  moreover have "gather n s = map (\<lambda>i. Some (res i)) [0..<n]"
    if pos: "0 < limit" and stuck: "\<forall>t. \<not> scan_step limit res s t"
  proof -
    have "sc_running s = []" using stuck scan_step.release [of _ s limit res] by (cases "sc_running s") auto
    moreover from this have "sc_waiting s = []"
      using stuck pos scan_step.acquire [of s limit _ _ res] by (cases "sc_waiting s") auto
    ultimately have all: "mset (map fst (sc_results s)) = mset [0..<n]" using inv by (simp add: scan_inv_def)
    have "map_of (sc_results s) i = Some (res i)" if "i < n" for i
    proof -
      have "i \<in> fst ` set (sc_results s)"
        using that mset_eq_setD [OF all] by auto
      then obtain r where "map_of (sc_results s) i = Some r" by (cases "map_of (sc_results s) i") (auto simp: map_of_eq_None_iff)
      then show ?thesis using inv map_of_SomeD by (fastforce simp: scan_inv_def)
    qed
    then show ?thesis by (simp add: gather_def)
  qed
  ultimately show ?thesis using inv left by (simp add: scan_inv_def)
qed

text \<open>
  C21.  However the checks of a scan interleave, no more than the configured number run at a time,
  after at most two steps for each host nothing is left to do, and then, if any may run at all,
  the results are gathered complete and in the order of the hosts; with a limit of zero not one
  check ever starts.
\<close>

theorem scan_gathers:
  assumes "(scan_step limit res ^^ k) (scan_start n) s"
  shows "length (sc_running s) \<le> limit \<and> k \<le> 2 * n \<and>
    (limit = 0 \<longrightarrow> s = scan_start n) \<and>
    (0 < limit \<and> (\<forall>t. \<not> scan_step limit res s t) \<longrightarrow> gather n s = map (\<lambda>i. Some (res i)) [0..<n])"
  by (rule scan_run [OF assms])

theorem scan_gathers_witness:
  "\<exists>s. (scan_step 1 (\<lambda>i. i) ^^ 2) (scan_start 1) s \<and> gather 1 s = [Some 0]"
proof -
  let ?s1 = "scan_start 1\<lparr>sc_waiting := [], sc_running := [0]\<rparr> :: nat scan_state"
  let ?s2 = "?s1\<lparr>sc_running := [], sc_results := [(0, 0)]\<rparr>"
  have "scan_step 1 (\<lambda>i. i) (scan_start 1) ?s1"
    using scan_step.acquire [of "scan_start 1" 1 0 "[]" "\<lambda>i. i"] by (simp add: scan_start_def)
  moreover have "scan_step 1 (\<lambda>i. i) ?s1 ?s2"
    using scan_step.release [of 0 ?s1 1 "\<lambda>i. i"] by (simp add: scan_start_def)
  ultimately have path: "(scan_step 1 (\<lambda>i. i) ^^ 2) (scan_start 1) ?s2"
    by (auto simp: numeral_2_eq_2 intro: relcomppI)
  have "\<forall>t. \<not> scan_step 1 (\<lambda>i. i) ?s2 t" by (auto simp: scan_start_def elim: scan_stepE)
  then show ?thesis using scan_gathers [OF path] path by auto
qed



section \<open>The hosts of an IPv4 subnet\<close>

lemma parse_octet_bound: "parse_octet s = Some n \<Longrightarrow> n < 256"
  by (auto simp: parse_octet_def Let_def split: if_splits)

lemma all_some_parse_bound:
  "all_some (map parse_octet xs) = Some ns \<Longrightarrow> length ns = length xs \<and> (\<forall>n \<in> set ns. n < 256)"
proof (induction xs arbitrary: ns)
  case (Cons x xs)
  then show ?case by (cases "parse_octet x") (auto dest: parse_octet_bound)
qed simp

lemma parse_ipv4_bound:
  assumes "parse_ipv4 s = Some n"
  shows "n < 2 ^ 32"
proof -
  obtain ns where ns: "all_some (map parse_octet (str_split ''.'' s)) = Some ns" "length (str_split ''.'' s) = 4"
    "n = be_value 256 ns"
    using assms by (auto simp: parse_ipv4_def Let_def split: if_splits)
  then have "length ns = 4" "\<forall>n \<in> set ns. n < 256" using all_some_parse_bound [OF ns(1)] by auto
  then obtain a b c d where "ns = [a, b, c, d]" "a < 256" "b < 256" "c < 256" "d < 256"
    by (auto simp: numeral_eq_Suc length_Suc_conv)
  then show ?thesis using ns(3) by (simp add: be_value_def)
qed

lemma make_net_v4_bound:
  assumes "n < 2 ^ 32"
  shows "in_base (make_net False n p) + net_size (make_net False n p) \<le> 2 ^ 32"
proof -
  define h where "h = 32 - p"
  have "(2 :: nat) ^ 32 = 2 ^ (32 - h) * 2 ^ h" by (simp add: h_def flip: power_add)
  moreover from this have "n div 2 ^ h < 2 ^ (32 - h)" using assms by (simp add: less_mult_imp_div_less)
  then have "(n div 2 ^ h + 1) * 2 ^ h \<le> 2 ^ (32 - h) * 2 ^ h" by (intro mult_le_mono1) simp
  ultimately show ?thesis by (simp add: make_net_def net_size_def Let_def h_def)
qed

lemma ip_network_v4_bound:
  assumes "ip_network s = Inr net" "\<not> in_v6 net"
  shows "in_base net + net_size net \<le> 2 ^ 32"
proof -
  have "\<exists>n p. parse_ipv4 (hd (str_split ''/'' s)) = Some n \<and> net = make_net False n p"
    using assms by (auto simp: ip_network_def Let_def make_net_def split: if_splits option.splits)
  then show ?thesis using parse_ipv4_bound make_net_v4_bound by blast
qed

text \<open>
  C34.  The hosts scanned in an IPv4 subnet are texts of different addresses of the subnet, all of
  them in a subnet of one or two addresses and otherwise all but the address of the network and
  the broadcast address.
\<close>

theorem host_list_v4:
  assumes "ip_network subnet = Inr net" "\<not> in_v6 net"
  shows "\<exists>hosts. get_host_list subnet = Inr hosts \<and> distinct hosts \<and>
    map parse_ipv4 hosts = map Some
      (if net_size net \<le> 2 then [in_base net ..< in_base net + net_size net]
       else [in_base net + 1 ..< in_base net + net_size net - 1])"
proof -
  let ?ns = "net_hosts net"
  have bound: "n < 2 ^ 32" if "n \<in> set ?ns" for n
    using that ip_network_v4_bound [OF assms] assms(2) by (auto simp: net_hosts_def Let_def split: if_splits)
  have parse: "map parse_ipv4 (map ipv4_str ?ns) = map Some ?ns"
    using bound parse_ipv4_str by simp
  have "distinct ?ns" by (simp add: net_hosts_def Let_def)
  then have "distinct (map ipv4_str ?ns)" using bound by (rule ipv4_text.show_distinct)
  moreover have "get_host_list subnet = Inr (map ipv4_str ?ns)"
    using assms by (simp add: get_host_list_def ip_str_def)
  ultimately show ?thesis
    using parse assms(2) by (simp add: net_hosts_def Let_def)
qed

theorem host_list_v4_witness:
  "\<exists>hosts. get_host_list ''0.0.0.8/29'' = Inr hosts \<and> distinct hosts \<and>
    map parse_ipv4 hosts = map Some [9 ..< 15]"
proof -
  have "ip_network ''0.0.0.8/29'' = Inr \<lparr>in_v6 = False, in_base = 8, in_prefix = 29\<rparr>" by code_simp
  moreover have "net_size \<lparr>in_v6 = False, in_base = 8, in_prefix = 29\<rparr> = 8" by (simp add: net_size_def)
  ultimately show ?thesis
    using host_list_v4 [of "''0.0.0.8/29''" "\<lparr>in_v6 = False, in_base = 8, in_prefix = 29\<rparr>"]
    by (simp del: upt_rec_numeral)
qed

section \<open>Rules for groups\<close>

lemma rx_in_any: "rx_in (RStar (RCls (\<lambda>_. True))) s"
proof (induction s)
  case (Cons c s)
  have "rx_in (RCls (\<lambda>_. True)) (c # [])" by (rule rx_in.cls) simp
  from rx_in.star1 [OF this Cons.IH] show ?case by simp
qed (rule rx_in.star0)

lemma rx_in_char: "rx_in (RSeq (RCls p) r) s \<longleftrightarrow> (\<exists>d t. s = d # t \<and> p d \<and> rx_in r t)"
proof
  assume "\<exists>d t. s = d # t \<and> p d \<and> rx_in r t"
  then obtain d t where "s = [d] @ t" "p d" "rx_in r t" by auto
  then show "rx_in (RSeq (RCls p) r) s" using rx_in.seq [OF rx_in.cls] by metis
qed (auto simp: rx_in_simps)

definition plain_pattern :: "string \<Rightarrow> bool" where
  "plain_pattern s \<longleftrightarrow> set s \<inter> {CHR ''*'', CHR ''?'', CHR ''[''} = {}"

lemma glob_rx_plain:
  "plain_pattern lit \<Longrightarrow>
   rx_in (glob_rx (length lit + n) (lit @ rest)) s \<longleftrightarrow>
     (\<exists>u v. s = u @ v \<and> str_lower u = str_lower lit \<and> rx_in (glob_rx n rest) v)"
proof (induction lit arbitrary: s)
  case Nil
  then show ?case by (auto simp: str_lower_def)
next
  case (Cons c lit)
  have plain: "plain_pattern lit" "c \<notin> {CHR ''*'', CHR ''?'', CHR ''[''}"
    using Cons.prems by (auto simp: plain_pattern_def)
  have "rx_in (glob_rx (length (c # lit) + n) ((c # lit) @ rest)) s \<longleftrightarrow>
      (\<exists>d t. s = d # t \<and> same_case c d \<and> rx_in (glob_rx (length lit + n) (lit @ rest)) t)"
    using plain(2) by (simp add: rx_in_char)
  also have "\<dots> \<longleftrightarrow> (\<exists>u v. s = u @ v \<and> str_lower u = str_lower (c # lit) \<and> rx_in (glob_rx n rest) v)"
    unfolding Cons.IH [OF plain(1)] same_case_def str_lower_def
    by (auto simp: Cons_eq_map_conv map_eq_Cons_conv) (metis append_Cons list.simps(9))+
  finally show ?case .
qed

lemma rule_search_contains:
  assumes "plain_pattern lit"
  shows "rule_search (''*'' @ lit @ ''*'') val \<longleftrightarrow> (\<exists>a u b. val = a @ u @ b \<and> str_lower u = str_lower lit)"
proof -
  have tail: "rx_in (glob_rx 2 ''*'') v" for v
    using rx_in_any [of v] by (auto simp: numeral_2_eq_2 rx_in_simps)
  have "fnmatch_translate (''*'' @ lit @ ''*'') =
      RSeq (RStar (RCls (\<lambda>_. True))) (glob_rx (length lit + 2) (lit @ ''*''))"
    by (simp add: fnmatch_translate_def)
  then have "rule_search (''*'' @ lit @ ''*'') val \<longleftrightarrow>
      (\<exists>a b c. val = a @ b @ c \<and> rx_in (glob_rx (length lit + 2) (lit @ ''*'')) c)"
    using rx_in_any by (auto simp: rule_search_def rx_match_in rx_in_simps)
  also have "\<dots> \<longleftrightarrow> (\<exists>a u b. val = a @ u @ b \<and> str_lower u = str_lower lit)"
    unfolding glob_rx_plain [OF assms] using tail by (metis append.assoc append_Nil)
  finally show ?thesis .
qed

text \<open>
  With the documented patterns that are a text between two stars, and when no earlier rule applies, a
  device is in the group of a rule exactly when its description contains the text in any case.
\<close>

theorem device_group_contains:
  assumes "plain_pattern lit" "\<forall>r \<in> set pre. rule_group val r = None"
    and "dict_get d ''patterns'' = Some (PStr (''*'' @ lit @ ''*''))" "dict_get d ''group'' = Some g"
  shows "find_device_group (val # vals) (PList (pre @ PDict d # post)) =
    Inr (if \<exists>a u b. val = a @ u @ b \<and> str_lower u = str_lower lit then g else first_group val post)"
proof -
  have "first_group val (pre @ rs) = first_group val rs" for rs
    using assms(2) by (induction pre) auto
  moreover have "rule_group val (PDict d) = (if rule_search (''*'' @ lit @ ''*'') val then Some g else None)"
    using assms(3,4) by (simp add: rule_group_def dict_get_or_def)
  ultimately show ?thesis
    unfolding rule_search_contains [OF assms(1), symmetric] by (simp add: find_device_group_def)
qed

theorem device_group_contains_witness:
  "find_device_group [''My LINUX box''] (PList [PDict [(''patterns'', PStr ''*linux*''), (''group'', PStr ''lin'')]]) =
     Inr (PStr ''lin'')"
proof -
  have "plain_pattern ''linux''" by (simp add: plain_pattern_def)
  moreover have "\<exists>a u b. ''My LINUX box'' = a @ u @ b \<and> str_lower u = str_lower ''linux''"
    by (rule exI [of _ "''My ''"], rule exI [of _ "''LINUX''"], rule exI [of _ "'' box''"]) code_simp
  ultimately show ?thesis
    using device_group_contains [of "''linux''" "[]" "''My LINUX box''"
        "[(''patterns'', PStr ''*linux*''), (''group'', PStr ''lin'')]" "PStr ''lin''" "[]" "[]"]
    by (simp add: dict_get_Cons)
qed

section \<open>Loading the configured discoveries\<close>

lemma discovery_record_name:
  assumes "DiscoveryRecord d = Inr rec" "dict_get d ''discovery_name'' = Some (PStr k)"
  shows "dict_get rec ''discovery_name'' = Some (PStr k)"
proof -
  obtain f fs where fs: "discovery_fields = f # fs" "fs_name f = ''discovery_name''"
    "fs_check f = (\<lambda>_ v. res_bind (Inr v) opt_str)" "''discovery_name'' \<notin> fs_name ` set fs"
    by (auto simp: discovery_fields_def Let_def)
  have "validate_fields fs d (dict_set ''discovery_name'' (PStr k) []) False = Inr rec"
    using assms(1) [unfolded DiscoveryRecord_def fs(1)] assms(2) fs(2,3) by (simp add: opt_str_def)
  from validate_fields_keeps [OF this fs(4)] show ?thesis by simp
qed

definition discovery_task_name :: "string \<Rightarrow> string" where
  "discovery_task_name key = ''sc4snmp;'' @ key @ '';discovery''"

lemma discovery_task_definition_name:
  "dict_get rec ''discovery_name'' = Some (PStr k) \<Longrightarrow>
     attr_str ''name'' (discovery_task_definition expiry rec) = discovery_task_name k"
  by (simp add: discovery_task_definition_def attr_str_def discovery_task_name_def)

definition discovery_enabled :: "bool \<Rightarrow> string \<times> pyval \<Rightarrow> bool" where
  \<comment> \<open>the subnet of a configured discovery may be scanned\<close>
  "discovery_enabled ipv6_enabled kv =
     (case snd kv of
        PDict d \<Rightarrow> ipv6_enabled \<or>
          res_bind (dict_item (dict_set ''discovery_name'' (PStr (fst kv)) d) ''network_address'') check_ipv6 = Inr False
      | _ \<Rightarrow> False)"

lemma load_discoveries_active:
  assumes "load_discoveries from_key expiry ipv6_enabled ds sent active = (cmds, Inr act)"
  shows "act = active @ map (discovery_task_name \<circ> fst) (filter (discovery_enabled ipv6_enabled) ds) \<and>
    (\<forall>n. TcDelete n \<notin> set cmds)"
  using assms
proof (induction ds arbitrary: sent active cmds)
  case (Cons kv ds)
  obtain key val where kv: "kv = (key, val)" by (cases kv)
  obtain d0 where val: "val = PDict d0" using Cons.prems kv by (cases val) auto
  let ?d = "dict_set ''discovery_name'' (PStr key) d0"
  obtain rec where rec: "DiscoveryRecord ?d = Inr rec"
    using Cons.prems kv val by (cases "DiscoveryRecord ?d") (auto simp: eff_bind_pure)
  obtain v6 where v6: "res_bind (dict_item ?d ''network_address'') check_ipv6 = Inr v6"
    using Cons.prems kv val rec by (cases "res_bind (dict_item ?d ''network_address'') check_ipv6") auto
  have name: "attr_str ''name'' (discovery_task_definition expiry rec) = discovery_task_name key"
    by (rule discovery_task_definition_name, rule discovery_record_name [OF rec]) simp
  show ?case
  proof (cases "\<not> v6 \<or> ipv6_enabled")
    case False
    then have "load_discoveries from_key expiry ipv6_enabled ds sent active = (cmds, Inr act)"
      using Cons.prems kv val rec v6 by simp
    moreover have "\<not> discovery_enabled ipv6_enabled kv"
      using False kv val v6 by (simp add: discovery_enabled_def)
    ultimately show ?thesis using Cons.IH [of sent active cmds] by simp
  next
    case True
    obtain ms where ms: "manage_task (from_key sent) (discovery_task_definition expiry rec) = Inr ms"
      using Cons.prems kv val rec v6 True
      by (cases "manage_task (from_key sent) (discovery_task_definition expiry rec)") auto
    obtain cs r where rest: "load_discoveries from_key expiry ipv6_enabled ds (sent @ ms) (active @ [discovery_task_name key]) = (cs, r)"
      by fastforce
    have "r = Inr act" "cmds = ms @ cs"
      using Cons.prems kv val rec v6 True ms name rest by auto
    moreover have "discovery_enabled ipv6_enabled kv" using True kv val v6 by (auto simp: discovery_enabled_def)
    ultimately show ?thesis
      using Cons.IH [of "sent @ ms" "active @ [discovery_task_name key]" cs] rest kv sink.manage_keeps [OF ms] by simp
  qed
qed simp

definition discovery_task_of :: "task_data list \<Rightarrow> string \<Rightarrow> bool" where
  \<comment> \<open>the scheduler has a discovery task of that name\<close>
  "discovery_task_of es n = (\<exists>e \<in> set es. attr_str ''task'' e = DISCOVERY_TASK \<and> attr_str ''name'' e = n)"

text \<open>
  When the configured discoveries are loaded without an error, first all discovery tasks are deleted
  if the expiry time changed, and at the end the discovery tasks that belong to no enabled discovery
  of the configuration; nothing else is deleted.
\<close>

lemma load_discovery_stages:
  assumes "load_discovery scan from_key expiry (Inr (PDict c)) = (cmds, Inr ())"
    and "dict_get_or c ''autodiscovery'' (PDict []) = PDict ds"
  obtains changed expired saved act es
  where "did_expiry_time_change (scan []) (from_key []) expiry [DISCOVERY_TASK] = Inr (changed, expired)"
    "load_discoveries from_key expiry (py_truthy (dict_get_or c ''ipv6Enabled'' (PBool False))) ds expired [] = (saved, Inr act)"
    "act = map (discovery_task_name \<circ> fst)
       (filter (discovery_enabled (py_truthy (dict_get_or c ''ipv6Enabled'' (PBool False)))) ds)"
    "\<forall>n. TcDelete n \<notin> set saved"
    "get_all_schedules (scan (expired @ saved)) (from_key (expired @ saved)) = Inr es"
    "cmds = expired @ saved @ map (\<lambda>e. TcDelete (attr_str ''name'' e))
       (filter (\<lambda>e. attr_str ''task'' e = DISCOVERY_TASK \<and> attr_str ''name'' e \<notin> set act) es)"
proof -
  let ?v6 = "py_truthy (dict_get_or c ''ipv6Enabled'' (PBool False))"
  have get: "py_get (PDict c) k v = Inr (dict_get_or c k v)" for k v by (simp add: py_get_def)
  obtain changed expired where d: "did_expiry_time_change (scan []) (from_key []) expiry [DISCOVERY_TASK] = Inr (changed, expired)"
    using assms by (cases "did_expiry_time_change (scan []) (from_key []) expiry [DISCOVERY_TASK]")
      (auto simp: load_discovery_def get)
  obtain saved r where load: "load_discoveries from_key expiry ?v6 ds expired [] = (saved, r)" by fastforce
  obtain act where r: "r = Inr act"
    using assms d load by (cases r) (auto simp: load_discovery_def get)
  obtain es where es: "get_all_schedules (scan (expired @ saved)) (from_key (expired @ saved)) = Inr es"
    using assms d load r by (cases "get_all_schedules (scan (expired @ saved)) (from_key (expired @ saved))")
      (auto simp: load_discovery_def get delete_unused_discovery_tasks_def)
  have "cmds = expired @ saved @ map (\<lambda>e. TcDelete (attr_str ''name'' e))
       (filter (\<lambda>e. attr_str ''task'' e = DISCOVERY_TASK \<and> attr_str ''name'' e \<notin> set act) es)"
    using assms d load r es by (auto simp: load_discovery_def get delete_unused_discovery_tasks_def)
  then show thesis
    using that d load [unfolded r] es load_discoveries_active [OF load [unfolded r]] by auto
qed

text \<open>
  A discovery of the configuration that is not valid ends the loading: the discoveries after
  it get no task and no stale task is deleted.
\<close>

theorem invalid_discovery_stops_loading:
  assumes "DiscoveryRecord (dict_set ''discovery_name'' (PStr key) d) = Inl e"
  shows "load_discoveries from_key expiry v6 (before @ (key, PDict d) # after) sent active =
    load_discoveries from_key expiry v6 (before @ [(key, PDict d)]) sent active \<and>
    \<not> is_ok (snd (load_discoveries from_key expiry v6 (before @ (key, PDict d) # after) sent active))"
proof (induction before arbitrary: sent active)
  case Nil
  then show ?case using assms by simp
next
  case (Cons kv before)
  obtain k v where kv: "kv = (k, v)" by (cases kv)
  show ?case
  proof (cases v)
    case (PDict d0)
    let ?d = "dict_set ''discovery_name'' (PStr k) d0"
    show ?thesis
    proof (cases "\<exists>rec b. DiscoveryRecord ?d = Inr rec \<and>
        res_bind (dict_item ?d ''network_address'') check_ipv6 = Inr b")
      case False
      then show ?thesis using kv PDict
        by (cases "DiscoveryRecord ?d"; cases "res_bind (dict_item ?d ''network_address'') check_ipv6")
          auto
    next
      case True
      then obtain rec b where step: "DiscoveryRecord ?d = Inr rec"
        "res_bind (dict_item ?d ''network_address'') check_ipv6 = Inr b" by blast
      have same: "load_discoveries from_key expiry v6 (before @ (key, PDict d) # after) snt act =
          load_discoveries from_key expiry v6 (before @ [(key, PDict d)]) snt act"
        and fails: "\<not> is_ok (snd (load_discoveries from_key expiry v6 (before @ [(key, PDict d)]) snt act))" for snt act
        using Cons.IH [of snt act] by metis+
      show ?thesis using kv PDict step same fails
        by (cases "manage_task (from_key sent) (discovery_task_definition expiry rec)"; cases v6) (simp_all add: Let_def)
    qed
  qed (auto simp: kv)
qed

definition v6_discovery :: pyval where
  "v6_discovery = PDict [(''network_address'', PStr ''::/127'')]"

theorem invalid_discovery_stops_loading_witness:
  "\<not> is_ok (snd (load_discoveries (\<lambda>_ _. Inl KeyError) 60 False
     ([] @ (''d'', PDict [(''network_address'', PStr ''x'')]) # [(''e'', v6_discovery)]) [] []))"
proof -
  have "DiscoveryRecord (dict_set ''discovery_name'' (PStr ''d'') [(''network_address'', PStr ''x'')]) = Inl ValidationError"
    by code_simp
  from invalid_discovery_stops_loading [OF this] show ?thesis by blast
qed

section \<open>A discovery as a whole\<close>

text \<open>
  A discovery whose configuration leaves out the version finds no device: the documented default of
  2c is not set, and no check gets credentials.
\<close>

theorem versionless_discovery_finds_nothing:
  assumes "DiscoveryRecord given = Inr rec" "dict_get given ''version'' = None"
  shows "discover_snmp_devices env get hosts rec = []"
proof -
  have "dict_get_or (dict_set ''address'' (PStr ip) rec) ''version'' PNone = PNone" for ip
    using discovery_defaults_not_validated(2) [OF assms] by (simp add: rec_field_def dict_get_or_def)
  then have "scan_ip env get rec ip = None" for ip
    by (cases "setup_transport_target env (dict_set ''address'' (PStr ip) rec)")
      (simp_all add: scan_ip_def check_snmp_device_def get_discovery_auth_def get_auth_def rec_field_def Let_def)
  then show ?thesis by (induction hosts) (simp_all add: discover_snmp_devices_def)
qed


definition sample_discovery :: kwargs where
  "sample_discovery = [(''discovery_name'', PStr ''d''), (''network_address'', PStr ''0.0.0.8/32''),
     (''version'', PStr ''2c''), (''port'', PInt 161), (''community'', PStr ''public''), (''secret'', PNone),
     (''device_rules'', PNone), (''delete_already_discovered'', PBool True)]"

definition sample_get :: "string get_fn" where
  "sample_get = (\<lambda>_ _. Inr \<lparr>gr_indication = False, gr_status = 0, gr_values = [''box'']\<rparr>)"


end
