(* ===== verification/DiscoverySchedule.thy ===== *)
theory DiscoverySchedule
  imports Discovery Schedule
begin

text \<open>
  What the loading of the discoveries (\<^verbatim>\<open>discovery/loader.py\<close>) makes of the scheduler's store: its
  commands are carried out one after the other, and every answer of the scheduler is what the store
  holds after the commands sent before it.
\<close>

section \<open>The readers\<close>

definition reads_all :: "schedule \<Rightarrow> scan_fn \<Rightarrow> from_key_fn \<Rightarrow> bool" where
  \<comment> \<open>the scan for all tasks of the program finds the keys of the entries with its prefix\<close>
  "reads_all st scan from_key \<longleftrightarrow> reads_entries st from_key \<and>
     set (scan ''redbeat:sc4snmp;*'') = store_key ` {n \<in> set (dict_keys st). str_startswith n ''sc4snmp;''}"

definition discovery_entry :: "schedule \<Rightarrow> string \<Rightarrow> bool" where
  \<comment> \<open>the store has a discovery task of that name among the tasks of the program\<close>
  "discovery_entry st n \<longleftrightarrow> str_startswith n ''sc4snmp;'' \<and>
     (\<exists>e. dict_get st n = Some e \<and> attr_str ''task'' e = DISCOVERY_TASK)"

lemma all_schedules:
  assumes "reads_all st scan from_key" "get_all_schedules scan from_key = Inr es"
  shows "set es = {e. \<exists>n. dict_get st n = Some e \<and> str_startswith n ''sc4snmp;''}"
proof -
  have keys: "set (scan ''redbeat:sc4snmp;*'') = store_key ` {n \<in> set (dict_keys st). str_startswith n ''sc4snmp;''}"
    and entry: "from_key (store_key n) = (case dict_get st n of None \<Rightarrow> Inl KeyError | Some e \<Rightarrow> Inr e)" for n
    using assms(1) by (auto simp: reads_all_def reads_entries_def)
  have ok: "is_ok (from_key k)" if "k \<in> set (scan ''redbeat:sc4snmp;*'')" for k
    using that dict_get_None_iff [of st] unfolding keys by (auto simp: entry split: option.split)
  have "set es = {e. \<exists>k \<in> set (scan ''redbeat:sc4snmp;*''). from_key k = Inr e}"
    by (rule load_schedules_present [OF assms(2) [unfolded get_all_schedules_def]]) (erule ok)
  then show ?thesis
    unfolding keys by (auto simp: entry dict_get_key split: option.splits)
qed

lemma discovery_names:
  assumes "reads_all st scan from_key" "get_all_schedules scan from_key = Inr es"
  shows "{attr_str ''name'' e | e. e \<in> set es \<and> attr_str ''task'' e = DISCOVERY_TASK} = {n. discovery_entry st n}"
proof -
  have "attr_str ''name'' e = n" if "dict_get st n = Some e" for n e
    using assms(1) that by (auto simp: reads_all_def reads_entries_def)
  then show ?thesis unfolding all_schedules [OF assms] discovery_entry_def by auto
qed

section \<open>The tasks of the discoveries\<close>

lemma discovery_task_complete:
  assumes "dict_get rec ''discovery_name'' = Some (PStr k)"
  shows "complete_task (discovery_task_name k) (discovery_task_definition expiry rec)"
  using assms
  by (simp add: complete_task_def discovery_task_definition_def discovery_task_name_def REQUIRED_NEW_TASK_FIELDS_def
      dict_get_or_def generate_task_definition_def schedule_of_def dict_get_Cons)

lemma inj_discovery_task_name: "inj discovery_task_name"
  by (auto simp: inj_def discovery_task_name_def)

definition configured_record :: "string \<Rightarrow> pyval \<Rightarrow> kwargs result" where
  \<comment> \<open>the record of a discovery in the configuration\<close>
  "configured_record key val =
     (case val of PDict d \<Rightarrow> DiscoveryRecord (dict_set ''discovery_name'' (PStr key) d) | _ \<Rightarrow> Inl TypeError)"

definition task_after :: "task_data \<Rightarrow> task_data option \<Rightarrow> task_data" where
  \<comment> \<open>what managing a task makes of the entry that there was\<close>
  "task_after td old =
     (case old of
        None \<Rightarrow> td
      | Some e \<Rightarrow> fold (\<lambda>arg e. case dict_get td arg of None \<Rightarrow> e | Some v \<Rightarrow> dict_set arg v e) args_list e)"

lemma saved_task_after:
  "reads_entries st from_key \<Longrightarrow> complete_task n td \<Longrightarrow> saved_task from_key td = task_after td (dict_get st n)"
  by (auto simp: saved_task_def task_after_def reads_entries_def complete_task_def attr_str_def split: option.split)

lemma load_discoveries_saves:
  assumes "\<And>h. reads_entries (fold (exec_task dt) h st) (from_key h)"
    and "load_discoveries from_key expiry v6 ds sent active = (cmds, Inr act)" "distinct (map fst ds)"
  shows "(\<forall>k v. (k, v) \<in> set ds \<longrightarrow> discovery_enabled v6 (k, v) \<longrightarrow>
      (\<exists>rec. configured_record k v = Inr rec \<and>
         dict_get (fold (exec_task dt) (sent @ cmds) st) (discovery_task_name k) =
           Some (task_after (discovery_task_definition expiry rec)
             (dict_get (fold (exec_task dt) sent st) (discovery_task_name k))))) \<and>
    (\<forall>m. m \<notin> discovery_task_name ` fst ` set (filter (discovery_enabled v6) ds) \<longrightarrow>
      dict_get (fold (exec_task dt) (sent @ cmds) st) m = dict_get (fold (exec_task dt) sent st) m)"
  using assms(2,3)
proof (induction ds arbitrary: sent active cmds)
  case (Cons kv ds)
  let ?S = "\<lambda>h. fold (exec_task dt) h st"
  obtain key val where kv: "kv = (key, val)" by (cases kv)
  obtain d0 where val: "val = PDict d0" using Cons.prems kv by (cases val) auto
  let ?d = "dict_set ''discovery_name'' (PStr key) d0"
  obtain rec where rec: "DiscoveryRecord ?d = Inr rec"
    using Cons.prems kv val by (cases "DiscoveryRecord ?d") (auto simp: eff_bind_pure)
  obtain b where b: "res_bind (dict_item ?d ''network_address'') check_ipv6 = Inr b"
    using Cons.prems kv val rec by (cases "res_bind (dict_item ?d ''network_address'') check_ipv6") auto
  have new: "key \<notin> fst ` set ds" and distinct: "distinct (map fst ds)" using Cons.prems(2) kv by auto
  show ?case
  proof (cases "\<not> b \<or> v6")
    case False
    then have "load_discoveries from_key expiry v6 ds sent active = (cmds, Inr act)"
      using Cons.prems kv val rec b by simp
    moreover have "\<not> discovery_enabled v6 kv" using False kv val b by (simp add: discovery_enabled_def)
    ultimately show ?thesis using Cons.IH [OF _ distinct] kv by auto
  next
    case True
    let ?td = "discovery_task_definition expiry rec" and ?n = "discovery_task_name key"
    obtain ms where ms: "manage_task (from_key sent) ?td = Inr ms"
      using Cons.prems kv val rec b True by (cases "manage_task (from_key sent) ?td") auto
    obtain cs r where rest: "load_discoveries from_key expiry v6 ds (sent @ ms) (active @ [attr_str ''name'' ?td]) = (cs, r)"
      by fastforce
    have r: "r = Inr act" "cmds = ms @ cs" using Cons.prems kv val rec b True ms rest by auto
    have name: "dict_get rec ''discovery_name'' = Some (PStr key)" by (rule discovery_record_name [OF rec]) simp
    note complete = discovery_task_complete [OF name, of expiry]
    have S: "?S (sent @ ms) = dict_set ?n (task_after ?td (dict_get (?S sent) ?n)) (?S sent)"
      using exec_saves [OF manage_task_saves_entry [OF ms complete assms(1)]]
        saved_task_after [OF assms(1) complete] by simp
    note IH = Cons.IH [OF rest [unfolded r] distinct]
    have en: "discovery_enabled v6 (key, val)" using True val b by (auto simp: discovery_enabled_def)
    have cr: "configured_record key val = Inr rec" using rec val by (simp add: configured_record_def)
    have own: "?n \<notin> discovery_task_name ` fst ` set (filter (discovery_enabled v6) ds)"
      using new inj_discovery_task_name by (auto dest: injD)
    have other: "discovery_task_name k \<noteq> ?n" if "(k, v) \<in> set ds" for k v
      using new that inj_discovery_task_name by (force dest: injD)
    have "dict_get (?S (sent @ cmds)) ?n = Some (task_after ?td (dict_get (?S sent) ?n))"
      using conjunct2 [OF IH, rule_format, OF own] S r(2) by simp
    then show ?thesis
      using IH S r(2) cr en other kv by (auto simp: dict_get_set)
  qed
qed simp

lemma task_after_get:
  "dict_get (task_after td old) k =
     (case old of
        None \<Rightarrow> dict_get td k
      | Some e \<Rightarrow> if k \<in> set args_list \<and> dict_has td k then dict_get td k else dict_get e k)"
  by (simp add: task_after_def fold_args_get split: option.split)

lemma discovery_task_fields:
  "dict_get (discovery_task_definition expiry rec) ''kwargs'' = Some (PDict rec)"
  "dict_get (discovery_task_definition expiry rec) ''schedule'' = Some (schedule_of (rec_field rec ''frequency''))"
  "dict_get (discovery_task_definition expiry rec) ''options'' =
     Some (PDict [(''queue'', PStr ''discovery''), (''expires'', PInt expiry)])"
  "attr_str ''task'' (discovery_task_definition expiry rec) = ''splunk_connect_for_snmp.discovery.tasks.discovery''"
  by (simp_all add: discovery_task_definition_def generate_task_definition_def rec_field_def dict_get_Cons attr_str_def
      DISCOVERY_TASK_def)

lemma discovery_task_after:
  fixes expiry :: int and rec :: kwargs and old :: "task_data option"
  defines "e \<equiv> task_after (discovery_task_definition expiry rec) old"
  shows "dict_get e ''kwargs'' = Some (PDict rec)"
    "dict_get e ''schedule'' = Some (schedule_of (rec_field rec ''frequency''))"
    "expires_of e = (case old of None \<Rightarrow> PInt expiry | Some e0 \<Rightarrow> expires_of e0)"
    "attr_str ''task'' e = (case old of None \<Rightarrow> ''splunk_connect_for_snmp.discovery.tasks.discovery''
       | Some e0 \<Rightarrow> attr_str ''task'' e0)"
  using discovery_task_fields(4) [of expiry rec]
  by (auto simp: e_def task_after_get discovery_task_fields args_list_def dict_has_def expires_of_def attr_str_def
      dict_get_or_def dict_get_Cons split: option.split)

section \<open>The store after the loading\<close>

lemma expired_store:
  assumes "reads_all st scan from_key"
    and "did_expiry_time_change scan from_key expiry [DISCOVERY_TASK] = Inr (changed, expired)"
  shows "dict_get (fold (exec_task dt) expired st) n =
      (if changed \<and> discovery_entry st n then None else dict_get st n) \<and>
    (\<not> changed \<longrightarrow> (\<forall>e. discovery_entry st n \<longrightarrow> dict_get st n = Some e \<longrightarrow>
       expires_of e = PNone \<or> py_eq (expires_of e) (PInt expiry)))"
proof -
  obtain es where es: "get_all_schedules scan from_key = Inr es"
    using assms(2) by (auto simp: did_expiry_time_change_def get_chain_of_task_expiries_def res_splits)
  from did_expiry_time_change_effect [OF es, of expiry "[DISCOVERY_TASK]"]
  have c: "changed = (\<exists>e \<in> set es. attr_str ''task'' e = DISCOVERY_TASK \<and> expires_of e \<noteq> PNone \<and>
        \<not> py_eq (expires_of e) (PInt expiry))"
    and x: "set expired = (if changed then {TcDelete (attr_str ''name'' e) | e. e \<in> set es \<and> attr_str ''task'' e = DISCOVERY_TASK} else {})"
    unfolding assms(2) by auto
  have names: "set expired = (if changed then TcDelete ` {n. discovery_entry st n} else {})"
    unfolding x discovery_names [OF assms(1) es, symmetric] by auto
  then have "set expired \<subseteq> range TcDelete" by auto
  then have "dict_get (fold (exec_task dt) expired st) n =
      (if changed \<and> discovery_entry st n then None else dict_get st n)"
    by (auto simp: exec_deletions names)
  moreover have "expires_of e = PNone \<or> py_eq (expires_of e) (PInt expiry)"
    if "\<not> changed" "discovery_entry st n" "dict_get st n = Some e" for e
  proof -
    have "e \<in> set es" "attr_str ''task'' e = DISCOVERY_TASK"
      using that(2,3) unfolding all_schedules [OF assms(1) es] by (auto simp: discovery_entry_def)
    then show ?thesis using that(1) c by blast
  qed
  ultimately show ?thesis by blast
qed

lemma unused_store:
  assumes "reads_all st scan from_key" "get_all_schedules scan from_key = Inr es"
  shows "dict_get (fold (exec_task dt) (map (\<lambda>e. TcDelete (attr_str ''name'' e))
      (filter (\<lambda>e. attr_str ''task'' e = DISCOVERY_TASK \<and> attr_str ''name'' e \<notin> set act) es)) st) n =
    (if discovery_entry st n \<and> n \<notin> set act then None else dict_get st n)"
proof -
  have "TcDelete n \<in> (\<lambda>e. TcDelete (attr_str ''name'' e)) ` {e \<in> set es. attr_str ''task'' e = DISCOVERY_TASK \<and> attr_str ''name'' e \<notin> set act}
      \<longleftrightarrow> n \<in> {attr_str ''name'' e | e. e \<in> set es \<and> attr_str ''task'' e = DISCOVERY_TASK} \<and> n \<notin> set act" by auto
  then show ?thesis
    by (subst exec_deletions) (auto simp: discovery_names [OF assms])
qed

definition discovery_store :: "schedule \<Rightarrow> bool" where
  \<comment> \<open>whatever is stored under the name of a discovery is a discovery task with an expiry time\<close>
  "discovery_store st \<longleftrightarrow>
     (\<forall>k e. dict_get st (discovery_task_name k) = Some e \<longrightarrow>
        attr_str ''task'' e = ''splunk_connect_for_snmp.discovery.tasks.discovery'' \<and> expires_of e \<noteq> PNone)"

text \<open>
  C33.  Loading the discoveries brings the scheduler in line with the configuration, when what it
  holds under the names of discoveries are tasks that were stored by the program.  Every discovery
  that may be scanned has its task, with its validated record, its period and the configured expiry
  time; every other discovery task among the entries with the prefix of the program is gone, and
  every other entry is as it was.
\<close>

theorem discovery_synchronizes_schedule:
  assumes "load_discovery scan from_key expiry (Inr (PDict c)) = (cmds, Inr ())"
    and "dict_get_or c ''autodiscovery'' (PDict []) = PDict ds" "dict_wf ds"
    and "\<And>h. reads_all (fold (exec_task dt) h st) (scan h) (from_key h)" "discovery_store st"
  defines "v6 \<equiv> py_truthy (dict_get_or c ''ipv6Enabled'' (PBool False))"
  shows "(\<forall>k v. (k, v) \<in> set ds \<longrightarrow> discovery_enabled v6 (k, v) \<longrightarrow>
      (\<exists>rec e. configured_record k v = Inr rec \<and>
         dict_get (fold (exec_task dt) cmds st) (discovery_task_name k) = Some e \<and>
         dict_get e ''kwargs'' = Some (PDict rec) \<and>
         dict_get e ''schedule'' = Some (PTuple [PStr ''schedule'', rec_field rec ''frequency'']) \<and>
         attr_str ''task'' e = ''splunk_connect_for_snmp.discovery.tasks.discovery'' \<and>
         py_eq (expires_of e) (PInt expiry))) \<and>
    (\<forall>n. n \<notin> discovery_task_name ` fst ` set (filter (discovery_enabled v6) ds) \<longrightarrow>
      dict_get (fold (exec_task dt) cmds st) n = (if discovery_entry st n then None else dict_get st n))"
proof -
  let ?S = "\<lambda>h. fold (exec_task dt) h st"
  obtain changed expired saved act es where l:
    "did_expiry_time_change (scan []) (from_key []) expiry [DISCOVERY_TASK] = Inr (changed, expired)"
    "load_discoveries from_key expiry v6 ds expired [] = (saved, Inr act)"
    "act = map (discovery_task_name \<circ> fst) (filter (discovery_enabled v6) ds)"
    "get_all_schedules (scan (expired @ saved)) (from_key (expired @ saved)) = Inr es"
    "cmds = expired @ saved @ map (\<lambda>e. TcDelete (attr_str ''name'' e))
       (filter (\<lambda>e. attr_str ''task'' e = DISCOVERY_TASK \<and> attr_str ''name'' e \<notin> set act) es)"
    unfolding v6_def by (rule load_discovery_stages [OF assms(1,2)])
  have reads: "reads_entries (?S h) (from_key h)" for h using assms(4) by (simp add: reads_all_def)
  have st: "reads_all st (scan []) (from_key [])" using assms(4) [of "[]"] by simp
  have act: "set act = discovery_task_name ` fst ` set (filter (discovery_enabled v6) ds)"
    by (auto simp: l(3))
  have final: "dict_get (?S cmds) n =
      (if discovery_entry (?S (expired @ saved)) n \<and> n \<notin> set act then None else dict_get (?S (expired @ saved)) n)" for n
    using unused_store [OF assms(4) l(4), of dt act n] by (simp add: l(5))
  note tasks = load_discoveries_saves [OF reads l(2) assms(3) [unfolded dict_wf_def]]
  have "\<exists>rec e. configured_record k v = Inr rec \<and> dict_get (?S cmds) (discovery_task_name k) = Some e \<and>
       dict_get e ''kwargs'' = Some (PDict rec) \<and>
       dict_get e ''schedule'' = Some (PTuple [PStr ''schedule'', rec_field rec ''frequency'']) \<and>
       attr_str ''task'' e = ''splunk_connect_for_snmp.discovery.tasks.discovery'' \<and>
       py_eq (expires_of e) (PInt expiry)"
    if kv: "(k, v) \<in> set ds" "discovery_enabled v6 (k, v)" for k v
  proof -
    let ?n = "discovery_task_name k" and ?old = "dict_get (?S expired) (discovery_task_name k)"
    obtain rec where rec: "configured_record k v = Inr rec"
      "dict_get (?S (expired @ saved)) ?n = Some (task_after (discovery_task_definition expiry rec) ?old)"
      using conjunct1 [OF tasks] kv by blast
    let ?e = "task_after (discovery_task_definition expiry rec) ?old"
    have "?n \<in> set act" using kv unfolding act by force
    then have e: "dict_get (?S cmds) ?n = Some ?e" using final rec(2) by simp
    have "attr_str ''task'' ?e = ''splunk_connect_for_snmp.discovery.tasks.discovery'' \<and> py_eq (expires_of ?e) (PInt expiry)"
    proof (cases ?old)
      case None
      then show ?thesis by (simp add: discovery_task_after(3,4))
    next
      case (Some e0)
      have old: "\<not> (changed \<and> discovery_entry st ?n)" "dict_get st ?n = Some e0"
        using Some conjunct1 [OF expired_store [OF st l(1), of dt ?n]] by (auto split: if_splits)
      have task: "attr_str ''task'' e0 = ''splunk_connect_for_snmp.discovery.tasks.discovery''" "expires_of e0 \<noteq> PNone"
        using assms(5) old(2) unfolding discovery_store_def by blast+
      have "str_startswith ?n ''sc4snmp;''" by (simp add: discovery_task_name_def str_startswith_def)
      then have entry: "discovery_entry st ?n" using old(2) task(1) by (simp add: discovery_entry_def DISCOVERY_TASK_def)
      then have "\<not> changed" using old(1) by simp
      then have "py_eq (expires_of e0) (PInt expiry)"
        using conjunct2 [OF expired_store [OF st l(1), of dt ?n]] entry old(2) task(2) by blast
      then show ?thesis using Some task(1) by (simp add: discovery_task_after(3,4))
    qed
    then show ?thesis using rec(1) e discovery_task_after(1,2) unfolding schedule_of_def by blast
  qed
  moreover have "dict_get (?S cmds) n = (if discovery_entry st n then None else dict_get st n)"
    if "n \<notin> discovery_task_name ` fst ` set (filter (discovery_enabled v6) ds)" for n
  proof -
    have same: "dict_get (?S (expired @ saved)) n = dict_get (?S expired) n" using conjunct2 [OF tasks] that by blast
    have gone: "dict_get (?S expired) n = (if changed \<and> discovery_entry st n then None else dict_get st n)"
      by (rule conjunct1 [OF expired_store [OF st l(1)]])
    have n: "n \<notin> set act" using that unfolding act .
    have entry: "discovery_entry (?S (expired @ saved)) n \<longleftrightarrow> \<not> changed \<and> discovery_entry st n"
      unfolding discovery_entry_def same gone by (auto split: if_splits)
    show ?thesis unfolding final entry same gone using n by simp
  qed
  ultimately show ?thesis by blast
qed

definition stale_schedule :: schedule where
  \<comment> \<open>a task of a discovery that is not configured any more, and one of another program\<close>
  "stale_schedule =
     [(discovery_task_name ''old'', sample_entry (discovery_task_name ''old'') DISCOVERY_TASK 60),
      (''other'', sample_entry ''other'' DISCOVERY_TASK 60)]"

definition history :: "tcmd list \<Rightarrow> schedule" where
  "history h = fold (exec_task (\<lambda>_ st. st)) h stale_schedule"

definition history_scan :: "tcmd list \<Rightarrow> scan_fn" where
  "history_scan h _ = map store_key (filter (\<lambda>n. str_startswith n ''sc4snmp;'') (dict_keys (history h)))"

definition all_v4 :: pyval where
  "all_v4 = PDict [(''network_address'', PStr ''0.0.0.0/0'')]"

definition sample_discoveries :: "(string, pyval) dict" where
  "sample_discoveries = [(''autodiscovery'', PDict [(''d'', all_v4)])]"

lemma history_reads: "reads_all (history h) (history_scan h) (store_entry (history h))"
proof -
  have "attr_str ''name'' e = n" if "dict_get stale_schedule n = Some e" for n e
    using that by (auto simp: stale_schedule_def dict_get_Cons sample_entry_def attr_str_def split: if_splits)
  from store_entry_reads [OF this] have "reads_entries (history h) (store_entry (history h))"
    unfolding history_def .
  then show ?thesis by (simp add: reads_all_def history_scan_def)
qed

text \<open>Readers of a store raise nothing that is not caught.\<close>

lemma store_entry_ok:
  "is_ok (manage_task (store_entry st) td)" "is_ok (get_all_schedules scan (store_entry st))"
  "is_ok (delete_unused_discovery_tasks scan (store_entry st) act)"
  "is_ok (did_expiry_time_change scan (store_entry st) expiry ts)"
proof -
  show "is_ok (manage_task (store_entry st) td)"
    by (auto simp: manage_task_def Let_def store_entry_def split: option.split)
  have "is_ok (load_schedules scan (store_entry st) p)" for p
  proof -
    have "is_ok (res_list (\<lambda>key. case store_entry st key of Inr e \<Rightarrow> Inr (Some e) | Inl KeyError \<Rightarrow> Inr None
        | Inl ValueError \<Rightarrow> Inr None | Inl e \<Rightarrow> Inl e) ks)" for ks
      by (induction ks) (auto simp: store_entry_def res_splits split: option.split)
    then show ?thesis by (auto simp: load_schedules_def res_splits)
  qed
  then obtain es where es: "get_all_schedules scan (store_entry st) = Inr es"
    by (auto simp: get_all_schedules_def is_ok_iff)
  then show "is_ok (get_all_schedules scan (store_entry st))" by simp
  show "is_ok (delete_unused_discovery_tasks scan (store_entry st) act)"
    using es by (simp add: delete_unused_discovery_tasks_def)
  show "is_ok (did_expiry_time_change scan (store_entry st) expiry ts)"
    using did_expiry_time_change_effect [OF es, of expiry ts] by auto
qed

lemma all_v4_network: "ip_network ''0.0.0.0/0'' = Inr (make_net False 0 0)"
proof -
  have "str_split ''/'' ''0.0.0.0/0'' = [''0.0.0.0'', ''0'']" "parse_ipv4 ''0.0.0.0'' = Some 0"
    "parse_prefix 32 ''0'' = Some 0" by code_simp+
  then show ?thesis by (simp add: ip_network_def)
qed

lemma all_v4_record:
  "\<exists>rec. DiscoveryRecord [(''network_address'', PStr ''0.0.0.0/0''), (''discovery_name'', PStr ''d'')] = Inr rec"
  by (simp add: DiscoveryRecord_def discovery_fields_def dict_get_Cons network_address_validator_def all_v4_network)

lemma all_v4_check: "check_ipv6 (PStr ''0.0.0.0/0'') = Inr False"
  by (simp add: check_ipv6_def all_v4_network make_net_def)

lemma sample_discoveries_load:
  "is_ok (snd (load_discovery history_scan (\<lambda>h. store_entry (history h)) 60 (Inr (PDict sample_discoveries))))"
proof -
  let ?d = "[(''network_address'', PStr ''0.0.0.0/0''), (''discovery_name'', PStr ''d'')]"
  let ?reader = "\<lambda>h. store_entry (history h)"
  obtain rec where r: "DiscoveryRecord ?d = Inr rec" using all_v4_record by blast
  have d: "dict_set ''discovery_name'' (PStr ''d'') [(''network_address'', PStr ''0.0.0.0/0'')] = ?d"
    by (simp add: dict_set_def)
  obtain changed expired where e: "did_expiry_time_change (history_scan []) (?reader []) 60 [DISCOVERY_TASK] = Inr (changed, expired)"
    using store_entry_ok(4) by (metis is_ok_iff prod.exhaust)
  obtain cmds where m: "manage_task (?reader expired) (discovery_task_definition 60 rec) = Inr cmds"
    using store_entry_ok(1) by (metis is_ok_iff)
  have l: "\<exists>cs act. load_discoveries ?reader 60 False [(''d'', all_v4)] expired [] = (cs, Inr act)"
    using r m by (simp add: all_v4_def d dict_item_def dict_get_Cons all_v4_check Let_def)
  then obtain cs act where l: "load_discoveries ?reader 60 False [(''d'', all_v4)] expired [] = (cs, Inr act)" by blast
  obtain del where "delete_unused_discovery_tasks (history_scan (expired @ cs)) (?reader (expired @ cs)) act = Inr del"
    using store_entry_ok(3) by (metis is_ok_iff)
  then show ?thesis
    using e l by (simp add: load_discovery_def sample_discoveries_def py_get_def dict_get_or_def dict_get_Cons py_truthy_def)
qed

theorem discovery_synchronizes_schedule_witness:
  "\<exists>cmds. load_discovery history_scan (\<lambda>h. store_entry (history h)) 60 (Inr (PDict sample_discoveries)) = (cmds, Inr ()) \<and>
     dict_get (history cmds) (discovery_task_name ''d'') \<noteq> None \<and>
     dict_get (history cmds) (discovery_task_name ''old'') = None \<and> dict_get (history cmds) ''other'' \<noteq> None"
proof -
  obtain cmds where run: "load_discovery history_scan (\<lambda>h. store_entry (history h)) 60 (Inr (PDict sample_discoveries)) =
      (cmds, Inr ())"
    using sample_discoveries_load by (metis (full_types) is_ok_iff old.unit.exhaust prod.collapse)
  have ds: "dict_get_or sample_discoveries ''autodiscovery'' (PDict []) = PDict [(''d'', all_v4)]"
    "\<not> py_truthy (dict_get_or sample_discoveries ''ipv6Enabled'' (PBool False))" "dict_wf [(''d'', all_v4)]"
    by (simp_all add: sample_discoveries_def dict_get_or_def dict_get_Cons py_truthy_def dict_wf_def)
  have en: "discovery_enabled False (''d'', all_v4)"
    by (simp add: discovery_enabled_def all_v4_def dict_item_def dict_get_Cons all_v4_check)
  have names: "discovery_task_name ''old'' \<noteq> discovery_task_name ''d''" "''other'' \<noteq> discovery_task_name ''d''"
    "discovery_entry stale_schedule (discovery_task_name ''old'')" "\<not> discovery_entry stale_schedule ''other''"
    "dict_get stale_schedule ''other'' \<noteq> None"
    by (simp_all add: discovery_task_name_def discovery_entry_def stale_schedule_def sample_entry_def attr_str_def
        dict_get_Cons str_startswith_def)
  have stale: "discovery_store stale_schedule"
    by (auto simp: discovery_store_def stale_schedule_def sample_entry_def dict_get_Cons attr_str_def DISCOVERY_TASK_def
        expires_of_def dict_get_or_def discovery_task_name_def split: if_splits)
  from discovery_synchronizes_schedule [OF run ds(1,3), where dt = "\<lambda>_ st. st" and st = stale_schedule,
      folded history_def, OF history_reads stale]
  show ?thesis using run ds(2) en names by (auto simp: image_iff)
qed

theorem versionless_discovery_finds_nothing_witness:
  "\<exists>rec. DiscoveryRecord [(''network_address'', PStr ''0.0.0.0/0''), (''discovery_name'', PStr ''d'')] = Inr rec \<and>
     (\<forall>hosts. discover_snmp_devices env get hosts rec = [])"
proof -
  obtain rec where r: "DiscoveryRecord [(''network_address'', PStr ''0.0.0.0/0''), (''discovery_name'', PStr ''d'')] = Inr rec"
    using all_v4_record by blast
  then show ?thesis using versionless_discovery_finds_nothing [OF r] by (auto simp: dict_get_Cons)
qed

end
