(* ===== verification/Pipeline.thy ===== *)
theory Pipeline
  imports Enrich TrapTask Sender
begin

text \<open>
  The chains of tasks that take what a poll or a trap found to Splunk: a poll is enriched,
  prepared and sent (\<^verbatim>\<open>common/task_generator.py\<close>), a trap is decoded, prepared and sent
  (\<^verbatim>\<open>traps.py\<close>).  Celery hands the result of each task to the next one, and a task that raises
  ends the chain.
\<close>

section \<open>The chains\<close>

type_synonym send_fn = "prepared \<Rightarrow> post list \<times> pyexn option"

definition prepare_and_send ::
  "sender_conf \<Rightarrow> doc \<Rightarrow> send_fn \<Rightarrow> doc \<Rightarrow> post list \<times> pyexn option" where
  "prepare_and_send conf translations send work =
     (case prepare_task conf translations work of Inl e \<Rightarrow> ([], Some e) | Inr data \<Rightarrow> send data)"

definition poll_chain ::
  "enrich_env \<Rightarrow> sender_conf \<Rightarrow> doc \<Rightarrow> send_fn \<Rightarrow> doc \<Rightarrow> enrich_cmd list \<times> post list \<times> pyexn option" where
  \<comment> \<open>what follows a poll; the last argument is the result of the poll\<close>
  "poll_chain een conf translations send work =
     (case enrich een work of
        (cmds, Inl e) \<Rightarrow> (cmds, [], Some e)
      | (cmds, Inr work') \<Rightarrow> (cmds, prepare_and_send conf translations send work'))"

definition trap_chain ::
  "trap_env \<Rightarrow> sender_conf \<Rightarrow> doc \<Rightarrow> send_fn \<Rightarrow> trap_work \<Rightarrow> poller \<Rightarrow> (post list \<times> pyexn option) \<times> poller" where
  "trap_chain env conf translations send work p =
     (case trap env work p of
        (Inl e, p') \<Rightarrow> (([], Some e), p')
      | (Inr result, p') \<Rightarrow> (prepare_and_send conf translations send result, p'))"

section \<open>Sending delivers every line\<close>

lemma do_send_complete:
  assumes "do_send answer n data url = (posts, None)" "0 < n"
  shows "concat (map snd posts) = data \<and> (\<forall>p \<in> set posts. fst p = url)"
proof -
  obtain bs where bs: "py_slices data n = Inr bs" "concat bs = data" using py_slices_pos [OF assms(2), of data] by blast
  then have "posts = map (Pair url) bs"
    using assms(1) by (auto simp: do_send_def post_batches_outcome Let_def split: if_splits)
  then show ?thesis using bs(2) by (simp add: comp_def)
qed

definition lines_to :: "string \<Rightarrow> post list \<Rightarrow> string list" where
  "lines_to url posts = concat (map snd (filter (\<lambda>p. fst p = url) posts))"

lemma lines_to_append: "lines_to url (ps @ qs) = lines_to url ps @ lines_to url qs"
  by (simp add: lines_to_def)

lemma lines_to_do_send:
  assumes "do_send answer n data url = (posts, None)" "0 < n"
  shows "lines_to u posts = (if u = url then data else [])"
proof -
  have "filter (\<lambda>p. fst p = u) posts = (if u = url then posts else [])"
    using do_send_complete [OF assms] by (auto simp: filter_id_conv filter_empty_conv)
  then show ?thesis using do_send_complete [OF assms] by (simp add: lines_to_def)
qed

lemma then_posts_complete:
  "then_posts m k = (posts, None) \<longleftrightarrow> (\<exists>ps qs. m = (ps, None) \<and> k () = (qs, None) \<and> posts = ps @ qs)"
  by (cases m; cases "snd m"; cases "k ()") (auto simp: then_posts_def)

lemma send_task_complete:
  assumes "send_task answer n (Some token) hec otel data = (posts, None)" "0 < n" "token \<noteq> []" "otel \<noteq> Some hec"
  shows "lines_to hec posts = pp_events data @ pp_metrics data"
proof -
  have nil: "lines_to hec [] = []" by (simp add: lines_to_def)
  show ?thesis
    using assms
    by (auto simp: send_task_def Let_def then_posts_complete lines_to_append lines_to_do_send nil split: if_splits)
qed

section \<open>Folding over the entries of a dictionary\<close>

lemma dict_set_mem: "(k, x) \<in> set (dict_set j y d) \<Longrightarrow> (k, x) = (j, y) \<or> (k, x) \<in> set d"
  unfolding dict_set_def by (induction d) (auto split: if_splits)

lemma res_fold_other:
  assumes step: "\<And>p t t'. f p t = Inr t' \<Longrightarrow> \<exists>x. ok p x \<and> t' = dict_set (h p) x t"
  shows "res_fold f items s0 = Inr s \<Longrightarrow> \<forall>p \<in> set items. h p \<noteq> e \<Longrightarrow> dict_get s e = dict_get s0 e"
proof (induction items arbitrary: s0)
  case (Cons p items)
  then obtain t where t: "f p s0 = Inr t" "res_fold f items t = Inr s" by (auto simp: res_splits)
  obtain x where "t = dict_set (h p) x s0" using step [OF t(1)] by blast
  moreover have "h p \<noteq> e" using Cons.prems(2) by simp
  ultimately show ?case using Cons.IH [OF t(2)] Cons.prems(2) by auto
qed simp

lemma res_fold_entry:
  \<comment> \<open>an entry whose name no other entry gets\<close>
  assumes step: "\<And>p t t'. f p t = Inr t' \<Longrightarrow> \<exists>x. ok p x \<and> t' = dict_set (h p) x t"
  shows "res_fold f items s0 = Inr s \<Longrightarrow> q \<in> set items \<Longrightarrow> \<forall>p \<in> set items. h p = h q \<longrightarrow> p = q \<Longrightarrow>
    \<exists>x. ok q x \<and> dict_get s (h q) = Some x"
proof (induction items arbitrary: s0)
  case (Cons p items)
  then obtain t where t: "f p s0 = Inr t" "res_fold f items t = Inr s" by (auto simp: res_splits)
  obtain x where x: "ok p x" "t = dict_set (h p) x s0" using step [OF t(1)] by blast
  show ?case
  proof (cases "q \<in> set items")
    case True
    then show ?thesis using Cons.IH [OF t(2)] Cons.prems(3) by simp
  next
    case False
    then have q: "q = p" "\<forall>r \<in> set items. h r \<noteq> h q" using Cons.prems(2,3) by auto
    from res_fold_other [OF step t(2) q(2)] show ?thesis using x q(1) by simp
  qed
qed simp

lemma res_fold_origin:
  assumes step: "\<And>p t t'. f p t = Inr t' \<Longrightarrow> \<exists>x. ok p x \<and> t' = dict_set (h p) x t"
  shows "res_fold f items s0 = Inr s \<Longrightarrow> (k, x) \<in> set s \<Longrightarrow>
    (k, x) \<in> set s0 \<or> (\<exists>p \<in> set items. k = h p \<and> ok p x)"
proof (induction items arbitrary: s0)
  case (Cons p items)
  then obtain t where t: "f p s0 = Inr t" "res_fold f items t = Inr s" by (auto simp: res_splits)
  obtain y where y: "ok p y" "t = dict_set (h p) y s0" using step [OF t(1)] by blast
  from Cons.IH [OF t(2) Cons.prems(2)] show ?case
    using y dict_set_mem [of k x "h p" y s0] by auto
qed simp

lemma res_fold_set_nonempty:
  assumes step: "\<And>p t t'. f p t = Inr t' \<Longrightarrow> \<exists>x. ok p x \<and> t' = dict_set (h p) x t"
  shows "res_fold f items s0 = Inr s \<Longrightarrow> items \<noteq> [] \<Longrightarrow> s \<noteq> []"
proof -
  assume fold: "res_fold f items s0 = Inr s" and "items \<noteq> []"
  have keep: "res_fold f items s0 = Inr s \<Longrightarrow> s0 \<noteq> [] \<Longrightarrow> s \<noteq> []" for items s0
  proof (induction items arbitrary: s0)
    case (Cons p items)
    then obtain t where t: "f p s0 = Inr t" "res_fold f items t = Inr s" by (auto simp: res_splits)
    obtain x where "t = dict_set (h p) x s0" using step [OF t(1)] by blast
    then have "t \<noteq> []" by (cases s0) (auto simp: dict_set_def)
    then show ?case using Cons.IH [OF t(2)] by blast
  qed simp
  obtain p rest where "items = p # rest" using \<open>items \<noteq> []\<close> by (cases items) auto
  then obtain t where t: "f p s0 = Inr t" "res_fold f rest t = Inr s" using fold by (auto simp: res_splits)
  obtain x where "t = dict_set (h p) x s0" using step [OF t(1)] by blast
  then have "t \<noteq> []" by (cases s0) (auto simp: dict_set_def)
  then show ?thesis using keep [OF t(2)] by blast
qed

section \<open>The fields and metrics of a group\<close>

definition same_contents :: "pyval \<Rightarrow> pyval \<Rightarrow> bool" where
  \<comment> \<open>of a field, whatever its name\<close>
  "same_contents x y \<longleftrightarrow>
     x = y \<or> (\<exists>d d'. x = PDict d \<and> y = PDict d' \<and> (\<forall>k. k \<noteq> ''name'' \<longrightarrow> dict_get d' k = dict_get d k))"

lemma same_contents_refl [simp]: "same_contents x x"
  by (simp add: same_contents_def)

lemma same_contents_name [simp]: "same_contents (PDict d) (PDict (dict_set ''name'' v d))"
  by (auto simp: same_contents_def)

lemma same_contents_trans: "same_contents x y \<Longrightarrow> same_contents y z \<Longrightarrow> same_contents x z"
  by (auto simp: same_contents_def)

definition same_fields :: "doc \<Rightarrow> doc \<Rightarrow> bool" where
  "same_fields flds flds' \<longleftrightarrow> list_all2 (\<lambda>p q. fst q = fst p \<and> same_contents (snd p) (snd q)) flds flds'"

lemma same_fields_trans: "same_fields a b \<Longrightarrow> same_fields b c \<Longrightarrow> same_fields a c"
  unfolding same_fields_def by (rule list_all2_trans) (auto intro: same_contents_trans)

definition keeps_group :: "pyval \<Rightarrow> pyval \<Rightarrow> bool" where
  \<comment> \<open>what enriching leaves of a group: its metrics, and the fields of a group without any\<close>
  "keeps_group v v' \<longleftrightarrow>
     v = v' \<or>
     (\<exists>g g'. v = PDict g \<and> v' = PDict g' \<and> dict_get g' ''metrics'' = dict_get g ''metrics'' \<and>
        (\<not> py_truthy (dict_get_or g ''metrics'' (PDict [])) \<longrightarrow>
           (\<exists>flds flds'. dict_get g ''fields'' = Some (PDict flds) \<and> dict_get g' ''fields'' = Some (PDict flds') \<and>
              same_fields flds flds')))"

lemma keeps_group_trans:
  assumes "keeps_group u v" "keeps_group v w"
  shows "keeps_group u w"
proof (cases "u = v \<or> v = w")
  case True
  then show ?thesis using assms by auto
next
  case False
  then obtain a b where ab: "u = PDict a" "v = PDict b" "dict_get b ''metrics'' = dict_get a ''metrics''"
    using assms(1) unfolding keeps_group_def by blast
  obtain c where c: "w = PDict c" "dict_get c ''metrics'' = dict_get b ''metrics''"
    using assms(2) False ab(2) unfolding keeps_group_def by blast
  note abc = ab(1,2) c(1) ab(3) c(2)
  have or: "dict_get_or b ''metrics'' x = dict_get_or a ''metrics'' x" for x using abc(4) by (simp add: dict_get_or_def)
  show ?thesis
  proof (cases "py_truthy (dict_get_or a ''metrics'' (PDict []))")
    case True
    then show ?thesis using abc by (simp add: keeps_group_def)
  next
    case plain: False
    obtain fa fb where ab: "dict_get a ''fields'' = Some (PDict fa)" "dict_get b ''fields'' = Some (PDict fb)" "same_fields fa fb"
      using assms(1) False abc(1,2) plain by (auto simp: keeps_group_def)
    obtain fc where bc: "dict_get c ''fields'' = Some (PDict fc)" "same_fields fb fc"
      using assms(2) False abc(2,3) plain ab(2) by (auto simp: keeps_group_def or)
    show ?thesis using abc ab bc same_fields_trans [OF ab(3) bc(2)] by (simp add: keeps_group_def)
  qed
qed

definition keeps_groups :: "doc \<Rightarrow> doc \<Rightarrow> bool" where
  "keeps_groups res res' \<longleftrightarrow> list_all2 (\<lambda>p q. fst q = fst p \<and> keeps_group (snd p) (snd q)) res res'"

lemma keeps_groups_refl [simp]: "keeps_groups res res"
  by (simp add: keeps_groups_def list_all2_refl keeps_group_def)

lemma keeps_groups_trans: "keeps_groups a b \<Longrightarrow> keeps_groups b c \<Longrightarrow> keeps_groups a c"
  unfolding keeps_groups_def by (rule list_all2_trans) (auto intro: keeps_group_trans)

lemma keeps_groups_set:
  "dict_get res k = Some v \<Longrightarrow> keeps_group v v' \<Longrightarrow> keeps_groups res (dict_set k v' res)"
proof (induction res)
  case (Cons p res)
  then show ?case
    by (cases p) (auto simp: dict_set_def dict_get_def keeps_groups_def list_all2_refl keeps_group_def split: if_splits)
qed simp

lemma set_attribute_updates_fields:
  "set_attribute_updates h current flds (out, a) = ((out', b), None) \<Longrightarrow> \<exists>new. out' = out @ new \<and> same_fields flds new"
proof (induction flds arbitrary: out a)
  case Nil
  then show ?case by (simp add: same_fields_def)
next
  case (Cons f flds)
  obtain s where s: "set_attribute_update h current f (out, a) = Inr s"
      "set_attribute_updates h current flds s = ((out', b), None)"
    using Cons.prems by (auto split: sum.splits)
  obtain k d c where f: "f = (k, PDict d)" "s = (out @ [(k, PDict (dict_set ''name'' (PStr k) d))], c)"
    using s(1) by (cases f) (auto simp: set_attribute_update_def Let_def res_splits split: pyval.splits)
  from Cons.IH [OF s(2) [unfolded f(2)]] obtain new where
    "out' = (out @ [(k, PDict (dict_set ''name'' (PStr k) d))]) @ new" "same_fields flds new" by blast
  then show ?case
    by (intro exI [of _ "(k, PDict (dict_set ''name'' (PStr k) d)) # new"]) (simp add: f(1) same_fields_def)
qed

lemma add_persisted_metrics:
  assumes "add_persisted x obj = Inr obj'"
  shows "dict_get obj' ''metrics'' = dict_get obj ''metrics''"
  using assms unfolding add_persisted_def res_bind_Inr
  by (elim exE conjE) (auto split: pyval.splits if_splits)

lemma enrich_from_db_keeps:
  assumes "enrich_metric_with_fields_from_db obj stored = Inr obj'"
  shows "keeps_group (PDict obj) (PDict obj')"
proof (cases "py_truthy (dict_get_or obj ''metrics'' (PDict []))")
  case False
  then show ?thesis using assms by (simp add: enrich_metric_with_fields_from_db_def keeps_group_def)
next
  case True
  then obtain items where "res_fold add_persisted items obj = Inr obj'"
    using assms by (auto simp: enrich_metric_with_fields_from_db_def res_splits)
  then have "dict_get obj' ''metrics'' = dict_get obj ''metrics''"
    by (induction rule: res_fold_induct) (auto dest: add_persisted_metrics)
  then show ?thesis using True by (simp add: keeps_group_def)
qed

lemma add_back_keeps:
  assumes "add_back current res = Inr res'"
  shows "keeps_groups res res'"
proof (cases "current = None \<or> current = Some []")
  case True
  then show ?thesis using assms by (auto simp: add_back_def)
next
  case False
  then obtain c where c: "current = Some c" "c \<noteq> []" by auto
  obtain s where s: "(case dict_get res s of
      None \<Rightarrow> Inr res
    | Some (PDict snmp_object) \<Rightarrow>
        res_map (\<lambda>o'. dict_set s (PDict o') res)
          (enrich_metric_with_fields_from_db snmp_object (dict_get_or c ''fields'' (PDict [])))
    | Some _ \<Rightarrow> Inl AttributeError) = Inr res'"
    using assms unfolding add_back_def c(1) by (simp add: c(2) res_splits) blast
  show ?thesis
  proof (cases "dict_get res s")
    case (Some g)
    then obtain obj obj' where o: "g = PDict obj" "res' = dict_set s (PDict obj') res"
        "enrich_metric_with_fields_from_db obj (dict_get_or c ''fields'' (PDict [])) = Inr obj'"
      using s by (cases g) (auto simp: res_splits)
    show ?thesis unfolding o(2) by (rule keeps_groups_set [OF Some [unfolded o(1)] enrich_from_db_keeps [OF o(3)]])
  qed (use s in simp)
qed

lemma enrich_group_keeps:
  assumes "enrich_group env k (res, bulk) = (cmds, Inr (res', bulk'))"
  shows "keeps_groups res res'"
proof -
  obtain g flds where g: "dict_get res k = Some (PDict g)" "dict_get g ''fields'' = Some (PDict flds)"
    and fl: "res_bind (dict_item res k) (\<lambda>g. res_bind (py_item g ''fields'') (\<lambda>fv. res_map (\<lambda>flds. (g, flds)) (py_items fv)))
      = Inr (PDict g, flds)"
    using assms by (auto simp: enrich_group_def dict_item_def py_item_def py_items_def res_splits
        split: sum.splits option.splits pyval.splits)
  define current where "current = (if en_any_attributes env then en_attributes env (key_hash k) else None)"
  obtain fields' a where upd: "set_attribute_updates (key_hash k) current flds ([], no_updates) = ((fields', a), None)"
    and stored: "add_back current (dict_set k (PDict (dict_set ''fields'' (PDict fields') g)) res) = Inr res'"
    using assms fl unfolding enrich_group_def current_def [symmetric]
    by (auto simp: Let_def res_splits current_def split: prod.splits option.splits)
  have "same_fields flds fields'" using set_attribute_updates_fields [OF upd] by simp
  then have "keeps_group (PDict g) (PDict (dict_set ''fields'' (PDict fields') g))"
    using g(2) by (simp add: keeps_group_def)
  from keeps_groups_set [OF g(1) this] add_back_keeps [OF stored] show ?thesis by (rule keeps_groups_trans)
qed

lemma enrich_groups_keep:
  "enrich_groups env ks (res, bulk) = (cmds, Inr (res', bulk')) \<Longrightarrow> keeps_groups res res'"
proof (induction ks arbitrary: res bulk cmds)
  case (Cons k ks)
  then obtain cs s where one: "enrich_group env k (res, bulk) = (cs, Inr s)"
    by (auto simp: eff_bind_def split: prod.splits sum.splits)
  obtain res1 bulk1 where s: "s = (res1, bulk1)" by fastforce
  obtain cs' where "enrich_groups env ks (res1, bulk1) = (cs', Inr (res', bulk'))"
    using Cons.prems one s by (cases "enrich_groups env ks (res1, bulk1)") auto
  from keeps_groups_trans [OF enrich_group_keeps [OF one [unfolded s]] Cons.IH [OF this]] show ?case .
qed simp

lemma enrich_keeps_groups:
  assumes "enrich env work = (cmds, Inr work')" "dict_get work ''result'' = Some (PDict groups)"
  shows "\<exists>groups'. dict_get work' ''result'' = Some (PDict groups') \<and> keeps_groups groups groups' \<and>
    (\<forall>k. k \<noteq> ''result'' \<longrightarrow> dict_get work' k = dict_get work k)"
proof -
  obtain address where "res_bind (dict_item work ''address'') (\<lambda>av. res_bind (py_str av) (\<lambda>address.
      res_bind (dict_item work ''result'') (\<lambda>rv. res_map (\<lambda>res. (address, res)) (py_items rv)))) = Inr (address, groups)"
    using assms by (auto simp: enrich_def res_splits dict_item_def py_items_def split: sum.splits)
  then obtain res' bulk where "\<exists>cs. enrich_groups env (dict_keys groups) (groups, []) = (cs, Inr (res', bulk))"
    "work' = dict_set ''result'' (PDict res') work"
    using assms(1) by (auto simp: enrich_def eff_bind_def split: prod.splits sum.splits)
  then show ?thesis using enrich_groups_keep by auto
qed

section \<open>The lines of a result\<close>

definition translated :: "doc \<Rightarrow> string \<Rightarrow> string" where
  \<comment> \<open>the name that the custom translations give a field or metric: the part after the first dot is replaced\<close>
  "translated tr name =
     (case str_cut ''.'' name of
        None \<Rightarrow> name
      | Some (mib, symbol) \<Rightarrow>
          (case dict_get tr mib of
             Some (PDict names) \<Rightarrow>
               (case dict_get names symbol of
                  Some v \<Rightarrow> if py_truthy v
                            then (case py_str v of Inr t \<Rightarrow> mib @ ''.'' @ t | Inl _ \<Rightarrow> name) else name
                | None \<Rightarrow> name)
           | _ \<Rightarrow> name))"

definition exported :: "sender_conf \<Rightarrow> doc \<Rightarrow> string \<Rightarrow> string" where
  \<comment> \<open>the name of a metric in Splunk\<close>
  "exported conf tr name =
     ''metric_name:sc4snmp.'' @
       map (\<lambda>c. if c = CHR ''-'' \<and> sd_hyphen conf then CHR ''_'' else c) (translated tr name)"

definition line_header :: "doc \<Rightarrow> string \<Rightarrow> string \<Rightarrow> doc \<Rightarrow> bool" where
  "line_header work sourcetype index line \<longleftrightarrow>
     dict_get line ''time'' = dict_get work ''time'' \<and> dict_get line ''host'' = dict_get work ''address'' \<and>
     dict_get line ''source'' = Some (PStr ''sc4snmp'') \<and>
     dict_get line ''sourcetype'' = Some (PStr sourcetype) \<and> dict_get line ''index'' = Some (PStr index)"

definition sole :: "(string \<Rightarrow> string) \<Rightarrow> doc \<Rightarrow> string \<times> pyval \<Rightarrow> bool" where
  \<comment> \<open>the only entry that gets its name\<close>
  "sole name items q \<longleftrightarrow> filter (\<lambda>p. name (fst p) = name (fst q)) items = [q]"

lemma soleD: "sole name items q \<Longrightarrow> q \<in> set items \<and> (\<forall>p \<in> set items. name (fst p) = name (fst q) \<longrightarrow> p = q)"
  unfolding sole_def by (drule arg_cong [of _ _ set]) auto

definition metric_line :: "sender_conf \<Rightarrow> doc \<Rightarrow> doc \<Rightarrow> doc \<Rightarrow> string \<Rightarrow> bool" where
  \<comment> \<open>the line has every metric, unless another one of the group gets the same name\<close>
  "metric_line conf tr work ms s \<longleftrightarrow>
     (\<exists>line fs. s = sd_dumps conf (PDict line) \<and> line_header work (sd_metric_type conf) (sd_metric_index conf) line \<and>
        dict_get line ''event'' = Some (PStr ''metric'') \<and> dict_get line ''fields'' = Some (PDict fs) \<and>
        (\<forall>q. sole (exported conf tr) ms q \<longrightarrow>
           (\<exists>x. item_value (snd q) = Inr x \<and> dict_get fs (exported conf tr (fst q)) = Some x)))"

definition event_line :: "sender_conf \<Rightarrow> doc \<Rightarrow> doc \<Rightarrow> doc \<Rightarrow> string \<Rightarrow> bool" where
  \<comment> \<open>the line has every field, likewise\<close>
  "event_line conf tr work flds s \<longleftrightarrow>
     (\<exists>line fs. s = sd_dumps conf (PDict line) \<and> line_header work (sd_event_type conf) (sd_event_index conf) line \<and>
        dict_get line ''event'' = Some (PStr (sd_dumps conf (PDict fs))) \<and>
        (\<forall>q. sole (translated tr) flds q \<longrightarrow>
           (\<exists>x. same_contents (snd q) x \<and> dict_get fs (translated tr (fst q)) = Some x)))"

definition group_line :: "sender_conf \<Rightarrow> doc \<Rightarrow> doc \<Rightarrow> pyval \<Rightarrow> string + string \<Rightarrow> bool" where
  \<comment> \<open>a group with metrics gives a metric (right), one without an event (left)\<close>
  "group_line conf tr work v l \<longleftrightarrow>
     (\<exists>g ms. v = PDict g \<and> dict_get g ''metrics'' = Some (PDict ms) \<and>
        (if ms \<noteq> [] then \<exists>s. l = Inr s \<and> metric_line conf tr work ms s
         else \<exists>s. l = Inl s \<and> (\<forall>flds. dict_get g ''fields'' = Some (PDict flds) \<longrightarrow> event_line conf tr work flds s)))"

lemma str_replace_char: "str_replace [a] [b] s = map (\<lambda>c. if c = a then b else c) s"
proof (induction s rule: length_induct)
  case (1 s)
  show ?case
  proof (cases "a \<in> set s")
    case False
    then show ?thesis by (auto simp: str_replace_def str_split_char_none intro: map_idI [symmetric])
  next
    case True
    then obtain x y where s: "s = x @ a # y" "a \<notin> set x" by (metis split_list_first)
    have "length y < length s" by (simp add: s(1))
    then have "str_join [b] (str_split [a] y) = map (\<lambda>c. if c = a then b else c) y"
      using 1 unfolding str_replace_def by blast
    moreover have "str_join [b] (x # str_split [a] y) = x @ b # str_join [b] (str_split [a] y)"
      by (cases "str_split [a] y") simp_all
    moreover have "map (\<lambda>c. if c = a then b else c) x = x" using s(2) by (auto intro: map_idI)
    ultimately show ?thesis by (simp add: str_replace_def s str_split_char_app)
  qed
qed

lemma hyphens_map: "hyphens r s = map (\<lambda>c. if c = CHR ''-'' \<and> r then CHR ''_'' else c) s"
  by (auto simp: hyphens_def str_replace_char)

lemma exported_hyphens: "''metric_name:sc4snmp.'' @ hyphens (sd_hyphen conf) (translated tr n) = exported conf tr n"
  by (simp add: hyphens_map exported_def)

lemma translated_none: "translated [] n = n"
  by (simp add: translated_def split: option.splits)

lemma translate_field_step:
  assumes "translate_field tr is_fields p t = Inr t'"
  shows "\<exists>x. (same_contents (snd p) x \<and> (\<not> is_fields \<longrightarrow> x = snd p)) \<and> t' = dict_set (translated tr (fst p)) x t"
proof -
  obtain n v where p: "p = (n, v)" by fastforce
  show ?thesis
  proof (cases "str_cut ''.'' n")
    case None
    then show ?thesis
      using assms unfolding p by (intro exI [of _ v]) (simp add: translate_field_def translated_def)
  next
    case (Some ms)
    obtain mib sym where ms: "ms = (mib, sym)" by fastforce
    obtain names where names: "dict_get_or tr mib (PDict []) = PDict names"
      using assms unfolding p by (auto simp: translate_field_def Some ms py_get_def res_splits split: pyval.splits)
    have empty: "dict_get tr mib = None \<Longrightarrow> names = []" using names by (simp add: dict_get_or_def)
    have mib: "dict_get tr mib = None \<or> dict_get tr mib = Some (PDict names)"
      using names by (auto simp: dict_get_or_def split: option.splits)
    show ?thesis
    proof (cases "\<exists>c. dict_get names sym = Some c \<and> py_truthy c")
      case False
      then have n: "translated tr n = n"
        using mib empty by (auto simp: translated_def Some ms split: option.split)
      have "\<not> py_truthy (dict_get_or names sym PNone)" using False by (auto simp: dict_get_or_def py_truthy_def split: option.split)
      then show ?thesis
        using assms n unfolding p
        by (intro exI [of _ v]) (simp add: translate_field_def Some ms names py_get_def)
    next
      case True
      then obtain c where c: "dict_get names sym = Some c" "py_truthy c" by blast
      then have sym: "dict_get_or names sym PNone = c" by (simp add: dict_get_or_def)
      have "dict_get tr mib = Some (PDict names)" using mib empty c by auto
      moreover obtain t1 where t1: "py_str c = Inr t1"
        and run: "res_map (\<lambda>v'. dict_set (mib @ ''.'' @ t1) v' t)
                  (if is_fields
                   then (case v of PDict d \<Rightarrow> Inr (PDict (dict_set ''name'' (PStr (mib @ ''.'' @ t1)) d))
                         | _ \<Rightarrow> Inl TypeError)
                   else Inr v) = Inr t'"
        using assms c sym unfolding p
        by (auto simp: translate_field_def Some ms names py_get_def res_bind_Inr)
      ultimately have n: "translated tr n = mib @ ''.'' @ t1" using c by (simp add: translated_def Some ms)
      show ?thesis
      proof (cases is_fields)
        case True
        then obtain d where "v = PDict d" "t' = dict_set (mib @ ''.'' @ t1) (PDict (dict_set ''name'' (PStr (mib @ ''.'' @ t1)) d)) t"
          using run by (cases v) simp_all
        then show ?thesis using True unfolding p n [symmetric] fst_conv snd_conv
          by (intro exI [of _ "PDict (dict_set ''name'' (PStr (translated tr n)) d)"]) simp
      next
        case False
        then show ?thesis using run unfolding p by (intro exI [of _ v]) (simp add: n)
      qed
    qed
  qed
qed

definition renamed :: "doc \<Rightarrow> bool \<Rightarrow> doc \<Rightarrow> doc \<Rightarrow> bool" where
  \<comment> \<open>what translating leaves of the entries of a collection\<close>
  "renamed tr is_fields items new \<longleftrightarrow>
     (new = [] \<longleftrightarrow> items = []) \<and>
     (\<forall>q \<in> set items. (\<forall>p \<in> set items. translated tr (fst p) = translated tr (fst q) \<longrightarrow> p = q) \<longrightarrow>
        (\<exists>x. same_contents (snd q) x \<and> (\<not> is_fields \<longrightarrow> x = snd q) \<and> dict_get new (translated tr (fst q)) = Some x)) \<and>
     (\<forall>r \<in> set new. \<exists>p \<in> set items. fst r = translated tr (fst p) \<and> (\<not> is_fields \<longrightarrow> snd r = snd p))"

lemma renamed_fold:
  assumes "res_fold (translate_field tr is_fields) items [] = Inr new"
  shows "renamed tr is_fields items new"
proof -
  note step = translate_field_step [of tr is_fields]
  have "new \<noteq> []" if n: "items \<noteq> []"
    by (rule res_fold_set_nonempty [OF _ assms n]) (rule step)
  then have "new = [] \<longleftrightarrow> items = []" using assms by auto
  moreover have "\<exists>x. same_contents (snd q) x \<and> (\<not> is_fields \<longrightarrow> x = snd q) \<and> dict_get new (translated tr (fst q)) = Some x"
    if "q \<in> set items" "\<forall>p \<in> set items. translated tr (fst p) = translated tr (fst q) \<longrightarrow> p = q" for q
  proof -
    have "\<exists>x. (same_contents (snd q) x \<and> (\<not> is_fields \<longrightarrow> x = snd q)) \<and> dict_get new (translated tr (fst q)) = Some x"
      by (rule res_fold_entry [where h = "\<lambda>p. translated tr (fst p)", OF _ assms that]) (rule step)
    then show ?thesis by blast
  qed
  moreover have "\<exists>p \<in> set items. fst r = translated tr (fst p) \<and> (\<not> is_fields \<longrightarrow> snd r = snd p)" if "r \<in> set new" for r
  proof -
    have "(fst r, snd r) \<in> set new" using that by simp
    from res_fold_origin [where h = "\<lambda>p. translated tr (fst p)" and
        ok = "\<lambda>p x. same_contents (snd p) x \<and> (\<not> is_fields \<longrightarrow> x = snd p)", OF step assms this]
    show ?thesis by auto
  qed
  ultimately show ?thesis unfolding renamed_def by blast
qed

lemma renamed_none: "renamed [] is_fields items items"
proof -
  have "dict_get items (fst q) = Some (snd q)" if "q \<in> set items" "\<forall>p \<in> set items. fst p = fst q \<longrightarrow> p = q" for q
  proof -
    have "fst q \<in> set (dict_keys items)" using that(1) by (simp add: dict_keys_def)
    then obtain x where x: "dict_get items (fst q) = Some x"
      using dict_get_None_iff [of items "fst q"] by blast
    from dict_get_SomeD [OF this] that(2) have "(fst q, x) = q" by auto
    with x show ?thesis by (metis snd_conv)
  qed
  then show ?thesis by (auto simp: renamed_def translated_none)
qed

lemma translate_collection:
  assumes "apply_custom_translation_to_collection tr key d = Inr d'"
  shows "\<exists>items new. dict_get d key = Some (PDict items) \<and> dict_get d' key = Some (PDict new) \<and>
    renamed tr (key = ''fields'') items new \<and> (\<forall>k. k \<noteq> key \<longrightarrow> dict_get d' k = dict_get d k)"
proof -
  obtain items new where "dict_get d key = Some (PDict items)" "d' = dict_set key (PDict new) d"
      "res_fold (translate_field tr (key = ''fields'')) items [] = Inr new"
    using assms by (auto simp: apply_custom_translation_to_collection_def res_splits dict_item_def py_items_def
        split: option.splits pyval.splits)
  then show ?thesis using renamed_fold by auto
qed

definition translated_group :: "doc \<Rightarrow> pyval \<Rightarrow> pyval \<Rightarrow> bool" where
  "translated_group tr v v' \<longleftrightarrow>
     v = v' \<and> tr = [] \<or>
     (\<exists>g g' ms ms' flds flds'. v = PDict g \<and> v' = PDict g' \<and>
        dict_get g ''metrics'' = Some (PDict ms) \<and> dict_get g' ''metrics'' = Some (PDict ms') \<and> renamed tr False ms ms' \<and>
        dict_get g ''fields'' = Some (PDict flds) \<and> dict_get g' ''fields'' = Some (PDict flds') \<and> renamed tr True flds flds')"

lemma map_groups_pointwise:
  "map_groups f xs = Inr ys \<Longrightarrow>
     list_all2 (\<lambda>p q. fst q = fst p \<and> (\<exists>d d'. snd p = PDict d \<and> snd q = PDict d' \<and> f (fst p) d = Inr d')) xs ys"
proof (induction xs arbitrary: ys)
  case (Cons p xs)
  obtain k v where p: "p = (k, v)" by fastforce
  obtain d d' zs where "v = PDict d" "f k d = Inr d'" "ys = (k, PDict d') # zs" "map_groups f xs = Inr zs"
    using Cons.prems unfolding p map_groups_def by (cases v) (auto simp: res_splits)
  then show ?case using Cons.IH by (simp add: p)
qed (simp add: map_groups_def)

lemma translations_groups:
  assumes "apply_custom_translations tr work = Inr work'" "dict_get work ''result'' = Some (PDict groups)"
  shows "\<exists>groups'. dict_get work' ''result'' = Some (PDict groups') \<and>
    list_all2 (\<lambda>p q. fst q = fst p \<and> translated_group tr (snd p) (snd q)) groups groups' \<and>
    (\<forall>k. k \<noteq> ''result'' \<longrightarrow> dict_get work' k = dict_get work k)"
proof (cases "tr = []")
  case True
  then show ?thesis
    using assms by (auto simp: apply_custom_translations_def translated_group_def list_all2_refl)
next
  case False
  let ?f = "\<lambda>_ :: string. \<lambda>data. res_bind (apply_custom_translation_to_collection tr ''fields'' data)
                  (apply_custom_translation_to_collection tr ''metrics'')"
  obtain groups' where g: "map_groups ?f groups = Inr groups'" "work' = dict_set ''result'' (PDict groups') work"
    using assms False by (auto simp: apply_custom_translations_def res_splits dict_item_def py_items_def)
  have "translated_group tr (PDict d) (PDict d')" if run: "?f k d = Inr d'" for k d d'
  proof -
    obtain d1 where d1: "apply_custom_translation_to_collection tr ''fields'' d = Inr d1"
        "apply_custom_translation_to_collection tr ''metrics'' d1 = Inr d'"
      using run by (auto simp: res_splits)
    obtain flds flds' where f: "dict_get d ''fields'' = Some (PDict flds)" "dict_get d1 ''fields'' = Some (PDict flds')"
        "renamed tr True flds flds'" "\<forall>k. k \<noteq> ''fields'' \<longrightarrow> dict_get d1 k = dict_get d k"
      using translate_collection [OF d1(1)] by auto
    obtain ms ms' where m: "dict_get d1 ''metrics'' = Some (PDict ms)" "dict_get d' ''metrics'' = Some (PDict ms')"
        "renamed tr False ms ms'" "\<forall>k. k \<noteq> ''metrics'' \<longrightarrow> dict_get d' k = dict_get d1 k"
      using translate_collection [OF d1(2)] by auto
    have "dict_get d ''metrics'' = Some (PDict ms)" "dict_get d' ''fields'' = Some (PDict flds')"
      using f(2,4) m(1,4) by auto
    then show ?thesis using f(1,3) m(2,3) unfolding translated_group_def by blast
  qed
  then have "list_all2 (\<lambda>p q. fst q = fst p \<and> translated_group tr (snd p) (snd q)) groups groups'"
    by (intro list_all2_mono [OF map_groups_pointwise [OF g(1)]]) auto
  then show ?thesis using g(2) by simp
qed

section \<open>The line of a group\<close>

lemma set_metrics_fields_has:
  assumes "set_metrics_fields conf data work = Inr fs" "dict_get data ''metrics'' = Some (PDict ms)"
    and "q \<in> set ms" "\<forall>p \<in> set ms. hyphens (sd_hyphen conf) (fst p) = hyphens (sd_hyphen conf) (fst q) \<longrightarrow> p = q"
  shows "\<exists>x. item_value (snd q) = Inr x \<and> dict_get fs (''metric_name:sc4snmp.'' @ hyphens (sd_hyphen conf) (fst q)) = Some x"
proof -
  let ?step = "\<lambda>(field, v) fs. res_map (\<lambda>x. dict_set (''metric_name:sc4snmp.'' @ hyphens (sd_hyphen conf) field) x fs) (item_value v)"
  obtain f3 f4 where f4: "res_fold ?step ms f3 = Inr f4"
    and fs: "fs = f4 \<or> (\<exists>t. fs = dict_set ''mibIndex'' t f4)"
    using assms(1,2)
    by (auto simp: set_metrics_fields_def Let_def res_splits dict_item_def py_items_def split: bool.splits option.splits)
  have step: "\<exists>x. item_value (snd p) = Inr x \<and>
      t' = dict_set (''metric_name:sc4snmp.'' @ hyphens (sd_hyphen conf) (fst p)) x t" if "?step p t = Inr t'" for p t t'
    using that by (auto simp: res_splits split: prod.splits)
  have "\<exists>x. item_value (snd q) = Inr x \<and> dict_get f4 (''metric_name:sc4snmp.'' @ hyphens (sd_hyphen conf) (fst q)) = Some x"
    by (rule res_fold_entry [OF step f4 assms(3)]) (use assms(4) in auto)
  then show ?thesis using fs by auto
qed

lemma metric_line_renamed:
  assumes "set_metrics_fields conf data work = Inr fs" "dict_get data ''metrics'' = Some (PDict ms')"
    and "renamed tr False ms ms'"
    and "q \<in> set ms" "\<forall>p \<in> set ms. exported conf tr (fst p) = exported conf tr (fst q) \<longrightarrow> p = q"
  shows "\<exists>x. item_value (snd q) = Inr x \<and> dict_get fs (exported conf tr (fst q)) = Some x"
proof -
  let ?q = "(translated tr (fst q), snd q)"
  have "\<forall>p \<in> set ms. translated tr (fst p) = translated tr (fst q) \<longrightarrow> p = q"
    using assms(5) by (simp add: exported_def)
  then have "dict_get ms' (translated tr (fst q)) = Some (snd q)"
    using assms(3,4) unfolding renamed_def by blast
  then have mem: "?q \<in> set ms'" by (rule dict_get_SomeD)
  have only: "r = ?q" if r: "r \<in> set ms'" "hyphens (sd_hyphen conf) (fst r) = hyphens (sd_hyphen conf) (fst ?q)" for r
  proof -
    obtain p where p: "p \<in> set ms" "fst r = translated tr (fst p)" "snd r = snd p"
      using assms(3) r(1) unfolding renamed_def by blast
    have "hyphens (sd_hyphen conf) (translated tr (fst p)) = hyphens (sd_hyphen conf) (translated tr (fst q))"
      using r(2) p(2) by simp
    then have "exported conf tr (fst p) = exported conf tr (fst q)"
      by (metis exported_hyphens)
    then have "p = q" by (rule assms(5) [rule_format, OF p(1)])
    then show ?thesis using p by (cases r) simp
  qed
  have "\<forall>r \<in> set ms'. hyphens (sd_hyphen conf) (fst r) = hyphens (sd_hyphen conf) (fst ?q) \<longrightarrow> r = ?q"
    using only by blast
  from set_metrics_fields_has [OF assms(1,2) mem this] show ?thesis
    unfolding fst_conv snd_conv exported_hyphens .
qed

lemma same_fields_sole:
  assumes "same_fields flds flds1" "sole name flds q"
  shows "\<exists>q1. sole name flds1 q1 \<and> fst q1 = fst q \<and> same_contents (snd q) (snd q1)"
proof -
  have "list_all2 (\<lambda>p q. fst q = fst p \<and> same_contents (snd p) (snd q))
      (filter (\<lambda>p. name (fst p) = n) xs) (filter (\<lambda>p. name (fst p) = n) ys)"
    if "same_fields xs ys" for xs ys n
    using that unfolding same_fields_def by (induction rule: list_all2_induct) auto
  from this [OF assms(1), of "name (fst q)"] show ?thesis
    using assms(2) unfolding sole_def by (auto simp: list_all2_Cons1)
qed

lemma same_fields_refl: "same_fields flds flds"
  by (simp add: same_fields_def list_all2_refl)

lemma prepare_group_line:
  assumes "prepare_group conf work' v2 = Inr d" "keeps_group v v1" "translated_group tr v1 v2"
    and "dict_get work' ''time'' = dict_get work ''time''" "dict_get work' ''address'' = dict_get work ''address''"
  shows "group_line conf tr work v (map_sum (\<lambda>d. sd_dumps conf (PDict d)) (\<lambda>d. sd_dumps conf (PDict d)) d)"
proof -
  obtain g2 ms2 t where g2: "v2 = PDict g2" "dict_get g2 ''metrics'' = Some (PDict ms2)" "dict_get work' ''time'' = Some t"
    and run: "(if ms2 \<noteq> []
           then res_bind (dict_item work' ''address'') (\<lambda>address.
                res_map (\<lambda>fields. Inr
                  [(''time'', t), (''event'', PStr ''metric''), (''source'', PStr ''sc4snmp''),
                   (''sourcetype'', PStr (sd_metric_type conf)), (''host'', address),
                   (''index'', PStr (sd_metric_index conf)), (''fields'', PDict fields)])
                  (set_metrics_fields conf g2 work'))
           else res_bind (dict_item g2 ''fields'') (\<lambda>fields.
                res_map (\<lambda>address. Inl
                  [(''time'', t), (''event'', PStr (sd_dumps conf fields)), (''source'', PStr ''sc4snmp''),
                   (''sourcetype'', PStr (sd_event_type conf)), (''host'', address),
                   (''index'', PStr (sd_event_index conf))])
                  (dict_item work' ''address''))) = Inr d"
  proof -
    obtain mv ms2 t where m: "py_item v2 ''metrics'' = Inr mv" "py_items mv = Inr ms2" "dict_item work' ''time'' = Inr t"
      using assms(1) unfolding prepare_group_def res_bind_Inr by blast
    moreover obtain g2 where "v2 = PDict g2" using m(1) by (cases v2) (simp_all add: py_item_def)
    ultimately show thesis
      using assms(1) by (intro that [of g2 ms2 t])
        (auto simp: prepare_group_def py_item_def py_items_def dict_item_def split: option.splits pyval.splits)
  qed
  obtain g1 ms where g1: "v1 = PDict g1" "dict_get g1 ''metrics'' = Some (PDict ms)" "renamed tr False ms ms2"
    using assms(3) g2(1,2) renamed_none unfolding translated_group_def by fastforce
  obtain g where g: "v = PDict g" "dict_get g ''metrics'' = Some (PDict ms)"
    using assms(2) g1(1,2) by (auto simp: keeps_group_def)
  have empty: "ms2 = [] \<longleftrightarrow> ms = []" using g1(3) by (simp add: renamed_def)
  show ?thesis
  proof (cases "ms = []")
    case False
    then obtain address fs where m: "dict_get work' ''address'' = Some address" "set_metrics_fields conf g2 work' = Inr fs"
        "d = Inr [(''time'', t), (''event'', PStr ''metric''), (''source'', PStr ''sc4snmp''),
                   (''sourcetype'', PStr (sd_metric_type conf)), (''host'', address),
                   (''index'', PStr (sd_metric_index conf)), (''fields'', PDict fs)]"
      using run empty by (auto simp: res_splits dict_item_def split: option.splits)
    have "\<exists>x. item_value (snd q) = Inr x \<and> dict_get fs (exported conf tr (fst q)) = Some x"
      if "sole (exported conf tr) ms q" for q
      using metric_line_renamed [OF m(2) g2(2) g1(3)] soleD [OF that] by blast
    then show ?thesis
      using False g g2(3) assms(4,5) m(1,3) unfolding group_line_def metric_line_def line_header_def
      by (auto simp: dict_get_Cons)
  next
    case True
    then obtain address v3 where e: "dict_get work' ''address'' = Some address" "dict_get g2 ''fields'' = Some v3"
        "d = Inl [(''time'', t), (''event'', PStr (sd_dumps conf v3)), (''source'', PStr ''sc4snmp''),
                   (''sourcetype'', PStr (sd_event_type conf)), (''host'', address),
                   (''index'', PStr (sd_event_index conf))]"
      using run empty by (auto simp: res_splits dict_item_def split: option.splits)
    have "event_line conf tr work flds (sd_dumps conf (PDict [(''time'', t), (''event'', PStr (sd_dumps conf v3)),
        (''source'', PStr ''sc4snmp''), (''sourcetype'', PStr (sd_event_type conf)), (''host'', address),
        (''index'', PStr (sd_event_index conf))]))"
      if f: "dict_get g ''fields'' = Some (PDict flds)" for flds
    proof -
      have "\<not> py_truthy (dict_get_or g ''metrics'' (PDict []))"
        using g(2) True by (simp add: dict_get_or_def py_truthy_def)
      then obtain flds1 where f1: "dict_get g1 ''fields'' = Some (PDict flds1)" "same_fields flds flds1"
        using assms(2) f same_fields_refl unfolding keeps_group_def g(1) g1(1) by auto
      obtain flds2 where f2: "v3 = PDict flds2" "renamed tr True flds1 flds2"
        using assms(3) f1(1) e(2) renamed_none unfolding translated_group_def g1(1) g2(1) by fastforce
      have "\<exists>x. same_contents (snd q) x \<and> dict_get flds2 (translated tr (fst q)) = Some x"
        if q: "sole (translated tr) flds q" for q
      proof -
        obtain q1 where q1: "sole (translated tr) flds1 q1" "fst q1 = fst q" "same_contents (snd q) (snd q1)"
          using same_fields_sole [OF f1(2) q] by blast
        obtain x where "same_contents (snd q1) x" "dict_get flds2 (translated tr (fst q1)) = Some x"
          using f2(2) soleD [OF q1(1)] unfolding renamed_def by blast
        then show ?thesis using q1(2,3) same_contents_trans by metis
      qed
      then have all: "\<forall>q. sole (translated tr) flds q \<longrightarrow>
          (\<exists>x. same_contents (snd q) x \<and> dict_get flds2 (translated tr (fst q)) = Some x)" by blast
      let ?line = "[(''time'', t), (''event'', PStr (sd_dumps conf (PDict flds2))),
        (''source'', PStr ''sc4snmp''), (''sourcetype'', PStr (sd_event_type conf)), (''host'', address),
        (''index'', PStr (sd_event_index conf))]"
      have "line_header work (sd_event_type conf) (sd_event_index conf) ?line"
        using g2(3) assms(4,5) e(1) by (simp add: line_header_def dict_get_Cons)
      moreover have "dict_get ?line ''event'' = Some (PStr (sd_dumps conf (PDict flds2)))" by (simp add: dict_get_Cons)
      ultimately show ?thesis
        unfolding event_line_def f2(1) using all by (intro exI [of _ ?line] exI [of _ flds2] conjI refl)
    qed
    then show ?thesis using True g e(3) unfolding group_line_def by simp
  qed
qed

section \<open>What reaches Splunk\<close>

definition events_of :: "(string + string) list \<Rightarrow> string list" where
  "events_of ls = concat (map (case_sum (\<lambda>s. [s]) (\<lambda>_. [])) ls)"

definition metrics_of :: "(string + string) list \<Rightarrow> string list" where
  "metrics_of ls = concat (map (case_sum (\<lambda>_. []) (\<lambda>s. [s])) ls)"

lemma prepared_lines:
  assumes "prepare_task conf tr work1 = Inr data" "dict_get work1 ''result'' = Some (PDict groups1)"
    and "dict_get work1 ''sourcetype'' \<noteq> Some (PStr (sd_trap_type conf))"
    and "keeps_groups groups groups1" "\<forall>k. k \<noteq> ''result'' \<longrightarrow> dict_get work1 k = dict_get work k"
  shows "\<exists>ls. list_all2 (\<lambda>g l. group_line conf tr work (snd g) l) groups ls \<and>
    pp_events data = events_of ls \<and> pp_metrics data = metrics_of ls"
proof -
  let ?line = "map_sum (\<lambda>d. sd_dumps conf (PDict d)) (\<lambda>d. sd_dumps conf (PDict d))"
  obtain work2 where w: "apply_custom_translations tr work1 = Inr work2"
    using assms(1) by (auto simp: prepare_task_def res_splits)
  obtain groups2 where g2: "dict_get work2 ''result'' = Some (PDict groups2)"
      "list_all2 (\<lambda>p q. fst q = fst p \<and> translated_group tr (snd p) (snd q)) groups1 groups2"
      "\<forall>k. k \<noteq> ''result'' \<longrightarrow> dict_get work2 k = dict_get work1 k"
    using translations_groups [OF w assms(2)] by blast
  obtain docs where d: "res_list (\<lambda>(k, v). prepare_group conf work2 v) groups2 = Inr docs"
    and out: "pp_events data = map (\<lambda>d. sd_dumps conf (PDict d)) (concat (map (case_sum (\<lambda>d. [d]) (\<lambda>_. [])) docs))"
      "pp_metrics data = map (\<lambda>d. sd_dumps conf (PDict d)) (concat (map (case_sum (\<lambda>_. []) (\<lambda>d. [d])) docs))"
    using assms(1,3) w g2(1) by (auto simp: prepare_task_def res_splits dict_item_def py_items_def)
  have frame: "dict_get work2 ''time'' = dict_get work ''time''" "dict_get work2 ''address'' = dict_get work ''address''"
    using g2(3) assms(5) by simp_all
  have "list_all2 (\<lambda>g l. group_line conf tr work (snd g) l) gs (map ?line ds)"
    if "keeps_groups gs gs1" "list_all2 (\<lambda>p q. fst q = fst p \<and> translated_group tr (snd p) (snd q)) gs1 gs2"
      "res_list (\<lambda>(k, v). prepare_group conf work2 v) gs2 = Inr ds" for gs gs1 gs2 ds
    using that
  proof (induction gs2 arbitrary: gs gs1 ds)
    case Nil
    then show ?case by (simp add: keeps_groups_def)
  next
    case (Cons p2 gs2)
    obtain p1 rest1 where one: "gs1 = p1 # rest1" "translated_group tr (snd p1) (snd p2)"
        "list_all2 (\<lambda>p q. fst q = fst p \<and> translated_group tr (snd p) (snd q)) rest1 gs2"
      using Cons.prems(2) by (auto simp: list_all2_Cons2)
    obtain p rest where zero: "gs = p # rest" "keeps_group (snd p) (snd p1)" "keeps_groups rest rest1"
      using Cons.prems(1) unfolding keeps_groups_def one(1) by (auto simp: list_all2_Cons2)
    obtain x xs where ds: "ds = x # xs" "prepare_group conf work2 (snd p2) = Inr x"
        "res_list (\<lambda>(k, v). prepare_group conf work2 v) gs2 = Inr xs"
      using Cons.prems(3) by (auto simp: res_splits split: prod.splits)
    from prepare_group_line [OF ds(2) zero(2) one(2) frame] Cons.IH [OF zero(3) one(3) ds(3)]
    show ?case unfolding zero(1) ds(1) by simp
  qed
  from this [OF assms(4) g2(2) d] have "list_all2 (\<lambda>g l. group_line conf tr work (snd g) l) groups (map ?line docs)" .
  moreover have "pp_events data = events_of (map ?line docs)" "pp_metrics data = metrics_of (map ?line docs)"
    unfolding out events_of_def metrics_of_def by (induction docs) (auto split: sum.split)
  ultimately show ?thesis by blast
qed

text \<open>
  C9.  When the chain that follows a poll ends without an exception, with a token for the
  collector, Splunk has been posted one line for every group that the poll found, each once, events
  before metrics and either in the order of the groups: the event of a group without metrics with
  its fields, the metric of any other with its metrics, under their names in Splunk.
\<close>

theorem poll_reaches_splunk:
  assumes "poll_chain een conf tr (send_task answer n (Some token) hec otel) work = (cmds, posts, None)"
    and "dict_get work ''result'' = Some (PDict groups)"
    and "dict_get work ''sourcetype'' \<noteq> Some (PStr (sd_trap_type conf))"
    and "0 < n" "token \<noteq> []" "otel \<noteq> Some hec"
  shows "\<exists>lines. list_all2 (\<lambda>g l. group_line conf tr work (snd g) l) groups lines \<and>
    lines_to hec posts = events_of lines @ metrics_of lines"
proof -
  obtain work' data where c: "enrich een work = (cmds, Inr work')" "prepare_task conf tr work' = Inr data"
      "send_task answer n (Some token) hec otel data = (posts, None)"
    using assms(1) by (auto simp: poll_chain_def prepare_and_send_def split: prod.splits sum.splits)
  obtain groups' where g: "dict_get work' ''result'' = Some (PDict groups')" "keeps_groups groups groups'"
      "\<forall>k. k \<noteq> ''result'' \<longrightarrow> dict_get work' k = dict_get work k"
    using enrich_keeps_groups [OF c(1) assms(2)] by blast
  have "dict_get work' ''sourcetype'' \<noteq> Some (PStr (sd_trap_type conf))" using g(3) assms(3) by simp
  from prepared_lines [OF c(2) g(1) this g(2,3)] send_task_complete [OF c(3) assms(4-6)] show ?thesis by auto
qed

lemma trap_event:
  assumes "prepare_task conf [] work = Inr data" "dict_get work ''sourcetype'' = Some (PStr (sd_trap_type conf))"
    and "dict_get work ''result'' = Some (PDict groups)" "(k, v) \<in> set groups" "\<not> sd_aggregate conf"
  shows "\<exists>e. prepare_trap_group conf work v = Inr e \<and> sd_dumps conf (PDict e) \<in> set (pp_events data)"
proof -
  obtain es where es: "res_list (\<lambda>(k, v). prepare_trap_group conf work v) groups = Inr es"
      "pp_events data = map (\<lambda>e. sd_dumps conf (PDict e)) es"
    using assms(1-3,5)
    by (auto simp: prepare_task_def apply_custom_translations_def prepare_trap_data_def res_splits dict_item_def
        py_items_def)
  from res_list_image [OF es(1) assms(4)] es(2) show ?thesis by auto
qed

lemma prepare_trap_group_field:
  assumes "prepare_trap_group conf work (PDict g) = Inr e" "dict_get g ''fields'' = Some (PDict flds)"
    and "f \<in> set (dict_keys flds)"
  shows "\<exists>ev. dict_get e ''event'' = Some (PStr (sd_dumps conf (PDict ev))) \<and> dict_get ev f \<noteq> None"
proof -
  obtain processed rest t where e: "e = [(''time'', t),
      (''event'', PStr (sd_dumps conf (PDict (dict_update (dict_update [] flds) processed))))] @ rest"
    using assms(1,2) by (auto simp: prepare_trap_group_def res_splits dict_item_def py_items_def)
  have "dict_get (dict_update (dict_update [] flds) processed) f \<noteq> None"
    using assms(3) dict_get_None_iff [of "rev (dict_update [] flds)" f]  dict_get_None_iff [of "rev flds" f]
    by (auto simp: dict_get_update dict_keys_def split: option.split)
  then show ?thesis unfolding e by (auto simp: dict_get_Cons)
qed




section \<open>Examples\<close>

definition chain_conf :: sender_conf where
  "chain_conf = sample_conf\<lparr>sd_trap_type := ''sc4snmp:traps'', sd_aggregate := False\<rparr>"

definition chain_send :: send_fn where
  "chain_send = send_task (\<lambda>_. Inr 200) 10 (Some ''t'') ''hec'' None"

lemma do_send_accepted: "do_send (\<lambda>_. Inr 200) 10 data url = (posts, r) \<Longrightarrow> r = None"
proof -
  obtain bs where "py_slices data 10 = Inr bs" using py_slices_pos [of 10 data] by auto
  moreover have "takeWhile (\<lambda>_. True) bs = bs" by (simp add: takeWhile_eq_all_conv)
  ultimately show "do_send (\<lambda>_. Inr 200) 10 data url = (posts, r) \<Longrightarrow> r = None"
    by (auto simp: do_send_def post_batches_outcome ends_posts_def Let_def)
qed

lemma chain_send_accepted: "\<exists>posts. chain_send data = (posts, None)"
proof -
  obtain ps qs r s where "do_send (\<lambda>_. Inr 200) 10 (pp_events data) ''hec'' = (ps, r)"
      "do_send (\<lambda>_. Inr 200) 10 (pp_metrics data) ''hec'' = (qs, s)"
    by fastforce
  then show ?thesis
    using do_send_accepted [of "pp_events data" "''hec''"] do_send_accepted [of "pp_metrics data" "''hec''"]
    by (auto simp: chain_send_def send_task_def then_posts_def)
qed

definition chain_env :: trap_env where
  "chain_env = sample_trap_env\<lparr>te_limit := 0\<rparr>"


definition polled_work :: doc where
  "polled_work = [(''time'', PInt 0), (''address'', PStr ''h''),
     (''result'', PDict [(''g'',
        PDict [(''metrics'', PDict [(''IF-MIB.ifInOctets'', PDict [(''value'', PInt 0)])]), (''fields'', PDict [])])])]"

definition empty_database :: enrich_env where
  "empty_database = \<lparr>en_target = None, en_any_attributes = False, en_attributes = (\<lambda>_. None), en_from_key = (\<lambda>_. Inl KeyError)\<rparr>"

theorem poll_reaches_splunk_witness:
  "\<exists>cmds posts line. poll_chain empty_database chain_conf [] chain_send polled_work = (cmds, posts, None) \<and>
     lines_to ''hec'' posts = [line] \<and>
     metric_line chain_conf [] polled_work [(''IF-MIB.ifInOctets'', PDict [(''value'', PInt 0)])] line"
proof -
  have "is_ok (res_bind (snd (enrich empty_database polled_work)) (prepare_task chain_conf []))" by code_simp
  then obtain work' data where r: "snd (enrich empty_database polled_work) = Inr work'" "prepare_task chain_conf [] work' = Inr data"
    by (auto simp: res_splits)
  obtain posts where "chain_send data = (posts, None)" using chain_send_accepted by blast
  then obtain cmds where c: "poll_chain empty_database chain_conf [] chain_send polled_work = (cmds, posts, None)"
    using r by (cases "enrich empty_database polled_work") (simp add: poll_chain_def prepare_and_send_def)
  have g: "dict_get polled_work ''result'' = Some (PDict [(''g'',
      PDict [(''metrics'', PDict [(''IF-MIB.ifInOctets'', PDict [(''value'', PInt 0)])]), (''fields'', PDict [])])])"
    "dict_get polled_work ''sourcetype'' \<noteq> Some (PStr (sd_trap_type chain_conf))"
    by (simp_all add: polled_work_def dict_get_Cons)
  obtain lines where "list_all2 (\<lambda>g l. group_line chain_conf [] polled_work (snd g) l) [(''g'',
      PDict [(''metrics'', PDict [(''IF-MIB.ifInOctets'', PDict [(''value'', PInt 0)])]), (''fields'', PDict [])])] lines"
    "lines_to ''hec'' posts = events_of lines @ metrics_of lines"
    using poll_reaches_splunk [OF c [unfolded chain_send_def] g] by auto
  then obtain s where "lines_to ''hec'' posts = [s]"
      "metric_line chain_conf [] polled_work [(''IF-MIB.ifInOctets'', PDict [(''value'', PInt 0)])] s"
    by (auto simp: list_all2_Cons1 group_line_def dict_get_Cons events_of_def metrics_of_def)
  with c show ?thesis by blast
qed

end
