(* ===== verification/ComposeLogs.thy ===== *)
theory ComposeLogs
  imports PyCsv Common "HOL-Library.Countable"
begin

text \<open>
  The logging settings of the containers (\<^verbatim>\<open>docker_compose/manage_logs.py\<close>): reading
  the \<^verbatim>\<open>.env\<close> file and rewriting the \<open>logging\<close> section of every service of the compose file.

  The compose file is its text, \<open>None\<close> when it is missing.  Parsing and printing YAML are
  parameters (\<open>yaml_lib\<close>); a mapping is a dictionary in the order of the document.  Every edit
  works on the parsed document and writes the file only when it ends, so that an exception, which
  each function catches and prints, leaves the file as it was.
\<close>

section \<open>Settings\<close>

definition JSON_FILE_LOG_DRIVER :: string where
  "JSON_FILE_LOG_DRIVER = ''json-file''"

definition DOCKER_LOG_MAX_SIZE :: string where
  "DOCKER_LOG_MAX_SIZE = ''${DOCKER_LOG_MAX_SIZE:-10m}''"

definition DOCKER_LOG_MAX_FILE :: string where
  "DOCKER_LOG_MAX_FILE = ''${DOCKER_LOG_MAX_FILE:-5}''"

definition DOCKER_LOG_COMPRESS :: string where
  "DOCKER_LOG_COMPRESS = ''${DOCKER_LOG_COMPRESS:-true}''"

definition DEFAULT_LOGGING_EXTENSION :: string where
  "DEFAULT_LOGGING_EXTENSION = ''x-default-logging''"

definition flag_human_bool :: "pyval \<Rightarrow> bool \<Rightarrow> bool result" where
  "flag_human_bool flag dflt =
     (case flag of
        PNone \<Rightarrow> Inr False
      | PBool b \<Rightarrow> Inr b
      | PStr s \<Rightarrow>
          if str_lower s \<in> {''true'', ''1'', ''t'', ''y'', ''yes''} then Inr True
          else if str_lower s \<in> {''false'', ''0'', ''f'', ''n'', ''no''} then Inr False
          else Inr dflt
      | PBytes s \<Rightarrow> Inr dflt
      | _ \<Rightarrow> Inl AttributeError)"

lemma flag_human_bool_common: "flag_human_bool = human_bool"
  by (intro ext) (simp add: flag_human_bool_def human_bool_def)

type_synonym environ = "(string, string) dict"

definition logging_keys :: "string list" where
  "logging_keys =
     [''SPLUNK_HEC_TOKEN'', ''SPLUNK_HEC_PROTOCOL'', ''SPLUNK_HEC_HOST'', ''SPLUNK_HEC_PORT'',
      ''SPLUNK_LOG_INDEX'', ''SPLUNK_HEC_INSECURESSL'', ''DOCKER_LOG_DRIVER'', ''DOCKER_LOG_MAX_SIZE'',
      ''DOCKER_LOG_MAX_FILE'', ''DOCKER_LOG_COMPRESS'']"

definition default_environment :: environ where
  "default_environment =
     [(''DOCKER_LOG_DRIVER'', JSON_FILE_LOG_DRIVER), (''DOCKER_LOG_MAX_SIZE'', DOCKER_LOG_MAX_SIZE),
      (''DOCKER_LOG_MAX_FILE'', DOCKER_LOG_MAX_FILE), (''DOCKER_LOG_COMPRESS'', DOCKER_LOG_COMPRESS)]"

definition remove_newline :: "string \<Rightarrow> string" where
  \<comment> \<open>\<open>line.removesuffix\<close> of a newline\<close>
  "remove_newline line = (if line \<noteq> [] \<and> last line = CHR 0x0A then butlast line else line)"

definition env_line :: "string \<Rightarrow> environ \<Rightarrow> environ result" where
  "env_line line environment =
     (if list_ex (str_contains line) logging_keys
      then (case str_cut ''='' (remove_newline line) of
              None \<Rightarrow> Inl IndexError
            | Some (k, v) \<Rightarrow> Inr (dict_set k v environment))
      else Inr environment)"

definition read_var_from_env :: "string option \<Rightarrow> environ result" where
  \<comment> \<open>the text of the \<open>.env\<close> file; every exception is raised again as a plain \<open>Exception\<close>\<close>
  "read_var_from_env env_file =
     (case env_file of
        None \<Rightarrow> Inl OtherError
      | Some text \<Rightarrow>
          (case res_fold env_line (text_lines [] text) default_environment of
             Inl _ \<Rightarrow> Inl OtherError
           | Inr environment \<Rightarrow> Inr environment))"

section \<open>Logging sections\<close>

record yaml_lib =
  yl_load :: "string \<Rightarrow> pyval result"
  yl_dump :: "pyval \<Rightarrow> string"   \<comment> \<open>what is in the file after the dump\<close>

definition yaml_line :: "nat \<Rightarrow> string \<Rightarrow> string \<Rightarrow> string" where
  \<comment> \<open>an indented line with a quoted value\<close>
  "yaml_line n key v = replicate n (CHR '' '') @ key @ '': '' @ [CHR 0x22] @ v @ [CHR 0x22, CHR 0x0A]"

definition template_text :: "environ \<Rightarrow> string \<Rightarrow> string result" where
  "template_text environment service_name =
     res_bind (dict_item environment ''SPLUNK_HEC_TOKEN'') (\<lambda>token.
     res_bind (dict_item environment ''SPLUNK_HEC_PROTOCOL'') (\<lambda>protocol.
     res_bind (dict_item environment ''SPLUNK_HEC_HOST'') (\<lambda>host.
     res_bind (dict_item environment ''SPLUNK_HEC_PORT'') (\<lambda>port.
     res_bind (dict_item environment ''SPLUNK_LOG_INDEX'') (\<lambda>idx.
     res_bind (dict_item environment ''SPLUNK_HEC_INSECURESSL'') (\<lambda>insecure.
     res_bind (dict_item environment ''DOCKER_LOG_MAX_SIZE'') (\<lambda>max_size.
     res_bind (dict_item environment ''DOCKER_LOG_MAX_FILE'') (\<lambda>max_file.
     res_bind (dict_item environment ''DOCKER_LOG_COMPRESS'') (\<lambda>compress.
       Inr ([CHR 0x0A] @ ''    logging:'' @ [CHR 0x0A] @
            yaml_line 8 ''driver'' ''splunk'' @ ''        options:'' @ [CHR 0x0A] @
            yaml_line 12 ''splunk-token'' token @
            yaml_line 12 ''splunk-url'' (protocol @ ''://'' @ host @ '':'' @ port) @
            yaml_line 12 ''splunk-index'' idx @
            yaml_line 12 ''splunk-insecureskipverify'' insecure @
            yaml_line 12 ''splunk-sourcetype'' (''docker:container:splunk-connect-for-snmp-'' @ service_name) @
            yaml_line 12 ''cache-max-size'' max_size @
            yaml_line 12 ''cache-max-file'' max_file @
            yaml_line 12 ''cache-compress'' compress @
            replicate 4 (CHR '' '')))))))))))"

definition load_template :: "yaml_lib \<Rightarrow> environ \<Rightarrow> string \<Rightarrow> pyval result" where
  "load_template yl environment service_name =
     res_bind (template_text environment service_name) (yl_load yl)"

definition load_bounded_template :: "(string, pyval) dict" where
  "load_bounded_template =
     [(''logging'', PDict
        [(''driver'', PStr ''json-file''),
         (''options'', PDict [(''max-size'', PStr DOCKER_LOG_MAX_SIZE), (''max-file'', PStr DOCKER_LOG_MAX_FILE),
            (''compress'', PStr DOCKER_LOG_COMPRESS)])])]"

section \<open>Edits of the compose file\<close>

definition edit_compose :: "yaml_lib \<Rightarrow> (pyval \<Rightarrow> pyval result) \<Rightarrow> string option \<Rightarrow> string option" where
  \<comment> \<open>load, change and write back; what is raised on the way is caught\<close>
  "edit_compose yl edit file =
     (case file of
        None \<Rightarrow> None
      | Some text \<Rightarrow>
          (case res_bind (yl_load yl text) edit of Inl _ \<Rightarrow> Some text | Inr y \<Rightarrow> Some (yl_dump yl y)))"

definition each_service :: "(string \<Rightarrow> pyval \<Rightarrow> pyval result) \<Rightarrow> pyval \<Rightarrow> pyval result" where
  \<comment> \<open>the loop over the services, which changes each of them in place\<close>
  "each_service change yaml_file =
     (case yaml_file of
        PDict d \<Rightarrow>
          res_bind (dict_item d ''services'') (\<lambda>services.
            (case services of
               PDict ss \<Rightarrow>
                 res_map (\<lambda>ss'. PDict (dict_set ''services'' (PDict ss') d))
                   (res_fold (\<lambda>name acc. res_bind (dict_item acc name) (\<lambda>s.
                        res_map (\<lambda>s'. dict_set name s' acc) (change name s)))
                     (dict_keys ss) ss)
             | _ \<Rightarrow> Inl AttributeError))
      | _ \<Rightarrow> Inl TypeError)"

definition update_service :: "pyval \<Rightarrow> pyval \<Rightarrow> pyval result" where
  \<comment> \<open>\<open>service.update(template)\<close>; a template is a mapping\<close>
  "update_service s template =
     (case s of
        PDict d \<Rightarrow> (case template of PDict e \<Rightarrow> Inr (PDict (dict_update d e)) | _ \<Rightarrow> Inl TypeError)
      | _ \<Rightarrow> Inl AttributeError)"

definition create_logs :: "yaml_lib \<Rightarrow> environ \<Rightarrow> string option \<Rightarrow> string option" where
  "create_logs yl environment =
     edit_compose yl (each_service (\<lambda>service_name s.
       res_bind (load_template yl environment service_name) (update_service s)))"

definition set_logging :: "pyval \<Rightarrow> pyval \<Rightarrow> pyval result" where
  "set_logging l s = (case s of PDict d \<Rightarrow> Inr (PDict (dict_set ''logging'' l d)) | _ \<Rightarrow> Inl TypeError)"

definition bounded_logging :: "(string, pyval) dict \<Rightarrow> pyval" where
  "bounded_logging d =
     (case dict_get_or d DEFAULT_LOGGING_EXTENSION PNone of
        PNone \<Rightarrow> dict_get_or load_bounded_template ''logging'' PNone
      | l \<Rightarrow> l)"

definition delete_logs :: "yaml_lib \<Rightarrow> string option \<Rightarrow> string option" where
  "delete_logs yl =
     edit_compose yl (\<lambda>yaml_file.
       case yaml_file of
         PDict d \<Rightarrow> each_service (\<lambda>_. set_logging (bounded_logging d)) (PDict d)
       | _ \<Rightarrow> Inl AttributeError)"

definition pop_logging :: "pyval \<Rightarrow> pyval result" where
  \<comment> \<open>\<open>service.pop\<close> with a default; a list has no such \<open>pop\<close>\<close>
  "pop_logging s = (case s of PDict d \<Rightarrow> Inr (PDict (dict_del ''logging'' d)) | _ \<Rightarrow> Inl AttributeError)"

definition use_docker_default_logging :: "yaml_lib \<Rightarrow> string option \<Rightarrow> string option" where
  "use_docker_default_logging yl = edit_compose yl (each_service (\<lambda>_. pop_logging))"

definition configured_driver :: "environ \<Rightarrow> string" where
  \<comment> \<open>the first statement of \<open>configure_default_logging\<close>\<close>
  "configured_driver environment =
     (let stripped = str_strip (dict_get_or environment ''DOCKER_LOG_DRIVER'' JSON_FILE_LOG_DRIVER)
      in if stripped = [] then JSON_FILE_LOG_DRIVER else stripped)"

definition configure_default_logging :: "yaml_lib \<Rightarrow> environ \<Rightarrow> string option \<Rightarrow> string \<times> string option" where
  "configure_default_logging yl environment file =
     (configured_driver environment,
      if configured_driver environment = JSON_FILE_LOG_DRIVER then delete_logs yl file
      else use_docker_default_logging yl file)"

section \<open>The command\<close>

record log_args =
  la_path_exists :: bool
  la_enable_logs :: bool
  la_disable_logs :: bool
  la_docker_default :: bool
  la_configure_default :: bool

definition compose_main ::
  "yaml_lib \<Rightarrow> log_args \<Rightarrow> string option \<Rightarrow> string option \<Rightarrow> unit result \<times> string option" where
  \<comment> \<open>the \<open>.env\<close> file and the compose file; what is printed is left out\<close>
  "compose_main yl args env_file file =
     (case res_bind (flag_human_bool (PBool (la_enable_logs args)) False) (\<lambda>enable_logs.
           res_bind (flag_human_bool (PBool (la_disable_logs args)) False) (\<lambda>disable_logs.
           res_bind (flag_human_bool (PBool (la_docker_default args)) False) (\<lambda>use_docker_default.
           res_map (\<lambda>configure_default. (enable_logs, disable_logs, use_docker_default, configure_default))
             (flag_human_bool (PBool (la_configure_default args)) False)))) of
        Inl e \<Rightarrow> (Inl e, file)
      | Inr (enable_logs, disable_logs, use_docker_default, configure_default) \<Rightarrow>
          if \<not> la_path_exists args then (Inr (), file)
          else (case read_var_from_env env_file of
                  Inl e \<Rightarrow> (Inl e, file)
                | Inr environment \<Rightarrow>
                    (let f1 = (if enable_logs then create_logs yl environment file else file);
                         f2 = (if disable_logs then delete_logs yl f1 else f1);
                         f3 = (if use_docker_default then use_docker_default_logging yl f2 else f2);
                         f4 = (if configure_default then snd (configure_default_logging yl environment f3) else f3)
                     in (Inr (), f4))))"

section \<open>What an edit does to the services\<close>

lemma dict_set_present:
  "dict_wf (xs @ (k, v) # ys) \<Longrightarrow> dict_set k w (xs @ (k, v) # ys) = xs @ (k, w) # ys"
  unfolding dict_wf_def dict_set_def by (induction xs) auto

lemma change_in_place:
  assumes "dict_wf (pre @ ss)" "\<And>n s. (n, s) \<in> set ss \<Longrightarrow> change n s = Inr (new n s)"
  shows "res_fold (\<lambda>name acc. res_bind (dict_item acc name) (\<lambda>s. res_map (\<lambda>s'. dict_set name s' acc) (change name s)))
      (dict_keys ss) (pre @ ss) = Inr (pre @ map (\<lambda>(n, s). (n, new n s)) ss)"
  using assms
proof (induction ss arbitrary: "pre")
  case (Cons x ss)
  obtain n s where x: "x = (n, s)" by fastforce
  have item: "dict_item (pre @ (n, s) # ss) n = Inr s"
    using Cons.prems(1) dict_get_in [of "pre @ x # ss" x] x by (simp add: dict_item_def)
  have wf: "dict_wf ((pre @ [(n, new n s)]) @ ss)" using Cons.prems(1) by (simp add: x dict_wf_def)
  show ?case
    using Cons.IH [OF wf] Cons.prems
    by (simp add: x dict_keys_def item dict_set_present [OF Cons.prems(1) [unfolded x]])
qed (simp add: dict_keys_def)

lemma each_service_map:
  assumes "dict_get d ''services'' = Some (PDict ss)" "dict_wf ss"
    and "\<And>n s. (n, s) \<in> set ss \<Longrightarrow> change n s = Inr (new n s)"
  shows "each_service change (PDict d) =
    Inr (PDict (dict_set ''services'' (PDict (map (\<lambda>(n, s). (n, new n s)) ss)) d))"
  using change_in_place [of "[]" ss change new] assms by (simp add: each_service_def dict_item_def)

lemma change_in_place_defined:
  assumes "dict_wf (pre @ ss)"
    and "res_fold (\<lambda>name acc. res_bind (dict_item acc name) (\<lambda>s. res_map (\<lambda>s'. dict_set name s' acc) (change name s)))
      (dict_keys ss) (pre @ ss) = Inr r"
    and "(n, s) \<in> set ss"
  shows "\<exists>s'. change n s = Inr s'"
  using assms
proof (induction ss arbitrary: pre)
  case (Cons x ss)
  obtain m t where x: "x = (m, t)" by fastforce
  have "dict_item (pre @ (m, t) # ss) m = Inr t"
    using Cons.prems(1) dict_get_in [of "pre @ x # ss" x] x by (simp add: dict_item_def)
  then obtain t' where t': "change m t = Inr t'"
    and rest: "res_fold (\<lambda>name acc. res_bind (dict_item acc name) (\<lambda>s. res_map (\<lambda>s'. dict_set name s' acc) (change name s)))
      (dict_keys ss) ((pre @ [(m, t')]) @ ss) = Inr r"
    using Cons.prems(2) dict_set_present [OF Cons.prems(1) [unfolded x]]
    by (auto simp: x dict_keys_def res_splits)
  have "dict_wf ((pre @ [(m, t')]) @ ss)" using Cons.prems(1) by (simp add: x dict_wf_def)
  then show ?case using Cons.IH [OF _ rest] Cons.prems(3) t' by (auto simp: x)
qed simp

lemma each_service_defined:
  assumes "each_service change (PDict d) = Inr y" "dict_get d ''services'' = Some (PDict ss)" "dict_wf ss"
    and "(n, s) \<in> set ss"
  shows "\<exists>s'. change n s = Inr s'"
  using assms change_in_place_defined [of "[]" ss change _ n s]
  by (auto simp: each_service_def dict_item_def res_splits)

lemma each_serviceD:
  assumes "each_service change y = Inr y'"
  obtains d ss where "y = PDict d" "dict_get d ''services'' = Some (PDict ss)"
  using assms by (auto simp: each_service_def dict_item_def split: pyval.splits option.splits)

lemma dict_set_again [simp]: "dict_set k v (dict_set k w d) = dict_set k v d"
  unfolding dict_set_def by (induction d) auto

lemma dict_del_set [simp]: "dict_del k (dict_set k v d) = dict_del k d"
  unfolding dict_set_def dict_del_def by (induction d) auto

section \<open>The settings of the services\<close>

definition service_fields :: "pyval \<Rightarrow> (string, pyval) dict" where
  "service_fields s = (case s of PDict m \<Rightarrow> m | _ \<Rightarrow> [])"

text \<open>
  Configuring the default logging gives every service the bounded logging section, the one of the
  file if it has one, when the configured driver is that of JSON files, removes the section from
  every service for any other driver, and changes nothing else of the compose file.
\<close>

theorem configure_default_logging_services:
  assumes "yl_load yl text = Inr (PDict d)" "dict_get d ''services'' = Some (PDict ss)" "dict_wf ss"
    and "\<And>n s. (n, s) \<in> set ss \<Longrightarrow> s = PDict (service_fields s)"
  shows "configure_default_logging yl environment (Some text) =
    (configured_driver environment,
     Some (yl_dump yl (PDict (dict_set ''services'' (PDict (map (\<lambda>(n, s).
       (n, PDict (if configured_driver environment = JSON_FILE_LOG_DRIVER
                  then dict_set ''logging'' (bounded_logging d) (service_fields s)
                  else dict_del ''logging'' (service_fields s)))) ss)) d))))"
proof -
  have set_l: "set_logging l s = Inr (PDict (dict_set ''logging'' l (service_fields s)))"
    and pop_l: "pop_logging s = Inr (PDict (dict_del ''logging'' (service_fields s)))"
    if "(n, s) \<in> set ss" for n s l
    using assms(4) [OF that] by (cases s; simp add: set_logging_def pop_logging_def service_fields_def)+
  note upd = each_service_map [OF assms(2,3), of _ "\<lambda>n s. PDict (dict_set ''logging'' (bounded_logging d) (service_fields s))"]
    each_service_map [OF assms(2,3), of _ "\<lambda>n s. PDict (dict_del ''logging'' (service_fields s))"]
  show ?thesis
    using assms(1) upd(1) [OF set_l] upd(2) [OF pop_l]
    by (simp add: configure_default_logging_def delete_logs_def
        use_docker_default_logging_def edit_compose_def)
qed


text \<open>A YAML library for the witnesses: a document is written as its number.\<close>

instance pyfloat :: countable
  by countable_datatype

instance pyval :: countable
  by countable_datatype

definition numbering_yaml :: yaml_lib where
  "numbering_yaml = \<lparr>yl_load = (\<lambda>s. Inr (from_nat (length s))), yl_dump = (\<lambda>y. replicate (to_nat y) CHR ''1'')\<rparr>"

lemma numbering_yaml_inverse [simp]: "yl_load numbering_yaml (yl_dump numbering_yaml y) = Inr y"
  by (simp add: numbering_yaml_def)

definition sample_compose :: pyval where
  "sample_compose = PDict [(''services'', PDict
     [(''a'', PDict [(''image'', PStr ''i'')]), (''b'', PDict [(''logging'', PDict []), (''image'', PStr ''j'')])])]"

theorem configure_default_logging_services_witness:
  "configure_default_logging numbering_yaml [(''DOCKER_LOG_DRIVER'', ''local'')]
     (Some (yl_dump numbering_yaml sample_compose)) =
   (''local'', Some (yl_dump numbering_yaml (PDict [(''services'', PDict
     [(''a'', PDict [(''image'', PStr ''i'')]), (''b'', PDict [(''image'', PStr ''j'')])])])))"
proof -
  have d: "configured_driver [(''DOCKER_LOG_DRIVER'', ''local'')] = ''local''" by code_simp
  show ?thesis
    by (subst configure_default_logging_services [of numbering_yaml _ "service_fields sample_compose"
          "[(''a'', PDict [(''image'', PStr ''i'')]), (''b'', PDict [(''logging'', PDict []), (''image'', PStr ''j'')])]"])
       (auto simp: d sample_compose_def service_fields_def dict_get_Cons dict_wf_def JSON_FILE_LOG_DRIVER_def
          dict_del_def dict_set_def)
qed

lemma delete_after_create_document:
  fixes yl :: yaml_lib and environment :: environ
  defines "change \<equiv> \<lambda>n s. res_bind (load_template yl environment n) (update_service s)"
  assumes created: "each_service change (PDict d) = Inr y'"
    and ss: "dict_get d ''services'' = Some (PDict ss)" "dict_wf ss"
    and templates: "\<And>n t. load_template yl environment n = Inr t \<Longrightarrow> \<exists>l. t = PDict [(''logging'', l)]"
  shows "\<exists>d' z. y' = PDict d' \<and> each_service (\<lambda>_. set_logging (bounded_logging d')) (PDict d') = Inr z \<and>
    each_service (\<lambda>_. set_logging (bounded_logging d)) (PDict d) = Inr z"
proof -
  have ex: "\<exists>m l. s = PDict m \<and> change n s = Inr (PDict (dict_set ''logging'' l m))" if ns: "(n, s) \<in> set ss" for n s
  proof -
    obtain s' t where s': "change n s = Inr s'" and t: "load_template yl environment n = Inr t" "update_service s t = Inr s'"
      using each_service_defined [OF created ss ns] by (auto simp: change_def res_splits)
    obtain l where "t = PDict [(''logging'', l)]" using templates [OF t(1)] by blast
    with t(2) s' show ?thesis by (cases s) (auto simp: update_service_def)
  qed
  let ?new = "\<lambda>n s. projr (change n s)"
  let ?ss = "map (\<lambda>(n, s). (n, ?new n s)) ss"
  let ?d = "dict_set ''services'' (PDict ?ss) d"
  let ?set = "\<lambda>n s. PDict (dict_set ''logging'' (bounded_logging d) (service_fields s))"
  have new: "change n s = Inr (?new n s)" if "(n, s) \<in> set ss" for n s
    using ex [OF that] by auto
  have old: "set_logging (bounded_logging d) s = Inr (?set n s)" if "(n, s) \<in> set ss" for n s
    using ex [OF that] by (auto simp: set_logging_def service_fields_def)
  have upd: "set_logging (bounded_logging d) s = Inr (?set n s)" if ns: "(n, s) \<in> set ?ss" for n s
  proof -
    obtain s0 where s0: "(n, s0) \<in> set ss" "s = ?new n s0" using ns by auto
    show ?thesis using ex [OF s0(1)] s0(2) by (auto simp: set_logging_def service_fields_def)
  qed
  have same: "map (\<lambda>(n, s). (n, ?set n s)) ?ss = map (\<lambda>(n, s). (n, ?set n s)) ss"
  proof -
    have "?set n (?new n s) = ?set n s" if "(n, s) \<in> set ss" for n s
      using ex [OF that] by (auto simp: service_fields_def)
    then show ?thesis by auto
  qed
  have wf': "dict_wf ?ss" using ss(2) by (simp add: dict_wf_def case_prod_unfold comp_def)
  let ?after = "\<lambda>ss d. PDict (dict_set ''services'' (PDict (map (\<lambda>(n, s). (n, ?set n s)) ss)) d)"
  have "each_service (\<lambda>_. set_logging (bounded_logging d)) (PDict ?d) = Inr (?after ?ss ?d)"
    by (rule each_service_map [OF _ wf']) (simp, erule upd)
  moreover have "each_service (\<lambda>_. set_logging (bounded_logging d)) (PDict d) = Inr (?after ss d)"
    by (rule each_service_map [OF ss]) (erule old)
  moreover have "?after ?ss ?d = ?after ss d" unfolding same by simp
  moreover have "y' = PDict ?d" using each_service_map [OF ss, of change ?new] new created by simp
  moreover have "bounded_logging ?d = bounded_logging d"
    by (simp add: bounded_logging_def dict_get_or_def DEFAULT_LOGGING_EXTENSION_def)
  ultimately show ?thesis by auto
qed

definition services_wf :: "pyval \<Rightarrow> bool" where
  \<comment> \<open>no service is listed twice\<close>
  "services_wf y \<longleftrightarrow> dict_wf (service_fields (dict_get_or (service_fields y) ''services'' PNone))"




text \<open>
  A line of the \<^verbatim>\<open>.env\<close> file that mentions a setting without assigning anything, such as a
  comment, stops the command before it edits the compose file.
\<close>

theorem mentioned_setting_stops:
  assumes "line \<in> set (text_lines [] text)" "list_ex (str_contains line) logging_keys"
    and "str_cut ''='' (remove_newline line) = None" "la_path_exists args"
  shows "compose_main yl args (Some text) file = (Inl OtherError, file)"
proof -
  have "\<exists>e. res_fold env_line ls environment = Inl e" if "line \<in> set ls" for ls environment
    using that assms(2,3)
  proof (induction ls arbitrary: environment)
    case (Cons l ls)
    then show ?case by (cases "env_line l environment") (auto simp: env_line_def)
  qed simp
  then obtain e where "res_fold env_line (text_lines [] text) default_environment = Inl e" using assms(1) by blast
  then show ?thesis using assms(4) by (simp add: compose_main_def read_var_from_env_def flag_human_bool_def)
qed

theorem mentioned_setting_stops_witness:
  "compose_main numbering_yaml \<lparr>la_path_exists = True, la_enable_logs = True, la_disable_logs = False,
      la_docker_default = False, la_configure_default = False\<rparr> (Some ''# DOCKER_LOG_DRIVER is json-file'') None =
    (Inl OtherError, None)"
proof -
  have "list_ex (str_contains ''# DOCKER_LOG_DRIVER is json-file'') logging_keys"
    "str_cut ''='' (remove_newline ''# DOCKER_LOG_DRIVER is json-file'') = None"
    "''# DOCKER_LOG_DRIVER is json-file'' \<in> set (text_lines [] ''# DOCKER_LOG_DRIVER is json-file'')"
    by code_simp+
  then show ?thesis by (intro mentioned_setting_stops) simp_all
qed

end
