(* ===== verification/SecretFiles.thy ===== *)
theory SecretFiles
  imports PyValue
begin

text \<open>
  The scripts of the Docker images: the files of the SNMPv3 secrets
  (\<^verbatim>\<open>docker_scripts/manage_secrets.py\<close>) and the lookup of a field in a YAML file
  (\<^verbatim>\<open>get_yaml_fields.py\<close>).

  The directory of the secrets is \<open>None\<close> when it does not exist, and else maps the name of each
  secret to its files by name.  Names are single path components.  The text of a number with a
  fraction or of a container, as \<open>str\<close> gives it, is the parameter \<open>shown\<close>.
\<close>

section \<open>Writing the secrets\<close>

type_synonym secret_files = "(string, string) dict"
type_synonym secret_dirs = "(string, secret_files) dict"

definition OPTIONAL_FIELDS :: "string list" where
  "OPTIONAL_FIELDS = [''contextengineid'', ''privkey'', ''privprotocol'']"

definition file_map :: "(string, string) dict" where
  "file_map =
     [(''username'', ''userName''), (''authkey'', ''authKey''), (''authprotocol'', ''authProtocol''),
      (''privkey'', ''privKey''), (''privprotocol'', ''privProtocol''), (''contextengineid'', ''contextEngineId'')]"

definition skip_secret :: "(string, pyval) dict \<Rightarrow> bool" where
  \<comment> \<open>the first loop: some field that is not optional has no value\<close>
  "skip_secret details = list_ex (\<lambda>(key, v). str_lower key \<notin> set OPTIONAL_FIELDS \<and> \<not> py_truthy v) details"

definition str_text :: "(pyval \<Rightarrow> string) \<Rightarrow> pyval \<Rightarrow> string" where
  "str_text shown v = (case py_str v of Inr s \<Rightarrow> s | Inl _ \<Rightarrow> shown v)"

definition write_field :: "(pyval \<Rightarrow> string) \<Rightarrow> string \<times> pyval \<Rightarrow> secret_files \<Rightarrow> secret_files" where
  "write_field shown = (\<lambda>(key, v) files.
     case dict_get file_map (str_lower key) of
       None \<Rightarrow> files
     | Some file_name \<Rightarrow> if py_truthy v then dict_set file_name (str_text shown v) files else files)"

definition write_secret :: "(pyval \<Rightarrow> string) \<Rightarrow> string \<Rightarrow> (string, pyval) dict \<Rightarrow> secret_dirs \<Rightarrow> secret_dirs" where
  \<comment> \<open>\<open>makedirs\<close> keeps the files of an existing directory\<close>
  "write_secret shown secretname details dirs =
     dict_set secretname (fold (write_field shown) details (dict_get_or dirs secretname [])) dirs"

fun create_secret_files ::
  "(pyval \<Rightarrow> string) \<Rightarrow> (string, pyval) dict \<Rightarrow> secret_dirs option \<Rightarrow> string list result \<times> secret_dirs option" where
  \<comment> \<open>the names of the secrets created; what is printed is left out\<close>
  "create_secret_files shown [] base = (Inr [], base)"
| "create_secret_files shown ((secretname, PDict details) # secrets) base =
     (if skip_secret details then create_secret_files shown secrets base
      else (case create_secret_files shown secrets
                   (Some (write_secret shown secretname details (case base of None \<Rightarrow> [] | Some d \<Rightarrow> d))) of
              (r, base') \<Rightarrow> (res_map (\<lambda>ns. secretname # ns) r, base')))"
| "create_secret_files shown ((secretname, v) # secrets) base = (Inl AttributeError, base)"

definition delete_secret_files :: "string list \<Rightarrow> secret_dirs option \<Rightarrow> secret_dirs option" where
  "delete_secret_files secret_names base = map_option (filter (\<lambda>(d, _). d \<in> set secret_names)) base"

definition manage_secrets ::
  "(pyval \<Rightarrow> string) \<Rightarrow> pyval result option \<Rightarrow> secret_dirs option \<Rightarrow> unit result \<times> secret_dirs option" where
  \<comment> \<open>the second argument is the parsed JSON file, if there is one\<close>
  "manage_secrets shown json base =
     (case json of
        None \<Rightarrow> (Inr (), base)
      | Some (Inl e) \<Rightarrow> (Inl e, base)
      | Some (Inr (PDict secrets)) \<Rightarrow>
          (case create_secret_files shown secrets base of
             (Inl e, base') \<Rightarrow> (Inl e, base')
           | (Inr secret_names, base') \<Rightarrow> (Inr (), delete_secret_files secret_names base'))
      | Some (Inr _) \<Rightarrow> (Inl AttributeError, base))"

section \<open>A field of a YAML file\<close>

fun yaml_field :: "pyval \<Rightarrow> string list \<Rightarrow> pyval option result" where
  \<comment> \<open>the loop over the keys, \<open>None\<close> for \<open>wrong_key\<close>\<close>
  "yaml_field v [] = Inr (Some v)"
| "yaml_field v (el # keys) =
     (case v of
        PDict d \<Rightarrow> (case dict_get_or d el PNone of PNone \<Rightarrow> Inr None | w \<Rightarrow> yaml_field w keys)
      | _ \<Rightarrow> Inl AttributeError)"

definition get_yaml_field :: "pyval result option \<Rightarrow> string \<Rightarrow> string result" where
  \<comment> \<open>the parsed file, if there is one, and the text printed\<close>
  "get_yaml_field file var =
     (case file of
        None \<Rightarrow> Inr []
      | Some loaded \<Rightarrow>
          res_bind loaded (\<lambda>doc.
          res_bind (yaml_field doc (str_split ''.'' var)) (\<lambda>found.
            (case found of
               None \<Rightarrow> Inr []
             | Some (PStr s) \<Rightarrow>
                 Inr (if str_startswith s ''bitnami/'' then str_replace ''bitnami/'' ''bitnamilegacy/'' s else s)
             | Some _ \<Rightarrow> Inl AttributeError))))"

section \<open>The secrets after a run\<close>

definition details_of :: "pyval \<Rightarrow> (string, pyval) dict" where
  "details_of v = (case v of PDict d \<Rightarrow> d | _ \<Rightarrow> [])"

definition created :: "(string, pyval) dict \<Rightarrow> (string, pyval) dict" where
  \<comment> \<open>the secrets whose required fields have values\<close>
  "created secrets = filter (\<lambda>(n, v). \<not> skip_secret (details_of v)) secrets"

definition old_dirs :: "secret_dirs option \<Rightarrow> secret_dirs" where
  "old_dirs base = (case base of None \<Rightarrow> [] | Some d \<Rightarrow> d)"

definition all_mappings :: "(string, pyval) dict \<Rightarrow> bool" where
  "all_mappings secrets = list_all (\<lambda>(_, v). v = PDict (details_of v)) secrets"

lemma create_secret_files_result:
  "all_mappings secrets \<Longrightarrow> create_secret_files shown secrets base =
    (Inr (map fst (created secrets)),
     if created secrets = [] then base
     else Some (fold (\<lambda>(n, v). write_secret shown n (details_of v)) (created secrets) (old_dirs base)))"
proof (induction shown secrets base rule: create_secret_files.induct)
  case (2 shown n ds secrets base)
  then show ?case by (simp add: all_mappings_def created_def details_of_def old_dirs_def)
qed (auto simp: created_def all_mappings_def details_of_def)

lemma write_secrets_get:
  "dict_wf secrets \<Longrightarrow> dict_get (fold (\<lambda>(n, v). write_secret shown n (details_of v)) secrets dirs) n =
    (case dict_get secrets n of
       None \<Rightarrow> dict_get dirs n
     | Some v \<Rightarrow> Some (fold (write_field shown) (details_of v) (dict_get_or dirs n [])))"
proof (induction secrets arbitrary: dirs)
  case (Cons x secrets)
  obtain m v where x: "x = (m, v)" by fastforce
  have "dict_get secrets m = None" using Cons.prems by (simp add: x dict_wf_def dict_get_None_iff dict_keys_def)
  then show ?case
    using Cons by (auto simp: x dict_wf_def write_secret_def dict_get_Cons dict_get_or_def split: option.splits)
qed simp

definition written_value :: "(string, pyval) dict \<Rightarrow> string \<Rightarrow> pyval option" where
  \<comment> \<open>the last value that the fields of a secret give for a file\<close>
  "written_value details file_name =
     map_option snd (find (\<lambda>(k, v). dict_get file_map (str_lower k) = Some file_name \<and> py_truthy v) (rev details))"

lemma write_fields_get:
  "dict_get (fold (write_field shown) details files) file_name =
    (case written_value details file_name of None \<Rightarrow> dict_get files file_name | Some v \<Rightarrow> Some (str_text shown v))"
proof (induction details rule: rev_induct)
  case (snoc x details)
  then show ?case
    by (cases x) (auto simp: write_field_def written_value_def split: option.splits)
qed (simp add: written_value_def)

lemma dict_get_filter_keys: "dict_get (filter (\<lambda>(k, _). k \<in> A) d) k = (if k \<in> A then dict_get d k else None)"
  unfolding dict_get_def by (induction d) auto

lemma manage_secrets_dirs:
  assumes "dict_wf secrets" "all_mappings secrets"
    and "manage_secrets shown (Some (Inr (PDict secrets))) base = (r, base')"
  shows "r = Inr () \<and> dict_get (old_dirs base') n =
    (case dict_get (created secrets) n of
       None \<Rightarrow> None
     | Some v \<Rightarrow> Some (fold (write_field shown) (details_of v) (dict_get_or (old_dirs base) n [])))"
proof -
  have wf: "dict_wf (created secrets)" using assms(1) by (simp add: created_def dict_wf_def distinct_map_filter)
  have r: "r = Inr ()" "old_dirs base' = filter (\<lambda>(d, _). d \<in> fst ` set (created secrets))
      (fold (\<lambda>(n, v). write_secret shown n (details_of v)) (created secrets) (old_dirs base))"
    using assms(3) create_secret_files_result [OF assms(2), of shown base]
    by (auto simp: manage_secrets_def delete_secret_files_def old_dirs_def split: option.splits if_splits)
  have "n \<in> fst ` set (created secrets) \<longleftrightarrow> dict_get (created secrets) n \<noteq> None"
    using dict_get_None_iff [of "created secrets" n] by (simp add: dict_keys_def)
  then show ?thesis using r by (auto simp: dict_get_filter_keys write_secrets_get [OF wf] split: option.split)
qed



definition sample_secret :: "(string, pyval) dict" where
  "sample_secret = [(''userName'', PStr ''u''), (''authKey'', PStr ''a''), (''privKey'', PStr [])]"


text \<open>
  A field that a secret no longer sets keeps its file: a user whose privacy key is taken away is
  still read with the old one.
\<close>

theorem removed_field_keeps_file:
  assumes "dict_wf secrets" "all_mappings secrets" "dict_get (created secrets) n = Some v"
    and "written_value (details_of v) file_name = None"
    and "dict_get (dict_get_or (old_dirs base) n []) file_name = Some key"
  shows "\<exists>files. dict_get (old_dirs (snd (manage_secrets shown (Some (Inr (PDict secrets))) base))) n = Some files \<and>
    dict_get files file_name = Some key"
  using manage_secrets_dirs [OF assms(1,2) surjective_pairing, of shown base n] assms(3-5)
  by (simp add: write_fields_get)

theorem removed_field_keeps_file_witness:
  "\<exists>files. dict_get (old_dirs (snd (manage_secrets (\<lambda>_. []) (Some (Inr (PDict [(''s'', PDict sample_secret)])))
      (Some [(''s'', [(''privKey'', ''old'')])])))) ''s'' = Some files \<and> dict_get files ''privKey'' = Some ''old''"
proof (rule removed_field_keeps_file)
  have "\<not> skip_secret sample_secret" by code_simp
  then show "dict_get (created [(''s'', PDict sample_secret)]) ''s'' = Some (PDict sample_secret)"
    by (simp add: created_def details_of_def dict_get_Cons)
  show "written_value (details_of (PDict sample_secret)) ''privKey'' = None" by code_simp
qed (simp_all add: dict_wf_def all_mappings_def details_of_def old_dirs_def dict_get_or_def dict_get_Cons)

text \<open>
  A required field that is absent, rather than empty, does not keep a secret from being created.
\<close>

theorem absent_field_accepted:
  "created [(''s'', PDict [(''userName'', PStr ''u'')])] = [(''s'', PDict [(''userName'', PStr ''u'')])]"
  by code_simp

end
