(* ===== verification/Workers.thy ===== *)
theory Workers
  imports Poller PyCsv
begin

text \<open>
  What surrounds the tasks of a worker: the marker files that the probes of a deployment look at
  and the report of the varbind limit (\<^verbatim>\<open>celery_signals_handlers.py\<close>,
  \<^verbatim>\<open>snmp/trap_varbind_limit.py\<close>), and the developer's walk of an inventory file
  (\<^verbatim>\<open>walk.py\<close>).
\<close>

section \<open>Marker files\<close>

record markers =
  heartbeat_file :: bool
  readiness_file :: bool
  limit_config_logged :: bool   \<comment> \<open>\<open>_limit_config_logged\<close>\<close>
  limit_log :: "string list"

definition liveness_indicator :: "markers \<Rightarrow> markers" where
  "liveness_indicator m = m\<lparr>heartbeat_file := True\<rparr>"

definition log_trap_varbind_limit_config :: "int \<Rightarrow> markers \<Rightarrow> markers" where
  \<comment> \<open>the argument is the limit, zero for none\<close>
  "log_trap_varbind_limit_config limit m =
     (if limit_config_logged m then m
      else m\<lparr>limit_config_logged := True,
             limit_log := limit_log m @
               [if limit = 0
                then ''Trap varbind decode limit: MAX_TRAP_VARBINDS_TO_DECODE=0 (unlimited)''
                else ''Trap varbind decode limit: MAX_TRAP_VARBINDS_TO_DECODE='' @ str_of_int limit]\<rparr>)"

definition readiness_indicator :: "int \<Rightarrow> string list option option \<Rightarrow> markers \<Rightarrow> markers" where
  \<comment> \<open>the sender, if there is one, and its queues, if it has any\<close>
  "readiness_indicator limit sender m =
     (let m' = m\<lparr>readiness_file := True\<rparr> in
      case sender of
        None \<Rightarrow> m'
      | Some queues \<Rightarrow>
          (let queue_names = (case queues of None \<Rightarrow> {} | Some qs \<Rightarrow> set qs) in
           if ''traps'' \<in> queue_names then log_trap_varbind_limit_config limit m' else m'))"

definition worker_shutdown :: "markers \<Rightarrow> unit result \<times> markers" where
  \<comment> \<open>removing a file that does not exist raises an exception\<close>
  "worker_shutdown m =
     (if \<not> heartbeat_file m then (Inl FileNotFoundError, m)
      else (let m1 = m\<lparr>heartbeat_file := False\<rparr> in
            if \<not> readiness_file m1 then (Inl FileNotFoundError, m1)
            else (Inr (), m1\<lparr>readiness_file := False\<rparr>)))"

text \<open>The life of a worker: its signals, in the order they are sent.\<close>

datatype worker_signal = Heartbeat | Ready "string list option option" | Shutdown

definition on_signal :: "int \<Rightarrow> worker_signal \<Rightarrow> markers \<Rightarrow> markers" where
  "on_signal limit sig m =
     (case sig of
        Heartbeat \<Rightarrow> liveness_indicator m
      | Ready sender \<Rightarrow> readiness_indicator limit sender m
      | Shutdown \<Rightarrow> snd (worker_shutdown m))"

definition logs_once :: "markers \<Rightarrow> markers \<Rightarrow> bool" where
  \<comment> \<open>the limit is reported at most once, and not again\<close>
  "logs_once m n \<longleftrightarrow>
     (if limit_config_logged m then limit_config_logged n \<and> limit_log n = limit_log m
      else if limit_config_logged n then (\<exists>line. limit_log n = limit_log m @ [line])
      else limit_log n = limit_log m)"

interpretation once: progress logs_once
  by unfold_locales (auto simp: logs_once_def split: if_splits)

lemma on_signal_logs_once: "logs_once m (on_signal limit sig m)"
  by (cases sig)
     (auto simp: on_signal_def logs_once_def liveness_indicator_def readiness_indicator_def Let_def
        log_trap_varbind_limit_config_def worker_shutdown_def split: option.split)

theorem limit_reported_once: "logs_once m (fold (on_signal limit) sigs m)"
  by (rule once.rel_fold) (rule on_signal_logs_once)

theorem shutdown_removes_markers:
  "worker_shutdown m = (Inr (), m') \<longleftrightarrow>
    heartbeat_file m \<and> readiness_file m \<and> m' = m\<lparr>heartbeat_file := False, readiness_file := False\<rparr>"
  by (auto simp: worker_shutdown_def Let_def)

text \<open>
  A worker that is shut down before its first heartbeat keeps its readiness file, so that the
  next start in the same container counts as ready from the beginning.
\<close>

theorem early_shutdown_stays_ready:
  "readiness_file (fold (on_signal limit) [Ready sender, Shutdown] m) \<longleftrightarrow> \<not> heartbeat_file m"
  by (auto simp: on_signal_def readiness_indicator_def worker_shutdown_def Let_def
      log_trap_varbind_limit_config_def split: option.split)

section \<open>The walk of an inventory file\<close>

datatype walk_row = RowSkipped | RowWalked doc | RowLogged pyexn | RowUnfinished

definition walk_one ::
  "nat \<Rightarrow> (inventory_record \<Rightarrow> ('o, 'v) snmp_env) \<Rightarrow> (string \<Rightarrow> pyval \<Rightarrow> bool) \<Rightarrow> csv_dict \<Rightarrow> poller
     \<Rightarrow> poller \<times> walk_row" where
  \<comment> \<open>the body of the \<open>try\<close>; the cells beyond the header are no keyword arguments\<close>
  "walk_one n env_of resolves row p =
     (if cd_rest row \<noteq> None then (p, RowLogged TypeError)
      else (case InventoryRecord resolves (cd_cells row) of
              Inl e \<Rightarrow> (p, RowLogged e)
            | Inr ir \<Rightarrow>
                (case walk_loop n (env_of ir) ir [] p of
                   (p', Done result) \<Rightarrow> (p', RowWalked result)
                 | (p', Raised e) \<Rightarrow> (p', RowLogged e)
                 | (p', OutOfFuel) \<Rightarrow> (p', RowUnfinished))))"

fun walk_rows ::
  "nat \<Rightarrow> (inventory_record \<Rightarrow> ('o, 'v) snmp_env) \<Rightarrow> (string \<Rightarrow> pyval \<Rightarrow> bool) \<Rightarrow> csv_dict list \<Rightarrow> poller
     \<Rightarrow> poller \<times> walk_row list \<times> pyexn option" where
  \<comment> \<open>the outcome of each row, and the exception that ends the loop early\<close>
  "walk_rows n env_of resolves [] p = (p, [], None)"
| "walk_rows n env_of resolves (row # rows) p =
     (case dict_get (cd_cells row) ''address'' of
        None \<Rightarrow> (p, [], Some KeyError)
      | Some (PStr address) \<Rightarrow>
          (case (if str_startswith address ''#'' then (p, RowSkipped) else walk_one n env_of resolves row p) of
             (p1, r) \<Rightarrow> (case walk_rows n env_of resolves rows p1 of (p2, rs, e) \<Rightarrow> (p2, r # rs, e)))
      | Some _ \<Rightarrow> (p, [], Some AttributeError))"

definition run_walk ::
  "nat \<Rightarrow> (inventory_record \<Rightarrow> ('o, 'v) snmp_env) \<Rightarrow> (string \<Rightarrow> pyval \<Rightarrow> bool) \<Rightarrow> string \<Rightarrow> poller
     \<Rightarrow> poller \<times> walk_row list \<times> pyexn option" where
  "run_walk n env_of resolves text p =
     (case csv_dict_reader text of
        (rows, broken) \<Rightarrow>
          (case walk_rows n env_of resolves rows p of
             (p', rs, Some e) \<Rightarrow> (p', rs, Some e)
           | (p', rs, None) \<Rightarrow> (p', rs, if broken then Some OtherError else None)))"

lemma walk_one_grows: "poller_grows p (fst (walk_one n env_of resolves row p))"
proof -
  have "poller_grows p (fst (walk_loop n env ir ps q))" if "poller_grows p q" for env :: "('a, 'b) snmp_env" and ir ps q
    using that
  proof (induction n arbitrary: q)
    case (Suc n)
    obtain q' r where w: "do_work env ir True ps q = (q', r)" by fastforce
    have "poller_grows p q'" using Suc.prems do_work_grows [of q env ir True ps] w by (auto intro: poller_grows_trans)
    then show ?case using Suc.IH by (cases r) (auto simp: w)
  qed simp
  then show ?thesis
    unfolding walk_one_def
    by (auto split: sum.split prod.split run.split) (metis fst_conv poller_grows_refl)+
qed

lemma walk_one_not_skipped: "snd (walk_one n env_of resolves row p) \<noteq> RowSkipped"
  by (auto simp: walk_one_def split: sum.split prod.split run.split)

definition row_address :: "csv_dict \<Rightarrow> string option" where
  "row_address row = (case dict_get (cd_cells row) ''address'' of Some (PStr a) \<Rightarrow> Some a | _ \<Rightarrow> None)"

text \<open>
  Every row of an inventory whose address is a text is dealt with, whatever the walks of the
  other rows raise; exactly the comments are skipped, and the poller keeps what it knows.
\<close>

theorem walk_rows_isolated:
  assumes "list_all (\<lambda>row. row_address row \<noteq> None) rows"
    and "walk_rows n env_of resolves rows p = (p', rs, e)"
  shows "e = None \<and> poller_grows p p' \<and>
    list_all2 (\<lambda>row r. r = RowSkipped \<longleftrightarrow> str_startswith (the (row_address row)) ''#'') rows rs"
  using assms
proof (induction rows arbitrary: p rs p' e)
  case (Cons row rows)
  obtain a where a: "dict_get (cd_cells row) ''address'' = Some (PStr a)"
    using Cons.prems(1) by (auto simp: row_address_def split: option.splits pyval.splits)
  obtain p1 r where one: "(if str_startswith a ''#'' then (p, RowSkipped) else walk_one n env_of resolves row p) = (p1, r)"
    by fastforce
  obtain p2 rs' e' where rest: "walk_rows n env_of resolves rows p1 = (p2, rs', e')" by (metis prod_cases3)
  have "poller_grows p p1" "r = RowSkipped \<longleftrightarrow> str_startswith a ''#''"
    using one walk_one_grows [of p n env_of resolves row] walk_one_not_skipped [of n env_of resolves row p]
    by (auto split: if_splits)
  then show ?case
    using Cons.IH [OF _ rest] Cons.prems a one rest by (auto simp: row_address_def intro: poller_grows_trans)
qed simp

theorem walk_rows_isolated_witness:
  "snd (snd (walk_rows 1 (\<lambda>_. sample_snmp_env) (\<lambda>_ _. True)
     [\<lparr>cd_cells = [(''address'', PStr ''#x'')], cd_rest = None\<rparr>] sample_poller)) = None"
proof -
  let ?rows = "[\<lparr>cd_cells = [(''address'', PStr ''#x'')], cd_rest = None\<rparr>]"
  obtain p' rs e where w: "walk_rows 1 (\<lambda>_. sample_snmp_env) (\<lambda>_ _. True) ?rows sample_poller = (p', rs, e)"
    by (metis prod_cases3)
  show ?thesis using walk_rows_isolated [OF _ w] w by (simp add: row_address_def dict_get_Cons)
qed

end
