(* ===== verification/Settings.thy ===== *)
theory Settings
  imports Common Poller Sender Auth
begin

text \<open>
  The settings that the modules read from the environment when they are imported: the Celery
  configuration (\<^verbatim>\<open>celery_config.py\<close>) and the constants at the head of \<^verbatim>\<open>snmp/manager.py\<close>,
  \<^verbatim>\<open>snmp/tasks.py\<close>, \<^verbatim>\<open>snmp/auth.py\<close>, \<^verbatim>\<open>traps.py\<close>, \<^verbatim>\<open>splunk/tasks.py\<close>, \<^verbatim>\<open>inventory/\<close>,
  \<^verbatim>\<open>discovery/\<close> and \<^verbatim>\<open>common/\<close>.

  The environment is a dictionary of texts.  An integer that cannot be parsed raises an exception
  and the module is not imported.
\<close>

section \<open>Reading a variable\<close>

type_synonym environment = "(string, string) dict"

definition int_var :: "environment \<Rightarrow> string \<Rightarrow> int \<Rightarrow> int result" where
  \<comment> \<open>\<open>int(os.getenv(name, default))\<close>\<close>
  "int_var env name dflt = (case dict_get env name of None \<Rightarrow> Inr dflt | Some s \<Rightarrow> parse_int s)"

definition bool_var :: "environment \<Rightarrow> string \<Rightarrow> pyval \<Rightarrow> bool \<Rightarrow> bool result" where
  \<comment> \<open>\<open>human_bool(os.getenv(name, unset), default)\<close>\<close>
  "bool_var env name unset dflt =
     human_bool (case dict_get env name of None \<Rightarrow> unset | Some s \<Rightarrow> PStr s) dflt"

definition lower_bool_var :: "environment \<Rightarrow> string \<Rightarrow> string \<Rightarrow> bool result" where
  \<comment> \<open>\<open>human_bool(os.getenv(name, unset).lower())\<close>\<close>
  "lower_bool_var env name unset = human_bool (PStr (str_lower (dict_get_or env name unset))) False"

section \<open>Celery\<close>

record celery_settings =
  ce_time_limit :: int
  ce_prefetch :: int
  ce_broker_options :: "(string, pyval) dict"
  ce_redis_url :: "string option"
  ce_broker_url :: "string option"
  ce_quiet_mongo :: bool
  ce_acks_late :: bool
  ce_acks_on_failure :: bool
  ce_reject_on_lost :: bool
  ce_ignore_result :: bool
  ce_create_queues :: bool
  ce_result_expires :: int
  ce_default_priority :: int
  ce_default_queue :: string
  ce_queues :: "string list"

definition broker_transport_options :: "environment \<Rightarrow> (string, pyval) dict" where
  "broker_transport_options env =
     (let priority_steps = PList (map PInt [0..9]) in
      if dict_get_or env ''REDIS_MODE'' ''standalone'' = ''replication''
      then [(''service_name'', PStr ''mymaster''), (''master_name'', PStr ''mymaster''),
            (''priority_steps'', priority_steps), (''retry_on_timeout'', PBool True), (''socket_timeout'', PInt 5),
            (''retry_policy'', PDict [(''max_retries'', PInt 100), (''interval_start'', PInt 0),
               (''interval_step'', PInt 2), (''interval_max'', PInt 5)]),
            (''sep'', PStr '':''), (''db'', PInt 1), (''queue_order_strategy'', PStr ''priority''),
            (''sentinels'', PList [PTuple [PStr (dict_get_or env ''REDIS_SENTINEL_SERVICE'' ''snmp-redis-sentinel''),
               PInt 26379]]),
            (''password'', case dict_get env ''REDIS_PASSWORD'' of None \<Rightarrow> PNone | Some s \<Rightarrow> PStr s)]
      else [(''priority_steps'', priority_steps), (''sep'', PStr '':''), (''queue_order_strategy'', PStr ''priority'')])"

definition celery_config :: "environment \<Rightarrow> celery_settings result" where
  "celery_config env =
     res_bind (int_var env ''CELERY_TASK_TIMEOUT'' 2400) (\<lambda>time_limit.
     res_bind (int_var env ''PREFETCH_COUNT'' 1) (\<lambda>prefetch.
     res_bind (bool_var env ''DISABLE_MONGO_DEBUG_LOGGING'' (PStr ''true'') False) (\<lambda>quiet.
       Inr \<lparr>ce_time_limit = time_limit, ce_prefetch = prefetch, ce_broker_options = broker_transport_options env,
            ce_redis_url = dict_get env ''REDIS_URL'', ce_broker_url = dict_get env ''CELERY_BROKER_URL'',
            ce_quiet_mongo = quiet, ce_acks_late = True, ce_acks_on_failure = True, ce_reject_on_lost = True,
            ce_ignore_result = True, ce_create_queues = False, ce_result_expires = 60, ce_default_priority = 5,
            ce_default_queue = ''poll'', ce_queues = [''traps'', ''poll'', ''send'', ''discovery'']\<rparr>)))"

section \<open>The poller\<close>

record manager_settings =
  ms_mib_sources :: string
  ms_mib_index :: string
  ms_mib_standard :: string
  ms_ignored_hosts :: "string list"
  ms_mongo_db :: string
  ms_ignore_empty :: bool
  ms_config_path :: string
  ms_reload_delay :: int
  ms_timeout :: int
  ms_max_oid :: int
  ms_debug :: string
  ms_max_repetitions :: int

definition manager_settings :: "environment \<Rightarrow> manager_settings result" where
  "manager_settings env =
     res_bind (bool_var env ''IGNORE_EMPTY_VARBINDS'' (PBool False) False) (\<lambda>ignore_empty.
     res_bind (int_var env ''PROFILES_RELOAD_DELAY'' 60) (\<lambda>reload_delay.
     res_bind (int_var env ''UDP_CONNECTION_TIMEOUT'' 3) (\<lambda>timeout.
     res_bind (int_var env ''MAX_OID_TO_PROCESS'' 70) (\<lambda>max_oid.
     res_bind (int_var env ''MAX_REPETITIONS'' 10) (\<lambda>max_repetitions.
       Inr \<lparr>ms_mib_sources = dict_get_or env ''MIB_SOURCES'' ''https://pysnmp.github.io/mibs/asn1/@mib@'',
            ms_mib_index = dict_get_or env ''MIB_INDEX'' ''https://pysnmp.github.io/mibs/index.csv'',
            ms_mib_standard = dict_get_or env ''MIB_STANDARD'' ''https://pysnmp.github.io/mibs/standard.txt'',
            ms_ignored_hosts = str_split '','' (dict_get_or env ''IGNORE_NOT_INCREASING_OIDS'' []),
            ms_mongo_db = dict_get_or env ''MONGO_DB'' ''sc4snmp'', ms_ignore_empty = ignore_empty,
            ms_config_path = dict_get_or env ''CONFIG_PATH'' ''/app/config/config.yaml'',
            ms_reload_delay = reload_delay, ms_timeout = timeout, ms_max_oid = max_oid,
            ms_debug = dict_get_or env ''PYSNMP_DEBUG'' [], ms_max_repetitions = max_repetitions\<rparr>)))))"

definition enabled_debug_flags :: "string list \<Rightarrow> string \<Rightarrow> string list" where
  \<comment> \<open>the flags of pysnmp that \<open>PYSNMP_DEBUG\<close> names; the first argument are the known ones\<close>
  "enabled_debug_flags debug_flags setting =
     (if setting = [] then []
      else filter (\<lambda>f. f \<in> set debug_flags) (map str_strip (str_split '','' setting)))"

definition with_settings :: "manager_settings \<Rightarrow> ('o, 'v) snmp_env \<Rightarrow> ('o, 'v) snmp_env" where
  \<comment> \<open>the environment of a poll under these settings\<close>
  "with_settings s env =
     env\<lparr>se_ignore_empty := ms_ignore_empty s, se_ignore_hosts := ms_ignored_hosts s, se_max_oid := ms_max_oid s,
         se_max_repetitions := ms_max_repetitions s, se_reload_delay := of_int (ms_reload_delay s)\<rparr>"

section \<open>The trap task and the trap receiver\<close>

record trap_settings =
  tset_retry_max :: int
  tset_walk_retries :: int
  tset_resolve_address :: string
  tset_include_unresolved :: bool
  tset_dns_cache_size :: int
  tset_dns_cache_ttl :: int
  tset_ipv6 :: bool

definition trap_task_settings :: "environment \<Rightarrow> trap_settings result" where
  "trap_task_settings env =
     res_bind (int_var env ''WALK_RETRY_MAX_INTERVAL'' 180) (\<lambda>retry_max.
     res_bind (int_var env ''WALK_MAX_RETRIES'' 5) (\<lambda>walk_retries.
     res_bind (lower_bool_var env ''INCLUDE_UNRESOLVED_TRAP_VARBINDS'' ''false'') (\<lambda>include_unresolved.
     res_bind (int_var env ''MAX_DNS_CACHE_SIZE_TRAPS'' 100) (\<lambda>cache_size.
     res_bind (int_var env ''TTL_DNS_CACHE_TRAPS'' 1800) (\<lambda>cache_ttl.
     res_bind (lower_bool_var env ''IPv6_ENABLED'' ''false'') (\<lambda>ipv6.
       Inr \<lparr>tset_retry_max = retry_max, tset_walk_retries = walk_retries,
            tset_resolve_address = dict_get_or env ''RESOLVE_TRAP_ADDRESS'' ''false'',
            tset_include_unresolved = include_unresolved, tset_dns_cache_size = cache_size,
            tset_dns_cache_ttl = cache_ttl, tset_ipv6 = ipv6\<rparr>))))))"

record receiver_settings =
  rset_engine_ids :: "string list"
  rset_include_context :: bool
  rset_discover_engine :: bool
  rset_ipv6 :: bool
  rset_quiet_mongo :: bool
  rset_log_level :: string
  rset_debug :: string

definition receiver_settings :: "environment \<Rightarrow> receiver_settings result" where
  "receiver_settings env =
     res_bind (bool_var env ''INCLUDE_SECURITY_CONTEXT_ID'' (PStr ''false'') False) (\<lambda>include_context.
     res_bind (bool_var env ''DISCOVER_ENGINE_ID'' (PStr ''false'') False) (\<lambda>discover_engine.
     res_bind (lower_bool_var env ''IPv6_ENABLED'' ''false'') (\<lambda>ipv6.
     res_bind (bool_var env ''DISABLE_MONGO_DEBUG_LOGGING'' (PStr ''true'') False) (\<lambda>quiet.
       Inr \<lparr>rset_engine_ids = str_split '','' (dict_get_or env ''SNMP_V3_SECURITY_ENGINE_ID'' ''80003a8c04''),
            rset_include_context = include_context, rset_discover_engine = discover_engine, rset_ipv6 = ipv6,
            rset_quiet_mongo = quiet, rset_log_level = dict_get_or env ''LOG_LEVEL'' ''INFO'',
            rset_debug = dict_get_or env ''PYSNMP_DEBUG'' []\<rparr>))))"

section \<open>The sender and the loader\<close>

record sender_settings =
  sset_uri :: string
  sset_ca_cert :: "string option"
  sset_client_cert :: "string option"
  sset_client_key :: "string option"
  sset_hyphens :: bool
  sset_metrics_indexing :: bool
  sset_index_events :: string
  sset_index_metrics :: string
  sset_sourcetype_traps :: string
  sset_sourcetype_metrics :: string
  sset_sourcetype_events :: string
  sset_version :: string
  sset_tls_verify :: bool
  sset_otel_url :: "string option"
  sset_chunk_size :: int
  sset_aggregate_traps :: bool

definition hec_tls_verify :: "environment \<Rightarrow> bool result" where
  "hec_tls_verify env = res_map Not (bool_var env ''SPLUNK_HEC_INSECURESSL'' (PStr ''yes'') True)"

definition sender_settings :: "environment \<Rightarrow> sender_settings result" where
  "sender_settings env =
     res_bind (bool_var env ''SPLUNK_METRIC_NAME_HYPHEN_TO_UNDERSCORE'' (PStr ''false'') False) (\<lambda>hyphens.
     res_bind (bool_var env ''METRICS_INDEXING_ENABLED'' (PStr ''false'') False) (\<lambda>metrics_indexing.
     res_bind (hec_tls_verify env) (\<lambda>tls_verify.
     res_bind (int_var env ''SPLUNK_HEC_CHUNK_SIZE'' 50) (\<lambda>chunk_size.
     res_bind (bool_var env ''SPLUNK_AGGREGATE_TRAPS_EVENTS'' (PStr ''false'') False) (\<lambda>aggregate_traps.
       Inr \<lparr>sset_uri = hec_uri (dict_get_or env ''SPLUNK_HEC_SCHEME'' ''https'')
              (dict_get_or env ''SPLUNK_HEC_HOST'' ''127.0.0.1'') (dict_get env ''SPLUNK_HEC_PORT'')
              (dict_get_or env ''SPLUNK_HEC_PATH'' ''services/collector''),
            sset_ca_cert = dict_get env ''SPLUNK_HEC_MTLS_CA_CERT'',
            sset_client_cert = dict_get env ''SPLUNK_HEC_MTLS_CLIENT_CERT'',
            sset_client_key = dict_get env ''SPLUNK_HEC_MTLS_CLIENT_KEY'',
            sset_hyphens = hyphens, sset_metrics_indexing = metrics_indexing,
            sset_index_events = dict_get_or env ''SPLUNK_HEC_INDEX_EVENTS'' ''netops'',
            sset_index_metrics = dict_get_or env ''SPLUNK_HEC_INDEX_METRICS'' ''netmetrics'',
            sset_sourcetype_traps = dict_get_or env ''SPLUNK_SOURCETYPE_TRAPS'' ''sc4snmp:traps'',
            sset_sourcetype_metrics = dict_get_or env ''SPLUNK_SOURCETYPE_POLLING_METRICS'' ''sc4snmp:metric'',
            sset_sourcetype_events = dict_get_or env ''SPLUNK_SOURCETYPE_POLLING_EVENTS'' ''sc4snmp:event'',
            sset_version = dict_get_or env ''SC4SNMP_VERSION'' ''0.0.0'', sset_tls_verify = tls_verify,
            sset_otel_url = dict_get env ''OTEL_METRICS_URL'', sset_chunk_size = chunk_size,
            sset_aggregate_traps = aggregate_traps\<rparr>)))))"

definition sender_session :: "(string \<Rightarrow> bool) \<Rightarrow> sender_settings \<Rightarrow> string option \<Rightarrow> hec_session" where
  \<comment> \<open>the session of the sender's task under these settings\<close>
  "sender_session path_exists s token =
     new_hec_session path_exists (sset_tls_verify s) (sset_ca_cert s) (sset_client_cert s) (sset_client_key s)
       (hec_headers token (sset_version s))"

record loader_settings =
  lset_mongo_db :: string
  lset_config_path :: string
  lset_inventory_path :: string
  lset_config_from_mongo :: bool
  lset_expiry :: int

definition loader_settings :: "environment \<Rightarrow> loader_settings result" where
  "loader_settings env =
     res_bind (lower_bool_var env ''CONFIG_FROM_MONGO'' ''false'') (\<lambda>config_from_mongo.
     res_bind (int_var env ''CHAIN_OF_TASKS_EXPIRY_TIME'' 60) (\<lambda>expiry.
       Inr \<lparr>lset_mongo_db = dict_get_or env ''MONGO_DB'' ''sc4snmp'',
            lset_config_path = dict_get_or env ''CONFIG_PATH'' ''/app/config/config.yaml'',
            lset_inventory_path = dict_get_or env ''INVENTORY_PATH'' ''/app/inventory/inventory.csv'',
            lset_config_from_mongo = config_from_mongo, lset_expiry = expiry\<rparr>))"

section \<open>The setup of hosts, credentials and the discovery\<close>

record setup_settings =
  uset_mongo_db :: string
  uset_config_path :: string
  uset_reload_delay :: int
  uset_poll_base :: bool

definition setup_settings :: "environment \<Rightarrow> setup_settings result" where
  "setup_settings env =
     res_bind (int_var env ''PROFILES_RELOAD_DELAY'' 300) (\<lambda>reload_delay.
     res_map (\<lambda>poll_base. \<lparr>uset_mongo_db = dict_get_or env ''MONGO_DB'' ''sc4snmp'',
         uset_config_path = dict_get_or env ''CONFIG_PATH'' ''/app/config/config.yaml'',
         uset_reload_delay = reload_delay, uset_poll_base = poll_base\<rparr>)
       (bool_var env ''POLL_BASE_PROFILES'' (PStr ''true'') False))"

record processor_settings =
  pset_config_path :: string
  pset_inventory_path :: string
  pset_config_from_mongo :: bool

definition processor_settings :: "environment \<Rightarrow> processor_settings result" where
  "processor_settings env =
     res_map (\<lambda>from_mongo. \<lparr>pset_config_path = dict_get_or env ''CONFIG_PATH'' ''/app/config/config.yaml'',
         pset_inventory_path = dict_get_or env ''INVENTORY_PATH'' ''/app/inventory/inventory.csv'',
         pset_config_from_mongo = from_mongo\<rparr>)
       (lower_bool_var env ''CONFIG_FROM_MONGO'' ''false'')"

definition full_walk_setting :: "environment \<Rightarrow> bool result" where
  "full_walk_setting env = lower_bool_var env ''ENABLE_FULL_WALK'' ''false''"

definition collection_settings :: "environment \<Rightarrow> (string \<times> bool) result" where
  \<comment> \<open>the path of the configuration and whether it comes from MongoDB\<close>
  "collection_settings env =
     res_map (\<lambda>from_mongo. (dict_get_or env ''CONFIG_PATH'' ''/app/config/config.yaml'', from_mongo))
       (lower_bool_var env ''CONFIG_FROM_MONGO'' ''false'')"

record auth_settings =
  aset_timeout :: int
  aset_retries :: int
  aset_ipv6 :: bool

definition auth_settings :: "environment \<Rightarrow> auth_settings result" where
  "auth_settings env =
     res_bind (int_var env ''UDP_CONNECTION_TIMEOUT'' 1) (\<lambda>timeout.
     res_bind (int_var env ''UDP_CONNECTION_RETRIES'' 5) (\<lambda>retries.
     res_map (\<lambda>ipv6. \<lparr>aset_timeout = timeout, aset_retries = retries, aset_ipv6 = ipv6\<rparr>)
       (lower_bool_var env ''IPv6_ENABLED'' ''false'')))"

record discovery_settings =
  dset_csv_path :: string
  dset_lock_path :: string
  dset_concurrency :: int

definition discovery_settings :: "environment \<Rightarrow> discovery_settings result" where
  "discovery_settings env =
     (let folder = dict_get_or env ''DISCOVERY_FOLDER_PATH'' ''/app/discovery'' in
      res_map (\<lambda>concurrency. \<lparr>dset_csv_path = path_join folder ''discovery_devices.csv'',
          dset_lock_path = path_join folder ''discovery_devices.lock'', dset_concurrency = concurrency\<rparr>)
        (int_var env ''SUBNET_DISCOVERY_CONCURRENCY'' 10))"

record discovery_loader_settings =
  oset_config_path :: string
  oset_expiry :: int
  oset_log_level :: string

definition discovery_loader_settings :: "environment \<Rightarrow> discovery_loader_settings result" where
  "discovery_loader_settings env =
     res_map (\<lambda>expiry.
         \<lparr>oset_config_path = dict_get_or env ''DISCOVERY_CONFIG_PATH'' ''/app/discovery/discovery-config.yaml'',
          oset_expiry = expiry, oset_log_level = dict_get_or env ''LOG_LEVEL'' ''INFO''\<rparr>)
       (int_var env ''CHAIN_OF_TASKS_EXPIRY_TIME'' 60)"

section \<open>When the settings can be read\<close>

definition int_vars_ok :: "environment \<Rightarrow> string list \<Rightarrow> bool" where
  "int_vars_ok env names \<longleftrightarrow>
     list_all (\<lambda>n. case dict_get env n of None \<Rightarrow> True | Some s \<Rightarrow> is_ok (parse_int s)) names"

lemma int_var_ok: "is_ok (int_var env n d) \<longleftrightarrow> int_vars_ok env [n]"
  by (simp add: int_var_def int_vars_ok_def split: option.split)

lemma bool_var_text:
  "bool_var env n (PStr t) d = Inr (case human_bool (PStr (dict_get_or env n t)) d of Inr b \<Rightarrow> b | Inl _ \<Rightarrow> False)"
  by (auto simp: bool_var_def dict_get_or_def human_bool_def split: option.split)

lemma bool_var_ok [simp]: "is_ok (bool_var env n (PStr t) d)" "is_ok (bool_var env n (PBool b) d)"
  "is_ok (lower_bool_var env n t)"
  by (auto simp: bool_var_def lower_bool_var_def human_bool_def split: option.split)

lemma is_ok_bind: "is_ok (res_bind r f) \<longleftrightarrow> (\<exists>x. r = Inr x \<and> is_ok (f x))"
  by (cases r) auto

lemma is_ok_bind_const:
  assumes "\<And>x. is_ok (f x) \<longleftrightarrow> P"
  shows "is_ok (res_bind r f) \<longleftrightarrow> is_ok r \<and> P"
  using assms by (cases r) auto

text \<open>
  A module is imported exactly when every integer among its settings can be parsed, whatever its
  other settings say.
\<close>

theorem settings_readable:
  "(is_ok (celery_config env) \<longleftrightarrow> int_vars_ok env [''CELERY_TASK_TIMEOUT'', ''PREFETCH_COUNT'']) \<and>
   (is_ok (manager_settings env) \<longleftrightarrow> int_vars_ok env
      [''PROFILES_RELOAD_DELAY'', ''UDP_CONNECTION_TIMEOUT'', ''MAX_OID_TO_PROCESS'', ''MAX_REPETITIONS'']) \<and>
   (is_ok (trap_task_settings env) \<longleftrightarrow> int_vars_ok env
      [''WALK_RETRY_MAX_INTERVAL'', ''WALK_MAX_RETRIES'', ''MAX_DNS_CACHE_SIZE_TRAPS'', ''TTL_DNS_CACHE_TRAPS'']) \<and>
   is_ok (receiver_settings env) \<and>
   (is_ok (sender_settings env) \<longleftrightarrow> int_vars_ok env [''SPLUNK_HEC_CHUNK_SIZE'']) \<and>
   (is_ok (loader_settings env) \<longleftrightarrow> int_vars_ok env [''CHAIN_OF_TASKS_EXPIRY_TIME''])"
proof -
  note defs = celery_config_def manager_settings_def trap_task_settings_def receiver_settings_def
    sender_settings_def loader_settings_def
  have tls: "is_ok (hec_tls_verify env)" by (simp add: hec_tls_verify_def bool_var_text)
  have join: "int_vars_ok env (n # m # ns) \<longleftrightarrow> int_vars_ok env [n] \<and> int_vars_ok env (m # ns)" for n m ns
    by (simp add: int_vars_ok_def)
  show ?thesis
    unfolding defs by (simp add: is_ok_bind_const int_var_ok tls join conj_ac)
qed

lemma is_ok_map [simp]: "is_ok (res_map f r) \<longleftrightarrow> is_ok r"
  by (cases r) auto

theorem more_settings_readable:
  "(is_ok (setup_settings env) \<longleftrightarrow> int_vars_ok env [''PROFILES_RELOAD_DELAY'']) \<and>
   is_ok (processor_settings env) \<and> is_ok (full_walk_setting env) \<and> is_ok (collection_settings env) \<and>
   (is_ok (auth_settings env) \<longleftrightarrow> int_vars_ok env [''UDP_CONNECTION_TIMEOUT'', ''UDP_CONNECTION_RETRIES'']) \<and>
   (is_ok (discovery_settings env) \<longleftrightarrow> int_vars_ok env [''SUBNET_DISCOVERY_CONCURRENCY'']) \<and>
   (is_ok (discovery_loader_settings env) \<longleftrightarrow> int_vars_ok env [''CHAIN_OF_TASKS_EXPIRY_TIME''])"
proof -
  note defs = setup_settings_def processor_settings_def full_walk_setting_def collection_settings_def
    auth_settings_def discovery_settings_def discovery_loader_settings_def
  have join: "int_vars_ok env (n # m # ns) \<longleftrightarrow> int_vars_ok env [n] \<and> int_vars_ok env (m # ns)" for n m ns
    by (simp add: int_vars_ok_def)
  show ?thesis unfolding defs Let_def by (simp add: is_ok_bind_const int_var_ok join)
qed

text \<open>
  Several modules read the same variable on their own.  Those that the loading of the inventory, the
  profiles and the discovery share come out the same in every module.  The time limit of a request
  and the delay before profiles are reloaded have different defaults in different modules, so these
  agree exactly when the variable is set (or, of course, is never read).
\<close>

theorem modules_agree:
  assumes "loader_settings env = Inr l" "processor_settings env = Inr p" "collection_settings env = Inr c"
    and "discovery_loader_settings env = Inr d" "manager_settings env = Inr m" "auth_settings env = Inr a"
    and "setup_settings env = Inr u" "trap_task_settings env = Inr t"
  shows "lset_config_from_mongo l = pset_config_from_mongo p \<and> pset_config_from_mongo p = snd c \<and>
    lset_inventory_path l = pset_inventory_path p \<and>
    lset_config_path l = fst c \<and> pset_config_path p = fst c \<and> uset_config_path u = fst c \<and> ms_config_path m = fst c \<and>
    lset_expiry l = oset_expiry d \<and> aset_ipv6 a = tset_ipv6 t \<and>
    lset_mongo_db l = ms_mongo_db m \<and> uset_mongo_db u = ms_mongo_db m \<and>
    (dict_get env ''UDP_CONNECTION_TIMEOUT'' \<noteq> None \<longleftrightarrow> ms_timeout m = aset_timeout a) \<and>
    (dict_get env ''PROFILES_RELOAD_DELAY'' \<noteq> None \<longleftrightarrow> ms_reload_delay m = uset_reload_delay u)"
proof -
  have int: "int_var env n x = Inr i \<Longrightarrow> int_var env n y = Inr j \<Longrightarrow> x \<noteq> y \<Longrightarrow> dict_get env n \<noteq> None \<longleftrightarrow> i = j" for n x y i j
    by (auto simp: int_var_def split: option.splits)
  have m: "int_var env ''UDP_CONNECTION_TIMEOUT'' 3 = Inr (ms_timeout m)"
    "int_var env ''PROFILES_RELOAD_DELAY'' 60 = Inr (ms_reload_delay m)"
    using assms(5) by (auto simp: manager_settings_def res_splits)
  have other: "int_var env ''UDP_CONNECTION_TIMEOUT'' 1 = Inr (aset_timeout a)"
    "int_var env ''PROFILES_RELOAD_DELAY'' 300 = Inr (uset_reload_delay u)"
    using assms(6,7) by (auto simp: auth_settings_def setup_settings_def res_splits)
  have "dict_get env ''UDP_CONNECTION_TIMEOUT'' \<noteq> None \<longleftrightarrow> ms_timeout m = aset_timeout a"
    "dict_get env ''PROFILES_RELOAD_DELAY'' \<noteq> None \<longleftrightarrow> ms_reload_delay m = uset_reload_delay u"
    using int [OF m(1) other(1)] int [OF m(2) other(2)] by simp_all
  moreover have "lower_bool_var env ''CONFIG_FROM_MONGO'' ''false'' = Inr (lset_config_from_mongo l)"
    "int_var env ''CHAIN_OF_TASKS_EXPIRY_TIME'' 60 = Inr (lset_expiry l)"
    "lset_mongo_db l = dict_get_or env ''MONGO_DB'' ''sc4snmp''"
    "lset_inventory_path l = dict_get_or env ''INVENTORY_PATH'' ''/app/inventory/inventory.csv''"
    "lset_config_path l = dict_get_or env ''CONFIG_PATH'' ''/app/config/config.yaml''"
    using assms(1) by (auto simp: loader_settings_def res_splits)
  moreover have "lower_bool_var env ''CONFIG_FROM_MONGO'' ''false'' = Inr (pset_config_from_mongo p)"
    "pset_inventory_path p = dict_get_or env ''INVENTORY_PATH'' ''/app/inventory/inventory.csv''"
    "pset_config_path p = dict_get_or env ''CONFIG_PATH'' ''/app/config/config.yaml''"
    using assms(2) by (auto simp: processor_settings_def res_splits)
  moreover have "lower_bool_var env ''CONFIG_FROM_MONGO'' ''false'' = Inr (snd c)"
    "fst c = dict_get_or env ''CONFIG_PATH'' ''/app/config/config.yaml''"
    using assms(3) by (auto simp: collection_settings_def res_splits)
  moreover have "int_var env ''CHAIN_OF_TASKS_EXPIRY_TIME'' 60 = Inr (oset_expiry d)"
    using assms(4) by (auto simp: discovery_loader_settings_def res_splits)
  moreover have "ms_mongo_db m = dict_get_or env ''MONGO_DB'' ''sc4snmp''"
    "ms_config_path m = dict_get_or env ''CONFIG_PATH'' ''/app/config/config.yaml''"
    using assms(5) by (auto simp: manager_settings_def res_splits)
  moreover have "lower_bool_var env ''IPv6_ENABLED'' ''false'' = Inr (aset_ipv6 a)"
    using assms(6) by (auto simp: auth_settings_def res_splits)
  moreover have "uset_mongo_db u = dict_get_or env ''MONGO_DB'' ''sc4snmp''"
    "uset_config_path u = dict_get_or env ''CONFIG_PATH'' ''/app/config/config.yaml''"
    using assms(7) by (auto simp: setup_settings_def res_splits)
  moreover have "lower_bool_var env ''IPv6_ENABLED'' ''false'' = Inr (tset_ipv6 t)"
    using assms(8) by (auto simp: trap_task_settings_def res_splits)
  ultimately show ?thesis by simp
qed

theorem modules_agree_witness:
  "\<exists>m a. manager_settings [] = Inr m \<and> auth_settings [] = Inr a \<and> ms_timeout m \<noteq> aset_timeout a"
proof -
  have "is_ok (loader_settings [])" "is_ok (processor_settings [])" "is_ok (collection_settings [])"
    "is_ok (discovery_loader_settings [])" "is_ok (manager_settings [])" "is_ok (auth_settings [])"
    "is_ok (setup_settings [])" "is_ok (trap_task_settings [])"
    using settings_readable [of "[]"] more_settings_readable [of "[]"] by (simp_all add: int_vars_ok_def)
  then obtain l p c d m a u t where "loader_settings [] = Inr l" "processor_settings [] = Inr p"
    "collection_settings [] = Inr c" "discovery_loader_settings [] = Inr d" "manager_settings [] = Inr m"
    "auth_settings [] = Inr a" "setup_settings [] = Inr u" "trap_task_settings [] = Inr t"
    by (auto simp: is_ok_iff)
  from modules_agree [OF this] this show ?thesis by auto
qed

section \<open>What some settings do\<close>

text \<open>
  The sender verifies the certificate of Splunk exactly when the setting that turns the
  verification off is present with one of the texts that mean no; any other text, a misspelt one
  as well, turns it off, also when an authority is configured.
\<close>

theorem sender_verifies_certificate:
  assumes "sender_settings env = Inr s"
  shows "hs_verify (sender_session path_exists s token) \<noteq> VerifyFlag False \<longleftrightarrow>
    (\<exists>v. dict_get env ''SPLUNK_HEC_INSECURESSL'' = Some v \<and> str_lower v \<in> {''false'', ''0'', ''f'', ''n'', ''no''})"
proof -
  have "hec_tls_verify env = Inr (sset_tls_verify s)"
    using assms by (auto simp: sender_settings_def res_splits)
  then have "sset_tls_verify s \<longleftrightarrow>
      (\<exists>v. dict_get env ''SPLUNK_HEC_INSECURESSL'' = Some v \<and> str_lower v \<in> {''false'', ''0'', ''f'', ''n'', ''no''})"
    by (auto simp: hec_tls_verify_def bool_var_def human_bool_def str_lower_def lower_char_def
        split: option.splits if_splits)
  then show ?thesis by (simp add: sender_session_def new_hec_session_def split: option.split)
qed

theorem sender_verifies_certificate_witness:
  "\<exists>s. sender_settings [(''SPLUNK_HEC_INSECURESSL'', ''flase''), (''SPLUNK_HEC_MTLS_CA_CERT'', ''ca'')] = Inr s \<and>
     hs_verify (sender_session (\<lambda>_. True) s None) = VerifyFlag False"
proof -
  let ?env = "[(''SPLUNK_HEC_INSECURESSL'', ''flase''), (''SPLUNK_HEC_MTLS_CA_CERT'', ''ca'')]"
  have "is_ok (sender_settings ?env)"
    using settings_readable [of ?env] by (simp add: int_vars_ok_def dict_get_Cons)
  then obtain s where s: "sender_settings ?env = Inr s" by (auto simp: is_ok_iff)
  have "str_lower ''flase'' \<notin> {''false'', ''0'', ''f'', ''n'', ''no''}" by code_simp
  then show ?thesis using sender_verifies_certificate [OF s, of "\<lambda>_. True" None] s by (simp add: dict_get_Cons)
qed

text \<open>
  The variable that names the master of the sentinels is read and not used: the workers ask for
  the master \<open>mymaster\<close> whatever it says.
\<close>

theorem master_name_ignored:
  "broker_transport_options (dict_set ''REDIS_MASTER_NAME'' v env) = broker_transport_options env"
  by (simp add: broker_transport_options_def dict_get_or_def cong: if_cong)

text \<open>
  The number of variables in a request is not checked: zero makes every poll fail, and with a
  negative number no device is asked anything and every poll succeeds without a value.
\<close>

theorem max_oid_unchecked:
  assumes "se_auth env = Inr ()" "se_transport env = Inr ()" "plan_get plan \<noteq> [] \<or> plan_bulk plan \<noteq> []"
    and "manager_settings [(''MAX_OID_TO_PROCESS'', value)] = Inr s" "rec_field ir ''max_oid_to_process'' = PNone"
    and "parse_int value = Inr i" "i \<le> 0"
  shows "snd (run_requests (with_settings s env) host port plan (max_oid_of (with_settings s env) ir) p) =
    (if i = 0 then Raised ValueError else Done [])"
proof -
  have "ms_max_oid s = i"
    using assms(4,6) by (auto simp: manager_settings_def res_splits int_var_def dict_get_Cons)
  then have m: "max_oid_of (with_settings s env) ir = i" using assms(5) by (simp add: max_oid_of_def with_settings_def)
  have c: "chunks 0 xs = []" for xs :: "varbind list" by (simp add: chunks.simps)
  show ?thesis
    using assms(1-3,7) c unfolding m
    by (auto simp: run_requests_def with_settings_def run_bulk_request_def run_get_request_def
        get_varbind_chunk_def py_slices_def lift_res_def)
qed

theorem max_oid_unchecked_witness:
  "\<exists>s. manager_settings [(''MAX_OID_TO_PROCESS'', ''-5'')] = Inr s \<and>
     snd (run_requests (with_settings s sample_snmp_env) ''h'' 161
       \<lparr>plan_get = [[]], plan_get_mapping = [], plan_bulk = [], plan_bulk_mapping = []\<rparr>
       (max_oid_of (with_settings s sample_snmp_env) []) sample_poller) = Done []"
proof -
  have i: "parse_int ''-5'' = Inr (-5)" by code_simp
  have "is_ok (manager_settings [(''MAX_OID_TO_PROCESS'', ''-5'')])"
    using settings_readable [of "[(''MAX_OID_TO_PROCESS'', ''-5'')]"] i by (simp add: int_vars_ok_def dict_get_Cons)
  then obtain s where s: "manager_settings [(''MAX_OID_TO_PROCESS'', ''-5'')] = Inr s" by (auto simp: is_ok_iff)
  have "rec_field [] ''max_oid_to_process'' = PNone" by (simp add: rec_field_def dict_get_or_def)
  with max_oid_unchecked [OF _ _ _ s _ i, of sample_snmp_env
      "\<lparr>plan_get = [[]], plan_get_mapping = [], plan_bulk = [], plan_bulk_mapping = []\<rparr>"
      "[]" "''h''" 161 sample_poller] s
  show ?thesis by (simp add: sample_snmp_env_def)
qed

end
