(* ===== verification/Spec2Isabelle.thy ===== *)
theory Spec2Isabelle
  imports Poller Enrich InventoryStore TrapTask Traps DiscoverySchedule Pipeline ComposeLogs SecretFiles Workers Settings
begin

text \<open>
  \<^bold>\<open>Splunk Connect for SNMP\<close> polls SNMP devices, receives their traps and hands what it finds to
  Splunk.  This development models its Python code and proves what the parts promise.

  \<^bold>\<open>The program.\<close>  An inventory of hosts, groups of hosts and profiles (which varbinds to ask
  for, how often, on which devices) is loaded into MongoDB, and with every host a periodic walk
  is put into the scheduler (\<^verbatim>\<open>inventory/loader.py\<close>, \<^verbatim>\<open>common/inventory_processor.py\<close>).  The
  walk of a device (\<^verbatim>\<open>snmp/tasks.py\<close>, \<^verbatim>\<open>snmp/manager.py\<close>) is enriched and stored
  (\<^verbatim>\<open>enrich/tasks.py\<close>); from what is stored \<^verbatim>\<open>inventory/tasks.py\<close> decides which profiles apply
  and puts a periodic poll for every period into the scheduler.  Each poll is enriched, prepared and
  sent (\<^verbatim>\<open>splunk/tasks.py\<close>).  The receiver of traps (\<^verbatim>\<open>traps.py\<close>) hands each notification to the
  trap task, whose result is prepared and sent as well.  The discovery (\<^verbatim>\<open>discovery/\<close>) scans
  subnets and keeps a table of the devices that answered.  The tasks run in Celery workers and share
  MongoDB, the scheduler's store and the MIB modules that each worker has loaded.

  \<^bold>\<open>How the code is modelled.\<close>  Python values are the datatype \<open>pyval\<close>, dictionaries are association
  lists in insertion order, and an exception is the left side of a sum.  An operation on objects
  that the program keeps takes and returns their state (a record); an operation on a database or on
  the scheduler returns the list of its commands and its outcome (\<open>effect\<close>).  Where operations
  interleave or state outlives a call there are step relations and histories.  Integers are
  unbounded as in Python; where SNMP bounds them, the bounds are written out.  A float is a
  rational, an infinity or not a number, and reading one rounds to the nearest double.

  \<^bold>\<open>The theories.\<close>
  \<^item> \<open>Prelude\<close>: exceptions, results, lists, dictionaries, effects, and the interfaces that
    several components share.  \<open>PyString\<close>, \<open>PyValue\<close>, \<open>PyIp\<close>, \<open>PyCsv\<close>: what the code uses of
    Python's strings and regular expressions, values, \<open>ipaddress\<close> and \<open>csv\<close>.
  \<^item> \<open>Varbinds\<close> (\<^verbatim>\<open>snmp/varbinds_resolver.py\<close>): the containers of varbinds, profiles and their
    collection; processing a profile and joining several asks for exactly the varbinds they name,
    with nothing asked for twice.
  \<^item> \<open>BulkWalk\<close> (\<^verbatim>\<open>snmp/multi_bulk_walk_cmd.py\<close>): the walk as a loop against an agent; it stays in
    scope and ends.
  \<^item> \<open>SnmpData\<close>, \<open>MibIndex\<close>, \<open>Poller\<close> (\<^verbatim>\<open>snmp/manager.py\<close>, \<^verbatim>\<open>snmp/mib_index_validator.py\<close>,
    \<^verbatim>\<open>snmp/tasks.py\<close>): from responses to metrics, the MIB index and its refresh, one poll or walk
    and what the worker remembers.
  \<^item> \<open>Records\<close>, \<open>Collections\<close>, \<open>TaskMgr\<close>, \<open>Inventory\<close>, \<open>InventorySetup\<close>, \<open>Schedule\<close>,
    \<open>InventoryStore\<close>: the validated records, the collections in MongoDB with their schemas, the
    periodic tasks, the loading of the inventory, the setup of the polls of a host, what that makes
    of the scheduler's store, and what a loading, and a second one, makes of the inventory's
    documents and of the walk tasks.
  \<^item> \<open>Enrich\<close>, \<open>Sender\<close>, \<open>Pipeline\<close>: the stored attributes, the events and metrics with their
    batches, and the chains from a poll or a trap to Splunk.
  \<^item> \<open>TrapTask\<close>, \<open>Traps\<close>, \<open>Auth\<close>: the trap task, the receiver with its users and communities, and
    the credentials of polls and discoveries.
  \<^item> \<open>CsvRecords\<close>, \<open>Discovery\<close>, \<open>DiscoverySchedule\<close>: the table of devices, the scan of a subnet under its
    semaphore, and what loading the configured discoveries makes of the scheduler's store.
  \<^item> \<open>Common\<close>, \<open>Settings\<close>, \<open>Workers\<close>, \<open>ComposeLogs\<close>, \<open>SecretFiles\<close>: the MongoDB client across forks,
    caches and limits; the settings from the environment; the marker files of the probes and the
    walk of an inventory file; the scripts that edit a Docker Compose deployment.

  \<^bold>\<open>Interfaces.\<close>  \<open>py_dict\<close> (lookup, assignment and removal of a dictionary), \<open>text_codec\<close> (a text
  that reads back, for integers and IPv4 addresses), \<open>task_sink\<close> (what managing a task deletes, used
  by the setup of polls and by the discovery), \<open>progress\<close> (a relation between an earlier and a later
  state, lifted from one operation to every history: the worker after polls, after traps, and the
  report of the limit), \<open>stepping\<close> and its extension \<open>countdown\<close> (invariants of step relations and
  the length of their runs: the MongoDB clients of forked processes, the scan).  Each is interpreted
  on the definitions of the component that provides it.

  \<^bold>\<open>What the properties show.\<close>  The plan of a poll, the walk, the translation into metrics, the
  enrichment and the chains to Splunk: nothing that was asked for or found gets lost or doubled, with
  the exceptions that are stated.  Inventory, records and collections: which records, tasks and
  commands come out of which configuration, on every branch, what a failing line does to the
  others, that the stored inventory is what the last lines ask for, and that a second loading of
  the same inventory changes nothing.  Receiver, credentials and discovery: which users, engines and devices are known
  after any sequence of events.  Workers: what they remember over any history.

  \<^bold>\<open>Bounds and fuel.\<close>  The walk takes the number of its turns as an argument; against an agent whose
  answers rise through a finite set of names, a number that grows with the size of the set is
  enough (\<open>multi_bulk_walk_ends\<close>).  The loop of a walk task takes the number of its rounds, and one is
  enough (\<open>walk_loop_once\<close>).  The second look at the MIBs of a trap is bounded by the code's own
  constant.  All other recursion is structural or has a measure.

  \<^bold>\<open>Parameters.\<close>  The network and pysnmp's message layer, the resolution of names by pysnmp, the
  collections of MongoDB and the scheduler's store where they are read, reverse DNS, JSON and YAML
  texts, and the clock are arguments of the definitions.  Where a property follows what they hold over
  several operations, their documented behaviour is a hypothesis with a name: \<open>document_store\<close> (an
  upsert sets the fields of one document, a deletion removes one), \<open>answers_store\<close> (an upsert of what is
  there is no change), \<open>reads_store\<close>, \<open>reads_entries\<close>
  and \<open>reads_all\<close> (the scheduler's readers return what was saved).
  Each has a concrete instance in a witness.

  \<^bold>\<open>Not modelled.\<close>  Log lines; Celery's queues, priorities, retries and expiry of messages; the setup of
  tracing and logging; the creation of the Celery applications; the subclasses without behaviour
  of their own (\<^verbatim>\<open>common/customised_json_formatter.py\<close>, \<^verbatim>\<open>common/requests.py\<close>, \<^verbatim>\<open>snmp/context.py\<close>,
  exceptions); the event loop and the observers of pysnmp in the receiver.  The helpers of the
  integration and UI tests (\<^verbatim>\<open>integration_tests/\<close>, \<^verbatim>\<open>ui_tests/\<close>) drive browsers, containers and a
  deployed Splunk and have no logic of the product.
\<close>

end
